(* ===== verification/Prelude.thy ===== *)
theory Prelude
  imports Main "HOL-Library.Word" "HOL-Library.Monad_Syntax"
begin

text \<open>
  Shared vocabulary of the development: the machine types of the 32-bit x86 target
  (\<open>BITS_PER_LONG = 32\<close> in \<open>libs/liblinux/common.mk\<close>), the error numbers, memory
  objects with bounds-checked block copies, and the generic facts on words and lists that
  the component theories use.

  A value \<open>None\<close> of an option stands for a fault of the C program: the access of a null
  pointer or of memory outside an object, a failed \<open>assert\<close>, or a \<open>BUG_ON\<close> that fires.
  Error codes the program returns are ordinary values of type \<^typ>\<open>int\<close>.
\<close>

unbundle bit_operations_syntax

section \<open>Machine types\<close>

type_synonym u8 = "8 word"
type_synonym u16 = "16 word"
type_synonym u32 = "32 word"
type_synonym u64 = "64 word"

text \<open>Addresses and \<open>unsigned long\<close> have 32 bits on the target.\<close>

type_synonym addr = "32 word"

named_theorems word_to_nat \<open>facts that move word arithmetic to natural numbers\<close>
named_theorems mem_simps \<open>facts about block loads and stores\<close>

section \<open>Error numbers\<close>

definition ENOENT :: int where "ENOENT = 2"
definition EBADF :: int where "EBADF = 9"
definition ENOMEM :: int where "ENOMEM = 12"
definition EFAULT :: int where "EFAULT = 14"
definition ENODEV :: int where "ENODEV = 19"
definition EINVAL :: int where "EINVAL = 22"

lemmas errno_defs = ENOENT_def EBADF_def ENOMEM_def EFAULT_def ENODEV_def EINVAL_def

section \<open>Memory objects\<close>

text \<open>
  An object is the list of its bytes. Loads and stores give the offset into the object and
  fault outside it, so the absence of a fault is memory safety.
\<close>

definition mem_load :: "'a list \<Rightarrow> nat \<Rightarrow> nat \<Rightarrow> 'a list option" where
  "mem_load blk off n =
     (if off + n \<le> length blk then Some (take n (drop off blk)) else None)"

definition mem_store :: "'a list \<Rightarrow> nat \<Rightarrow> 'a list \<Rightarrow> 'a list option" where
  "mem_store blk off bs =
     (if off + length bs \<le> length blk
      then Some (take off blk @ bs @ drop (off + length bs) blk) else None)"

lemma mem_load_Some [mem_simps]:
  "off + n \<le> length blk \<Longrightarrow> mem_load blk off n = Some (take n (drop off blk))"
  by (simp add: mem_load_def)

lemma mem_store_Some [mem_simps]:
  "off + length bs \<le> length blk \<Longrightarrow>
     mem_store blk off bs = Some (take off blk @ bs @ drop (off + length bs) blk)"
  by (simp add: mem_store_def)

lemma mem_load_None [mem_simps]:
  "length blk < off + n \<Longrightarrow> mem_load blk off n = None"
  by (simp add: mem_load_def)

lemma mem_store_None [mem_simps]:
  "length blk < off + length bs \<Longrightarrow> mem_store blk off bs = None"
  by (simp add: mem_store_def)

lemma mem_load_length [dest]: "mem_load blk off n = Some bs \<Longrightarrow> length bs = n"
  by (auto simp: mem_load_def split: if_splits)

lemma mem_store_length [dest]: "mem_store blk off bs = Some blk' \<Longrightarrow> length blk' = length blk"
  by (auto simp: mem_store_def split: if_splits)

section \<open>Words as numbers\<close>

lemma unat_add_no_wrap [word_to_nat]:
  "unat a + unat b < 2 ^ LENGTH('a) \<Longrightarrow> unat (a + b) = unat a + unat b"
  for a b :: "'a::len word"
  by (simp add: unat_word_ariths)

lemma unat_mult_no_wrap [word_to_nat]:
  "unat a * unat b < 2 ^ LENGTH('a) \<Longrightarrow> unat (a * b) = unat a * unat b"
  for a b :: "'a::len word"
  by (simp add: unat_word_ariths)

lemma unat_sub_no_wrap [word_to_nat]:
  "unat b \<le> unat a \<Longrightarrow> unat (a - b) = unat a - unat b"
  for a b :: "'a::len word"
  by (simp add: unat_sub word_le_nat_alt)

lemma unat_less_word: "unat (x :: u32) < 4294967296"
  using unsigned_less [of x, where ?'a = nat] by simp

lemma unat_min [word_to_nat]: "unat (min a b) = min (unat a) (unat b)"
  for a b :: "'a::len word"
  by (simp add: min_def word_le_nat_alt)

lemma unat_and_mask: "unat (x AND mask k) = unat x mod 2 ^ k" for x :: "'a::len word"
proof -
  have "unat (x AND mask k) = take_bit k (unat x)"
    by (simp add: take_bit_eq_mask [symmetric] unsigned_take_bit_eq)
  then show ?thesis by (simp add: take_bit_eq_mod)
qed

lemma and_not_zero_iff: "x AND NOT m = 0 \<longleftrightarrow> x AND m = x" for x m :: "'a::len word"
proof
  assume a: "x AND NOT m = 0"
  have "x = x AND (m OR NOT m)" by simp
  also have "\<dots> = (x AND m) OR (x AND NOT m)" by (simp only: bit.conj_disj_distrib)
  finally show "x AND m = x" using a by simp
next
  assume a: "x AND m = x"
  have "x AND NOT m = (x AND m) AND NOT m" using a by simp
  also have "\<dots> = 0" by (simp add: and.assoc)
  finally show "x AND NOT m = 0" .
qed

lemma take_bit_self_iff: "take_bit n x = x \<longleftrightarrow> unat x < 2 ^ n" for x :: "'a::len word"
proof -
  have "take_bit n x = x \<longleftrightarrow> unat (take_bit n x) = unat x"
    by (simp only: word_unat_eq_iff)
  also have "\<dots> \<longleftrightarrow> unat x < 2 ^ n"
    by (simp add: unsigned_take_bit_eq take_bit_nat_eq_self_iff)
  finally show ?thesis .
qed
lemma bit_unat_iff: "bit x i \<longleftrightarrow> odd (unat x div 2 ^ i)" for x :: "'a::len word"
proof -
  have "bit (unat x) i \<longleftrightarrow> bit x i" by (simp add: bit_unsigned_iff)
  then show ?thesis by (simp add: bit_iff_odd [of "unat x"])
qed
lemma unat_push_bit_no_wrap:
  fixes x :: "'a::len word"
  assumes "unat x * 2 ^ k < 2 ^ LENGTH('a)"
  shows "unat (push_bit k x) = unat x * 2 ^ k"
proof -
  have "unat (push_bit k x) = take_bit LENGTH('a) (push_bit k (unat x))"
    by (rule unsigned_push_bit_eq)
  then show ?thesis using assms by (simp add: push_bit_eq_mult take_bit_nat_eq_self)
qed

lemma unat_ucast_mod [word_to_nat]:
  "unat (ucast x :: 'b::len word) = unat x mod 2 ^ LENGTH('b)" for x :: "'a::len word"
  by (simp add: unsigned_ucast_eq take_bit_eq_mod)

lemma unat_drop_bit_div [word_to_nat]: "unat (drop_bit n x) = unat x div 2 ^ n"
  for x :: "'a::len word"
  using unat_drop_bit_eq [of n x] by (simp only: drop_bit_eq_div [of n "unat x"])

text \<open>Adding to a wrapping counter and reducing modulo a smaller power of two commute.\<close>

lemma unat_add_mod_pow2:
  fixes a b :: "'a::len word"
  assumes "k \<le> LENGTH('a)"
  shows "unat (a + b) mod 2 ^ k = (unat a + unat b) mod 2 ^ k"
proof -
  have "(2::nat) ^ k dvd 2 ^ LENGTH('a)"
    using assms by (simp add: le_imp_power_dvd)
  then show ?thesis
    by (simp add: unat_word_ariths mod_mod_cancel)
qed

end
