(* ===== verification/Bitops.thy ===== *)
theory Bitops
  imports Prelude
begin

text \<open>
  The find-last-set family of \<open>x86/asm/bitops.h\<close>, \<open>asm-generic/bitops\<close> and
  \<open>linux/bitops.h\<close>. The target compiles the x86 variant, whose body is the \<open>bsrl\<close>
  instruction; the generic header gives the portable binary search. Both are modelled and
  shown equal, and both are characterised by the powers of two around the operand. Shifts
  whose count reaches the width of the operand are undefined in C and fault here.
\<close>

section \<open>Definitions\<close>

text \<open>The \<open>bsrl\<close> instruction: the index of the most significant set bit of a nonzero operand.\<close>

fun top_bit :: "nat \<Rightarrow> u32 \<Rightarrow> nat" where
  "top_bit 0 x = 0"
| "top_bit (Suc i) x = (if bit x (Suc i) then Suc i else top_bit i x)"

definition bsrl :: "u32 \<Rightarrow> int" where
  "bsrl x = int (top_bit 31 x)"

text \<open>\<open>fls\<close> of \<open>x86/asm/bitops.h\<close>: \<open>bsrl\<close> sets the zero flag on a zero operand, and the
  conditional move (or jump) then loads -1.\<close>

definition fls :: "u32 \<Rightarrow> int" where
  "fls x = (let r = (if x = 0 then -1 else bsrl x) in r + 1)"

text \<open>\<open>fls\<close> of \<open>asm-generic/bitops/fls.h\<close>.\<close>

definition fls_generic_step :: "u32 \<Rightarrow> nat \<Rightarrow> u32 \<times> int \<Rightarrow> u32 \<times> int" where
  "fls_generic_step m k xr =
     (case xr of (x, r) \<Rightarrow> if x AND m = 0 then (push_bit k x, r - int k) else (x, r))"

definition fls_generic :: "u32 \<Rightarrow> int" where
  "fls_generic x =
     (if x = 0 then 0
      else let xr = fls_generic_step 0xffff0000 16 (x, 32);
               xr = fls_generic_step 0xff000000 8 xr;
               xr = fls_generic_step 0xf0000000 4 xr;
               xr = fls_generic_step 0xc0000000 2 xr;
               xr = fls_generic_step 0x80000000 1 xr
           in snd xr)"

definition fls64 :: "u64 \<Rightarrow> int" where
  "fls64 x = (let h = (ucast (drop_bit 32 x) :: u32)
              in if h \<noteq> 0 then fls h + 32 else fls (ucast x))"

definition fls_long :: "u32 \<Rightarrow> int" where
  "fls_long l = fls l"

definition get_count_order :: "u32 \<Rightarrow> int" where
  "get_count_order count =
     (let order = fls count - 1
      in if count AND (count - 1) \<noteq> 0 then order + 1 else order)"

definition get_count_order_long :: "u32 \<Rightarrow> int" where
  "get_count_order_long l =
     (if l = 0 then -1
      else if l AND (l - 1) \<noteq> 0 then fls_long l
      else fls_long l - 1)"

text \<open>\<open>x << n\<close> on \<open>unsigned long\<close>.\<close>

definition shl_long :: "u32 \<Rightarrow> int \<Rightarrow> u32 option" where
  "shl_long x n = (if 0 \<le> n \<and> n < 32 then Some (push_bit (nat n) x) else None)"

section \<open>The most significant bit\<close>

lemma bit_top_iff:
  fixes x :: "'a::len word"
  assumes "unat x < 2 ^ Suc i"
  shows "bit x i \<longleftrightarrow> 2 ^ i \<le> unat x"
proof (cases "2 ^ i \<le> unat x")
  case True
  moreover from True assms have "unat x div 2 ^ i = 1"
    by (simp add: div_nat_eqI)
  ultimately show ?thesis by (simp add: bit_unat_iff)
next
  case False
  then show ?thesis by (simp add: bit_unat_iff)
qed

lemma top_bit_bounds:
  assumes "x \<noteq> 0" "unat x < 2 ^ Suc n"
  shows "2 ^ top_bit n x \<le> unat x \<and> unat x < 2 ^ Suc (top_bit n x)"
  using assms
proof (induction n)
  case 0
  then have "0 < unat x" by (simp add: unat_gt_0)
  with 0 show ?case by simp
next
  case (Suc n)
  show ?case
  proof (cases "bit x (Suc n)")
    case True
    with Suc.prems bit_top_iff [of x "Suc n"] show ?thesis by simp
  next
    case False
    with Suc.prems bit_top_iff [of x "Suc n"] have "unat x < 2 ^ Suc n" by simp
    with False Suc show ?thesis by simp
  qed
qed

lemma pow2_bounds_unique:
  fixes m :: nat
  assumes "2 ^ a \<le> m" "m < 2 ^ Suc a" "2 ^ b \<le> m" "m < 2 ^ Suc b"
  shows "a = b"
proof -
  have "(2::nat) ^ a < 2 ^ Suc b" "(2::nat) ^ b < 2 ^ Suc a"
    using assms by linarith+
  then have "a < Suc b" "b < Suc a"
    by (simp_all only: power_strict_increasing_iff one_less_numeral_iff semiring_norm)
  then show ?thesis by simp
qed

text \<open>The characterisation every later fact uses: \<open>fls\<close> is one more than the binary
  logarithm.\<close>

lemma fls_0 [simp]: "fls 0 = 0"
  by (simp add: fls_def)

lemma fls_bounds:
  assumes "x \<noteq> 0"
  shows "\<exists>k. fls x = int k + 1 \<and> k < 32 \<and> 2 ^ k \<le> unat x \<and> unat x < 2 ^ Suc k"
proof -
  define k where "k = top_bit 31 x"
  have x: "unat x < 2 ^ Suc 31" using unat_less_word [of x] by simp
  have k: "2 ^ k \<le> unat x" "unat x < 2 ^ Suc k"
    using top_bit_bounds [OF assms x] by (auto simp: k_def)
  from k(1) x have "(2::nat) ^ k < 2 ^ Suc 31" by linarith
  then have "k < 32" by (simp only: power_strict_increasing_iff one_less_numeral_iff semiring_norm)
  with k assms show ?thesis by (auto simp: fls_def bsrl_def k_def)
qed

lemma fls_eqI:
  assumes "2 ^ k \<le> unat x" "unat x < 2 ^ Suc k"
  shows "fls x = int k + 1"
proof -
  have "x \<noteq> 0" using assms by auto
  then obtain j where "fls x = int j + 1" "2 ^ j \<le> unat x" "unat x < 2 ^ Suc j"
    using fls_bounds by blast
  with assms show ?thesis using pow2_bounds_unique by metis
qed

lemma fls_range: "0 \<le> fls x" "fls x \<le> 32"
  using fls_bounds [of x] by (cases "x = 0"; auto)+

lemma fls_less_iff: "fls x \<le> int k \<longleftrightarrow> unat x < 2 ^ k"
proof (cases "x = 0")
  case False
  then obtain j where j: "fls x = int j + 1" "2 ^ j \<le> unat x" "unat x < 2 ^ Suc j"
    using fls_bounds by blast
  show ?thesis
  proof
    assume "fls x \<le> int k"
    with j have "Suc j \<le> k" by simp
    then have "(2::nat) ^ Suc j \<le> 2 ^ k" by (rule power_increasing) simp
    with j show "unat x < 2 ^ k" by linarith
  next
    assume "unat x < 2 ^ k"
    with j have "(2::nat) ^ j < 2 ^ k" by linarith
    then have "j < k" by (simp only: power_strict_increasing_iff one_less_numeral_iff semiring_norm)
    with j show "fls x \<le> int k" by simp
  qed
qed simp

section \<open>The generic binary search computes the same function\<close>

lemma fls_push_bit:
  assumes "x \<noteq> 0" "unat x < 2 ^ (32 - k)" "k < 32"
  shows "fls (push_bit k x) = fls x + int k"
proof -
  obtain j where j: "fls x = int j + 1" "2 ^ j \<le> unat x" "unat x < 2 ^ Suc j"
    using fls_bounds assms(1) by blast
  have "unat x * 2 ^ k < 2 ^ (32 - k) * 2 ^ k" using assms(2) by simp
  then have "unat x * 2 ^ k < 2 ^ 32" using assms(3) by (simp flip: power_add)
  then have u: "unat (push_bit k x) = unat x * 2 ^ k"
    by (intro unat_push_bit_no_wrap) simp
  have "2 ^ (j + k) \<le> unat (push_bit k x)" "unat (push_bit k x) < 2 ^ Suc (j + k)"
    using j u by (simp_all add: power_add)
  then have "fls (push_bit k x) = int (j + k) + 1" by (rule fls_eqI)
  with j show ?thesis by simp
qed

text \<open>
  One step tests whether the value fits below the top \<open>k\<close> bits and shifts it up if so. It
  keeps \<open>fls x + r\<close> and doubles the precision to which the top bit is known.
\<close>

lemma fls_generic_step:
  assumes "x \<noteq> 0" "k < 32" "m = NOT (mask (32 - k))" "32 - 2 * int k < fls x"
    and "fls_generic_step m k (x, r) = (x', r')"
  shows "x' \<noteq> 0 \<and> fls x' + r' = fls x + r \<and> 32 - int k < fls x'"
proof -
  have test: "x AND m = 0 \<longleftrightarrow> unat x < 2 ^ (32 - k)"
    by (simp add: assms(3) and_not_zero_iff take_bit_self_iff flip: take_bit_eq_mask)
  show ?thesis
  proof (cases "x AND m = 0")
    case True
    with assms test have s: "x' = push_bit k x" "r' = r - int k"
      and "fls (push_bit k x) = fls x + int k"
      by (auto simp: fls_generic_step_def fls_push_bit)
    moreover from this assms(4) have "x' \<noteq> 0" using fls_range(1) [of x] by auto
    ultimately show ?thesis using assms(4) by simp
  next
    case False
    with test have "\<not> fls x \<le> int (32 - k)" by (simp add: fls_less_iff)
    with False assms show ?thesis by (auto simp: fls_generic_step_def)
  qed
qed

lemma fls_generic_eq_fls: "fls_generic x = fls x"
proof (cases "x = 0")
  case False
  obtain x1 r1 where s1: "fls_generic_step 0xffff0000 16 (x, 32) = (x1, r1)" by fastforce
  obtain x2 r2 where s2: "fls_generic_step 0xff000000 8 (x1, r1) = (x2, r2)" by fastforce
  obtain x3 r3 where s3: "fls_generic_step 0xf0000000 4 (x2, r2) = (x3, r3)" by fastforce
  obtain x4 r4 where s4: "fls_generic_step 0xc0000000 2 (x3, r3) = (x4, r4)" by fastforce
  obtain x5 r5 where s5: "fls_generic_step 0x80000000 1 (x4, r4) = (x5, r5)" by fastforce
  have "0 < fls x" using fls_bounds [OF False] by auto
  note e1 = fls_generic_step [OF False _ _ _ s1] and masks = mask_eq_exp_minus_1
  have 1: "x1 \<noteq> 0 \<and> fls x1 + r1 = fls x + 32 \<and> 16 < fls x1"
    using e1 \<open>0 < fls x\<close> by (simp add: masks)
  have 2: "x2 \<noteq> 0 \<and> fls x2 + r2 = fls x + 32 \<and> 24 < fls x2"
    using fls_generic_step [OF _ _ _ _ s2] 1 by (simp add: masks)
  have 3: "x3 \<noteq> 0 \<and> fls x3 + r3 = fls x + 32 \<and> 28 < fls x3"
    using fls_generic_step [OF _ _ _ _ s3] 2 by (simp add: masks)
  have 4: "x4 \<noteq> 0 \<and> fls x4 + r4 = fls x + 32 \<and> 30 < fls x4"
    using fls_generic_step [OF _ _ _ _ s4] 3 by (simp add: masks)
  have 5: "x5 \<noteq> 0 \<and> fls x5 + r5 = fls x + 32 \<and> 31 < fls x5"
    using fls_generic_step [OF _ _ _ _ s5] 4 by (simp add: masks)
  with fls_range(2) [of x5] have "r5 = fls x" by simp
  with False s1 s2 s3 s4 s5 show ?thesis by (simp add: fls_generic_def)
qed (simp add: fls_generic_def)

section \<open>Long and 64-bit variants\<close>

lemma fls_long_less_iff: "fls_long x \<le> int k \<longleftrightarrow> unat x < 2 ^ k"
  by (simp add: fls_long_def fls_less_iff)

lemma fls64_less_iff: "fls64 x \<le> int k \<longleftrightarrow> unat x < 2 ^ k"
proof -
  define h where "h = (ucast (drop_bit 32 x) :: u32)"
  define l where "l = (ucast x :: u32)"
  have x: "unat x < 2 ^ 64" using unsigned_less [of x, where ?'a = nat] by simp
  have h: "unat h = unat x div 2 ^ 32" 
    using x by (simp add: h_def unat_ucast_mod unat_drop_bit_div div_less_iff_less_mult)
  have l: "unat l = unat x mod 2 ^ 32" by (simp add: l_def unat_ucast_mod)
  show ?thesis
  proof (cases "h = 0")
    case True
    with h have "unat x < 2 ^ 32" by (simp add: unat_eq_0 [symmetric] div_eq_0_iff)
    with True l show ?thesis by (simp add: fls64_def fls_less_iff flip: h_def l_def)
  next
    case False
    have pow: "32 \<le> k \<Longrightarrow> (2::nat) ^ k = 2 ^ (k - 32) * 2 ^ 32"
      by (metis le_add_diff_inverse2 power_add)
    have "fls h + 32 \<le> int k \<longleftrightarrow> 32 \<le> k \<and> fls h \<le> int (k - 32)"
      using fls_range(1) [of h] by auto
    also have "\<dots> \<longleftrightarrow> 32 \<le> k \<and> unat x div 2 ^ 32 < 2 ^ (k - 32)"
      by (simp add: fls_less_iff h)
    also have "\<dots> \<longleftrightarrow> 32 \<le> k \<and> unat x < 2 ^ k"
      by (auto simp: div_less_iff_less_mult pow)
    also have "\<dots> \<longleftrightarrow> unat x < 2 ^ k"
    proof -
      have "2 ^ 32 \<le> unat x" using False h
        by (metis div_less linorder_not_less unat_eq_zero)
      then have "unat x < 2 ^ k \<Longrightarrow> (2::nat) ^ 32 < 2 ^ k" by linarith
      then show ?thesis
        by (auto simp only: power_strict_increasing_iff one_less_numeral_iff semiring_norm)
          simp
    qed
    finally show ?thesis using False by (simp add: fls64_def flip: h_def)
  qed
qed

end
