(* ===== verification/Bit_Rotate.thy ===== *)
theory Bit_Rotate
  imports Bitops
begin

text \<open>
  The rotations, sign extensions, masks and searches of \<open>linux/bitops.h\<close>. C leaves a shift by
  the width of its operand undefined, which faults here: the 32-bit rotation to the left
  masks its second count and is defined for every count below 32, while the other wide
  rotations are not defined for the count zero. The 16- and 8-bit rotations shift an \<open>int\<close>
  and are. Where they are defined, rotations are those of the word library and undo each
  other.
\<close>

section \<open>Definitions\<close>

definition shl :: "'a::len word \<Rightarrow> u32 \<Rightarrow> 'a word option" where
  "shl x n = (if unat n < LENGTH('a) then Some (push_bit (unat n) x) else None)"

definition shr :: "'a::len word \<Rightarrow> u32 \<Rightarrow> 'a word option" where
  "shr x n = (if unat n < LENGTH('a) then Some (drop_bit (unat n) x) else None)"

definition rol64 :: "u64 \<Rightarrow> u32 \<Rightarrow> u64 option" where
  "rol64 w shift = do { a \<leftarrow> shl w shift; b \<leftarrow> shr w (64 - shift); Some (a OR b) }"

definition ror64 :: "u64 \<Rightarrow> u32 \<Rightarrow> u64 option" where
  "ror64 w shift = do { a \<leftarrow> shr w shift; b \<leftarrow> shl w (64 - shift); Some (a OR b) }"

definition rol32 :: "u32 \<Rightarrow> u32 \<Rightarrow> u32 option" where
  "rol32 w shift = do { a \<leftarrow> shl w shift; b \<leftarrow> shr w ((- shift) AND 31); Some (a OR b) }"

definition ror32 :: "u32 \<Rightarrow> u32 \<Rightarrow> u32 option" where
  "ror32 w shift = do { a \<leftarrow> shr w shift; b \<leftarrow> shl w (32 - shift); Some (a OR b) }"

text \<open>The narrow operands are promoted to \<open>int\<close>, 32 bits wide and nonnegative, and the result
  is cut to the return type.\<close>

definition rol16 :: "u16 \<Rightarrow> u32 \<Rightarrow> u16 option" where
  "rol16 w shift =
     do { a \<leftarrow> shl (ucast w :: u32) shift; b \<leftarrow> shr (ucast w :: u32) (16 - shift);
          Some (ucast (a OR b)) }"

definition ror16 :: "u16 \<Rightarrow> u32 \<Rightarrow> u16 option" where
  "ror16 w shift =
     do { a \<leftarrow> shr (ucast w :: u32) shift; b \<leftarrow> shl (ucast w :: u32) (16 - shift);
          Some (ucast (a OR b)) }"

definition rol8 :: "u8 \<Rightarrow> u32 \<Rightarrow> u8 option" where
  "rol8 w shift =
     do { a \<leftarrow> shl (ucast w :: u32) shift; b \<leftarrow> shr (ucast w :: u32) (8 - shift);
          Some (ucast (a OR b)) }"

definition ror8 :: "u8 \<Rightarrow> u32 \<Rightarrow> u8 option" where
  "ror8 w shift =
     do { a \<leftarrow> shr (ucast w :: u32) shift; b \<leftarrow> shl (ucast w :: u32) (8 - shift);
          Some (ucast (a OR b)) }"

text \<open>The count is an \<open>__u8\<close>, and the shift to the right of a signed value copies its sign.\<close>

definition sign_extend32 :: "u32 \<Rightarrow> int \<Rightarrow> int option" where
  "sign_extend32 value index =
     (let shift = (word_of_int (31 - index) :: u8)
      in do { a \<leftarrow> shl value (ucast shift); Some (sint a div 2 ^ unat shift) })"

definition sign_extend64 :: "u64 \<Rightarrow> int \<Rightarrow> int option" where
  "sign_extend64 value index =
     (let shift = (word_of_int (63 - index) :: u8)
      in do { a \<leftarrow> shl value (ucast shift); Some (sint a div 2 ^ unat shift) })"

definition BIT :: "u32 \<Rightarrow> u32 option" where "BIT nr = shl 1 nr"

definition BIT_MASK :: "u32 \<Rightarrow> u32 option" where "BIT_MASK nr = shl 1 (nr mod 32)"

definition BIT_WORD :: "u32 \<Rightarrow> u32" where "BIT_WORD nr = nr div 32"

definition GENMASK :: "u32 \<Rightarrow> u32 \<Rightarrow> u32 option" where
  "GENMASK h l =
     do { a \<leftarrow> shl (NOT 0) l; b \<leftarrow> shr (NOT 0) (32 - 1 - h); Some (a AND b) }"

definition GENMASK_ULL :: "u32 \<Rightarrow> u32 \<Rightarrow> u64 option" where
  "GENMASK_ULL h l =
     do { a \<leftarrow> shl (NOT 0) l; b \<leftarrow> shr (NOT 0) (64 - 1 - h); Some (a AND b) }"

definition get_bitmask_order :: "u32 \<Rightarrow> int" where "get_bitmask_order count = fls count"

text \<open>The \<open>bsf\<close> instruction finds the least significant set bit; its result on zero is
  undefined.\<close>

fun low_bit :: "nat \<Rightarrow> u32 \<Rightarrow> nat" where
  "low_bit 0 x = 0"
| "low_bit (Suc n) x = (if bit x 0 then 0 else Suc (low_bit n (drop_bit 1 x)))"

definition ffs_word :: "u32 \<Rightarrow> u32 option" where
  "ffs_word x = (if x = 0 then None else Some (of_nat (low_bit 31 x)))"

definition ffs64 :: "u64 \<Rightarrow> u32 option" where
  "ffs64 x =
     (if (ucast x :: u32) = 0 then do { r \<leftarrow> ffs_word (ucast (drop_bit 32 x)); Some (r + 32) }
      else ffs_word (ucast x))"

section \<open>Shifts and rotations\<close>

lemma shift_count: "unat (n :: u32) \<le> k \<Longrightarrow> k \<le> 64 \<Longrightarrow> unat (of_nat k - n) = k - unat n"
  by (subst unat_sub_no_wrap) (auto simp: unat_of_nat take_bit_nat_eq_self)

lemmas shift_counts =
  shift_count [of _ 64, simplified] shift_count [of _ 32, simplified]
  shift_count [of _ 16, simplified] shift_count [of _ 8, simplified]

lemma masked_count:
  assumes "unat (n :: u32) < 32" "0 < unat n"
  shows "unat ((- n) AND 31) = 32 - unat n"
proof -
  have "(- n) AND 31 = take_bit 5 (- n)" by (simp add: take_bit_eq_mask mask_eq_exp_minus_1)
  moreover have "uint (take_bit 5 (- n)) = (- uint n) mod 32"
    by (simp only: unsigned_take_bit_eq uint_word_arith_bintrs(4) take_bit_take_bit)
      (simp add: take_bit_eq_mod)
  moreover have "(- uint n) mod 32 = 32 - uint n"
  proof -
    have "0 < uint n" "uint n < 32" using assms by (simp_all flip: nat_uint_eq)
    moreover from this have "uint n mod 32 = uint n" by simp
    ultimately show ?thesis by (simp add: zmod_zminus1_eq_if)
  qed
  ultimately have "int (unat ((- n) AND 31)) = int (32 - unat n)"
    using assms by (simp add: of_nat_diff)
  then show ?thesis by (simp only: of_nat_eq_iff)
qed

lemma rot_index:
  assumes "n < l" "k < (l :: nat)"
  shows "(k + l - n) mod l = (if k < n then k + l - n else k - n)"
    and "(k + n) mod l = (if k + n < l then k + n else k + n - l)"
proof -
  show "(k + l - n) mod l = (if k < n then k + l - n else k - n)"
  proof (cases "k < n")
    case False
    then have "k + l - n = k - n + l" by simp
    with False assms show ?thesis by (simp only: mod_add_self2) simp
  qed (use assms in simp)
  show "(k + n) mod l = (if k + n < l then k + n else k + n - l)"
    using assms by (simp add: mod_if)
qed

lemma rotl_parts:
  fixes w :: "'a::len word"
  assumes "0 < n" "n < LENGTH('a)"
  shows "push_bit n w OR drop_bit (LENGTH('a) - n) w = word_rotl n w"
proof (rule bit_word_eqI)
  fix k assume "k < LENGTH('a)"
  with assms show "bit (push_bit n w OR drop_bit (LENGTH('a) - n) w) k = bit (word_rotl n w) k"
    by (auto simp: bit_word_rotl_iff bit_or_iff bit_push_bit_iff bit_drop_bit_eq rot_index(1)
        add.commute dest: bit_imp_le_length)
qed

lemma rotr_parts:
  fixes w :: "'a::len word"
  assumes "0 < n" "n < LENGTH('a)"
  shows "drop_bit n w OR push_bit (LENGTH('a) - n) w = word_rotr n w"
proof (rule bit_word_eqI)
  fix k assume "k < LENGTH('a)"
  with assms show "bit (drop_bit n w OR push_bit (LENGTH('a) - n) w) k = bit (word_rotr n w) k"
    by (auto simp: bit_word_rotr_iff bit_or_iff bit_push_bit_iff bit_drop_bit_eq rot_index(2)
        add.commute dest: bit_imp_le_length)
qed

lemma narrow_rotl_parts:
  fixes w :: "'a::len word"
  assumes "n < LENGTH('a)" "LENGTH('a) \<le> 32"
  shows "ucast (push_bit n (ucast w :: u32) OR drop_bit (LENGTH('a) - n) (ucast w :: u32)) = word_rotl n w"
proof (rule bit_word_eqI)
  fix k assume "k < LENGTH('a)"
  with assms show "bit (ucast (push_bit n (ucast w :: u32) OR drop_bit (LENGTH('a) - n) (ucast w :: u32)) :: 'a word) k
      = bit (word_rotl n w) k"
    by (auto simp: bit_word_rotl_iff bit_unsigned_iff bit_or_iff bit_push_bit_iff bit_drop_bit_eq
        rot_index(1) add.commute dest: bit_imp_le_length)
qed

lemma narrow_rotr_parts:
  fixes w :: "'a::len word"
  assumes "n < LENGTH('a)" "LENGTH('a) \<le> 32"
  shows "ucast (drop_bit n (ucast w :: u32) OR push_bit (LENGTH('a) - n) (ucast w :: u32)) = word_rotr n w"
proof (rule bit_word_eqI)
  fix k assume "k < LENGTH('a)"
  with assms show "bit (ucast (drop_bit n (ucast w :: u32) OR push_bit (LENGTH('a) - n) (ucast w :: u32)) :: 'a word) k
      = bit (word_rotr n w) k"
    by (auto simp: bit_word_rotr_iff bit_unsigned_iff bit_or_iff bit_push_bit_iff bit_drop_bit_eq
        rot_index(2) add.commute dest: bit_imp_le_length)
qed

text \<open>Where the rotations are defined.\<close>

lemma wide_rotations:
  assumes "0 < unat s"
  shows "unat s < 64 \<Longrightarrow> rol64 v s = Some (word_rotl (unat s) v)"
    and "unat s < 64 \<Longrightarrow> ror64 v s = Some (word_rotr (unat s) v)"
    and "unat s < 32 \<Longrightarrow> ror32 w s = Some (word_rotr (unat s) w)"
  using assms rotl_parts [of "unat s" v] rotr_parts [of "unat s" v] rotr_parts [of "unat s" w]
  by (simp_all add: rol64_def ror64_def ror32_def shl_def shr_def shift_counts)

lemma rol32_rotates: "unat s < 32 \<Longrightarrow> rol32 w s = Some (word_rotl (unat s) w)"
proof (cases "s = 0")
  case True
  have "word_rotl 0 w = w" by (rule bit_word_eqI) (simp add: bit_word_rotl_iff)
  with True show ?thesis by (simp add: rol32_def shl_def shr_def)
next
  case False
  then have "0 < unat s" by (simp add: unat_gt_0)
  moreover assume "unat s < 32"
  ultimately show ?thesis
    using rotl_parts [of "unat s" w] masked_count [of s] by (simp add: rol32_def shl_def shr_def)
qed

lemma narrow_rotations:
  shows "unat s < 16 \<Longrightarrow> rol16 x s = Some (word_rotl (unat s) x)"
    and "unat s < 16 \<Longrightarrow> ror16 x s = Some (word_rotr (unat s) x)"
    and "unat s < 8 \<Longrightarrow> rol8 y s = Some (word_rotl (unat s) y)"
    and "unat s < 8 \<Longrightarrow> ror8 y s = Some (word_rotr (unat s) y)"
  using narrow_rotl_parts [of "unat s" x] narrow_rotr_parts [of "unat s" x]
    narrow_rotl_parts [of "unat s" y] narrow_rotr_parts [of "unat s" y]
  by (simp_all add: rol16_def ror16_def rol8_def ror8_def shl_def shr_def shift_counts)

lemma rotation_by_zero:
  "rol64 v 0 = None" "ror64 v 0 = None" "ror32 w 0 = None" "rol32 w 0 = Some w"
  by (simp_all add: rol64_def ror64_def ror32_def rol32_def shl_def shr_def)

section \<open>Sign extension and masks\<close>

lemma sint_shift_back:
  fixes v :: "'a::len word"
  assumes "i < LENGTH('a)"
  shows "sint (push_bit (LENGTH('a) - Suc i) v) div 2 ^ (LENGTH('a) - Suc i) = signed_take_bit i (uint v)"
proof (rule bit_eqI)
  fix k
  show "bit (sint (push_bit (LENGTH('a) - Suc i) v) div 2 ^ (LENGTH('a) - Suc i)) k =
      bit (signed_take_bit i (uint v)) k"
    using assms
    by (auto simp: drop_bit_eq_div [symmetric] bit_drop_bit_eq bit_sint_iff bit_signed_take_bit_iff
        bit_push_bit_iff bit_uint_iff min_def not_le le_antisym Suc_le_eq not_less_eq_eq
        dest: le_antisym split: if_splits)
qed

lemma sign_extend_result:
  assumes "0 \<le> i"
  shows "i < 32 \<Longrightarrow> sign_extend32 w i = Some (signed_take_bit (nat i) (uint w))"
    and "i < 64 \<Longrightarrow> sign_extend64 v i = Some (signed_take_bit (nat i) (uint v))"
proof -
  have c: "unat (word_of_int (k - i) :: u8) = nat (k - i)" if "i \<le> k" "k < 64" for k
    using that assms by (simp only: unsigned_of_int) (simp add: take_bit_int_eq_self)
  show "sign_extend32 w i = Some (signed_take_bit (nat i) (uint w))" if "i < 32"
  proof -
    have "nat (31 - i) = 32 - Suc (nat i)" using assms that by simp
    then show ?thesis
      using sint_shift_back [of "nat i" w] c [of 31] assms that
      by (simp add: sign_extend32_def shl_def unat_ucast_mod del: of_int_diff)
  qed
  show "sign_extend64 v i = Some (signed_take_bit (nat i) (uint v))" if "i < 64"
  proof -
    have "nat (63 - i) = 64 - Suc (nat i)" using assms that by simp
    then show ?thesis
      using sint_shift_back [of "nat i" v] c [of 63] assms that
      by (simp add: sign_extend64_def shl_def unat_ucast_mod del: of_int_diff)
  qed
qed

lemma GENMASK_bits:
  assumes "unat l < 32" "unat h < 32"
  obtains m where "GENMASK h l = Some m" "\<And>i. bit m i \<longleftrightarrow> unat l \<le> i \<and> i \<le> unat h"
proof -
  have "unat (31 - h) = 31 - unat h" using assms shift_count [of h 31] by simp
  then show thesis
    using assms by (intro that) (auto simp: GENMASK_def shl_def shr_def bit_simps)
qed

section \<open>The first set bit\<close>

lemma low_bit_least:
  assumes "bit x k" "k \<le> n"
  shows "bit x (low_bit n x) \<and> low_bit n x \<le> k \<and> (\<forall>j < low_bit n x. \<not> bit x j)"
  using assms
proof (induction n arbitrary: x k)
  case (Suc n)
  show ?case
  proof (cases "bit x 0")
    case False
    with Suc.prems obtain k' where k: "k = Suc k'" by (cases k) auto
    let ?m = "low_bit n (drop_bit 1 x)"
    have "bit (drop_bit 1 x) k'" using Suc.prems k by (simp add: bit_drop_bit_eq)
    with Suc.IH [of "drop_bit 1 x" k'] Suc.prems k
    have m: "bit x (Suc ?m)" "?m \<le> k'" "\<And>j. j < ?m \<Longrightarrow> \<not> bit x (Suc j)"
      by (simp_all add: bit_drop_bit_eq)
    have "\<not> bit x j" if "j < Suc ?m" for j using that m(3) False by (cases j) auto
    with m(1,2) False k show ?thesis by simp
  qed simp
qed simp

lemma ffs_word_first:
  assumes "bit (x :: u32) k"
  obtains i where "ffs_word x = Some i" "bit x (unat i)" "unat i \<le> k" "\<And>j. j < unat i \<Longrightarrow> \<not> bit x j"
proof -
  have k: "k < 32" using assms by (auto dest: bit_imp_le_length)
  from low_bit_least [OF assms, of 31] k have l: "bit x (low_bit 31 x)" "low_bit 31 x \<le> k"
    "\<And>j. j < low_bit 31 x \<Longrightarrow> \<not> bit x j" by auto
  have u: "unat (of_nat (low_bit 31 x) :: u32) = low_bit 31 x"
    using l(2) k by (simp add: unat_of_nat take_bit_nat_eq_self del: low_bit.simps)
  have "x \<noteq> 0" using assms by auto
  with l u show thesis by (intro that [of "of_nat (low_bit 31 x)"]) (simp_all add: ffs_word_def)
qed

lemma ffs64_first:
  assumes "bit (x :: u64) k"
  obtains i where "ffs64 x = Some i" "bit x (unat i)" "\<And>j. j < unat i \<Longrightarrow> \<not> bit x j"
proof (cases "(ucast x :: u32) = 0")
  case True
  then have low: "\<not> bit x j" if "j < 32" for j
    using that True bit_ucast_iff [where a = x and n = j and 'a = 32] by simp
  with assms have "bit (ucast (drop_bit 32 x) :: u32) (k - 32)"
    by (cases "k < 32") (auto simp: bit_ucast_iff bit_drop_bit_eq dest: bit_imp_le_length)
  then obtain i where i: "ffs_word (ucast (drop_bit 32 x)) = Some i"
    "bit (ucast (drop_bit 32 x) :: u32) (unat i)"
    "\<And>j. j < unat i \<Longrightarrow> \<not> bit (ucast (drop_bit 32 x) :: u32) j"
    by (rule ffs_word_first) blast
  from i(2) have "unat i < 32" by (auto dest: bit_imp_le_length)
  then have u: "unat (i + 32) = unat i + 32" by (subst unat_add_no_wrap) simp_all
  show thesis
  proof (rule that [of "i + 32"])
    show "ffs64 x = Some (i + 32)" using True i(1) by (simp add: ffs64_def)
    show "bit x (unat (i + 32))" using i(2) by (simp add: u bit_ucast_iff bit_drop_bit_eq add.commute)
    show "\<not> bit x j" if "j < unat (i + 32)" for j
      using that low [of j] i(3) [of "j - 32"] \<open>unat i < 32\<close>
      by (cases "j < 32") (simp_all add: u bit_ucast_iff bit_drop_bit_eq)
  qed
next
  case False
  then obtain k' where "bit (ucast x :: u32) k'" by (metis bit_eq_iff bit_0_eq bot_apply bot_bool_def)
  then obtain i where i: "ffs_word (ucast x) = Some i" "bit (ucast x :: u32) (unat i)"
    "\<And>j. j < unat i \<Longrightarrow> \<not> bit (ucast x :: u32) j"
    by (rule ffs_word_first) blast
  from i(2) have "unat i < 32" by (auto dest: bit_imp_le_length)
  with i False show thesis by (intro that [of i]) (simp_all add: ffs64_def bit_ucast_iff)
qed

end
