(* ===== verification/Ring.thy ===== *)
theory Ring
  imports Prelude
begin

text \<open>
  Circular byte storage, independent of any C code: \<open>ring_read d N p n\<close> is the sequence of
  \<open>n\<close> items that starts at position \<open>p\<close> of the first \<open>N\<close> items of \<open>d\<close> and wraps at
  \<open>N\<close>; \<open>ring_write d N p bs\<close> stores \<open>bs\<close> there in the two pieces a block copy uses. The
  facts below are what the fifo theories need: writing behind a sequence extends it, and
  skipping items of a sequence drops them.
\<close>

definition ring_read :: "'a list \<Rightarrow> nat \<Rightarrow> nat \<Rightarrow> nat \<Rightarrow> 'a list" where
  "ring_read d N p n = map (\<lambda>i. d ! ((p + i) mod N)) [0..<n]"

definition ring_write :: "'a list \<Rightarrow> nat \<Rightarrow> nat \<Rightarrow> 'a list \<Rightarrow> 'a list" where
  "ring_write d N p bs =
     (let l = min (length bs) (N - p); d' = take p d @ take l bs @ drop (p + l) d
      in drop l bs @ drop (length bs - l) d')"

lemma length_ring_read [simp]: "length (ring_read d N p n) = n"
  by (simp add: ring_read_def)

lemma ring_read_0 [simp]: "ring_read d N p 0 = []"
  by (simp add: ring_read_def)

lemma nth_ring_read [simp]: "i < n \<Longrightarrow> ring_read d N p n ! i = d ! ((p + i) mod N)"
  by (simp add: ring_read_def)

lemma ring_read_append:
  "ring_read d N p (n + m) = ring_read d N p n @ ring_read d N ((p + n) mod N) m"
proof (rule nth_equalityI)
  fix i assume "i < length (ring_read d N p (n + m))"
  then have i: "i < n + m" by simp
  show "ring_read d N p (n + m) ! i =
    (ring_read d N p n @ ring_read d N ((p + n) mod N) m) ! i"
  proof (cases "i < n")
    case True
    with i show ?thesis by (simp add: nth_append)
  next
    case False
    then have "p + n + (i - n) = p + i" by simp
    then have "((p + n) mod N + (i - n)) mod N = (p + i) mod N"
      by (metis mod_add_left_eq)
    with False i show ?thesis by (simp add: nth_append less_diff_conv2)
  qed
qed simp

lemma drop_ring_read: "drop k (ring_read d N p n) = ring_read d N ((p + k) mod N) (n - k)"
  by (rule nth_equalityI) (auto simp: mod_add_left_eq add.assoc)

lemma take_ring_read: "take k (ring_read d N p n) = ring_read d N p (min k n)"
  by (rule nth_equalityI) auto

lemma ring_read_mod: "ring_read d N (p mod N) n = ring_read d N p n"
  by (rule nth_equalityI) (auto simp: mod_add_left_eq)

lemma ring_pos:
  fixes p i N :: nat
  assumes "p < N" "i < N"
  shows "(p + i) mod N = (if p + i < N then p + i else p + i - N)"
  using assms by (cases "p + i < N") (simp_all add: le_mod_geq)

lemma ring_dist:
  fixes p j N :: nat
  assumes "p < N" "j < N"
  shows "(j + N - p) mod N = (if p \<le> j then j - p else j + N - p)"
proof (cases "p \<le> j")
  case True
  with assms have "j + N - p = (j - p) + N" by arith
  with True assms show ?thesis by (simp only: mod_add_self2) simp
next
  case False
  with assms show ?thesis by simp
qed

text \<open>The two block loads of a wrapping copy give the circular sequence.\<close>

lemma ring_read_two_parts:
  assumes "p < N" "n \<le> N" "N \<le> length d"
  shows "take (min n (N - p)) (drop p d) @ take (n - min n (N - p)) d = ring_read d N p n"
    (is "?l = ?r")
proof (rule nth_equalityI)
  show "length ?l = length ?r" using assms by (cases "n \<le> N - p") simp_all
  fix i assume "i < length ?l"
  with assms have i: "i < n" by (cases "n \<le> N - p") simp_all
  show "?l ! i = ?r ! i"
  proof (cases "i < N - p")
    case True
    with i assms show ?thesis by (simp add: nth_append ring_pos)
  next
    case False
    with i assms have "\<not> p + i < N" "min n (N - p) = N - p" "p + i - N = i - (N - p)"
      "i - (N - p) < n - (N - p)" "length d - p \<ge> N - p" by auto
    with False i assms show ?thesis by (simp add: nth_append ring_pos)
  qed
qed

lemma length_ring_write [simp]:
  assumes "p < N" "length bs \<le> N" "N \<le> length d"
  shows "length (ring_write d N p bs) = length d"
  using assms by (auto simp: ring_write_def Let_def min_def)

lemma nth_ring_write:
  assumes "p < N" "length bs \<le> N" "N \<le> length d" "j < N"
  shows "ring_write d N p bs ! j =
    (if (j + N - p) mod N < length bs then bs ! ((j + N - p) mod N) else d ! j)"
proof (cases "length bs \<le> N - p")
  case True
  with assms show ?thesis
    by (auto simp: ring_write_def Let_def min_def nth_append ring_dist)
next
  case False
  with assms show ?thesis
    by (auto simp: ring_write_def Let_def min_def nth_append ring_dist)
      (simp_all add: add.commute)
qed

lemma ring_read_after_write:
  assumes "p < N" "length bs \<le> N" "N \<le> length d"
  shows "ring_read (ring_write d N p bs) N p (length bs) = bs"
proof (rule nth_equalityI)
  fix i assume "i < length (ring_read (ring_write d N p bs) N p (length bs))"
  then have i: "i < length bs" by simp
  define j where "j = (p + i) mod N"
  have j: "j < N" using assms by (simp add: j_def)
  have "(j + N - p) mod N = i"
    using assms i j unfolding j_def by (subst ring_dist) (auto simp: ring_pos)
  with assms i j show "ring_read (ring_write d N p bs) N p (length bs) ! i = bs ! i"
    by (simp add: nth_ring_write flip: j_def)
qed simp

lemma ring_read_outside_write:
  assumes "p < N" "n + length bs \<le> N" "N \<le> length d"
  shows "ring_read (ring_write d N ((p + n) mod N) bs) N p n = ring_read d N p n"
proof (rule nth_equalityI)
  fix i assume "i < length (ring_read (ring_write d N ((p + n) mod N) bs) N p n)"
  then have i: "i < n" by simp
  define j where "j = (p + i) mod N"
  define q where "q = (p + n) mod N"
  have N: "0 < N" using assms by simp
  have "\<not> (j + N - q) mod N < length bs"
  proof (cases "n = N")
    case True
    with assms show ?thesis by simp
  next
    case False
    with assms have n: "n < N" by simp
    have "j < N" "q < N" using N by (simp_all add: j_def q_def)
    then show ?thesis
      using assms i n unfolding j_def q_def by (subst ring_dist) (auto simp: ring_pos)
  qed
  then show "ring_read (ring_write d N ((p + n) mod N) bs) N p n ! i = ring_read d N p n ! i"
    using assms i N by (simp add: nth_ring_write j_def q_def)
qed simp

text \<open>Writing right behind a sequence appends to it.\<close>

lemma ring_read_write_append:
  assumes "p < N" "n + length bs \<le> N" "N \<le> length d"
  shows "ring_read (ring_write d N ((p + n) mod N) bs) N p (n + length bs) =
    ring_read d N p n @ bs"
proof -
  have "(p + n) mod N < N" using assms by simp
  with assms show ?thesis
    by (simp add: ring_read_append ring_read_outside_write ring_read_after_write)
qed

text \<open>Two writes, one right behind the other, are one write.\<close>

lemma nth_ring_write_beyond:
  assumes "p < N" "length bs \<le> N" "N \<le> j" "j < length d"
  shows "ring_write d N p bs ! j = d ! j"
  using assms by (auto simp: ring_write_def Let_def min_def nth_append)

lemma ring_dist_shift:
  fixes p j n N :: nat
  assumes "p < N" "j < N" "n \<le> N"
  shows "(j + N - (p + n) mod N) mod N =
    (if n \<le> (j + N - p) mod N then (j + N - p) mod N - n else (j + N - p) mod N + N - n)"
proof -
  define q where "q = (p + n) mod N"
  have q: "q < N" using assms by (simp add: q_def)
  have "q = (if p + n < N then p + n else p + n - N)"
    using assms by (cases "n = N") (simp_all add: q_def ring_pos)
  then show ?thesis
    unfolding q_def [symmetric] ring_dist [OF q assms(2)] ring_dist [OF assms(1,2)]
    using assms by (auto split: if_splits)
qed

lemma ring_write_append:
  assumes "p < N" "length xs + length ys \<le> N" "N \<le> length d"
  shows "ring_write (ring_write d N p xs) N ((p + length xs) mod N) ys = ring_write d N p (xs @ ys)"
    (is "?l = ?r")
proof (rule nth_equalityI)
  have q: "(p + length xs) mod N < N" using assms by simp
  with assms show "length ?l = length ?r" by simp
  fix j assume "j < length ?l"
  with assms q have j: "j < length d" by simp
  show "?l ! j = ?r ! j"
  proof (cases "j < N")
    case True
    with assms q show ?thesis
      by (auto simp: nth_ring_write ring_dist_shift nth_append)
  next
    case False
    with assms q j show ?thesis by (simp add: nth_ring_write_beyond)
  qed
qed

lemma list_update_ring_write:
  assumes "p < N" "N \<le> length d"
  shows "d[p := b] = ring_write d N p [b]"
  using assms by (simp add: ring_write_def Let_def min_def upd_conv_take_nth_drop)

lemma ring_write_Nil [simp]: "p < N \<Longrightarrow> ring_write d N p [] = d"
  by (simp add: ring_write_def)

lemma ring_back:
  fixes q j N :: nat
  assumes "q < N" "j < N"
  shows "(q + (j + N - q) mod N) mod N = j"
  using assms by (simp add: mod_add_right_eq)

lemma ring_write_pad:
  assumes "p < N" "length bs + n \<le> N" "N \<le> length d"
  obtains ys where "length ys = n" "ring_write d N p bs = ring_write d N p (bs @ ys)"
proof -
  let ?d = "ring_write d N p bs" and ?q = "(p + length bs) mod N"
  let ?ys = "ring_read ?d N ?q n"
  have q: "?q < N" and l: "length ?d = length d" using assms by simp_all
  have "ring_write ?d N ?q ?ys = ?d"
  proof (rule nth_equalityI)
    show "length (ring_write ?d N ?q ?ys) = length ?d" using assms q l by simp
    fix j assume "j < length (ring_write ?d N ?q ?ys)"
    then have j: "j < length d" using assms q l by simp
    show "ring_write ?d N ?q ?ys ! j = ?d ! j"
    proof (cases "j < N")
      case True
      have "(?q + (j + N - ?q) mod N) mod N = j"
        using q True by (rule ring_back)
      with True assms q l show ?thesis by (simp add: nth_ring_write [of ?q])
    next
      case False
      with assms q l j show ?thesis by (simp add: nth_ring_write_beyond)
    qed
  qed
  then have "ring_write d N p bs = ring_write d N p (bs @ ?ys)"
    using ring_write_append [of p N bs ?ys d] assms by simp
  then show thesis by (rule that [rotated]) simp
qed

lemma ring_write_one_part:
  "length bs \<le> N - p \<Longrightarrow> ring_write d N p bs = take p d @ bs @ drop (p + length bs) d"
  by (simp add: ring_write_def)

lemma ring_write_two_parts:
  assumes "length xs = min (length xs + length ys) (N - p)"
  shows "ring_write d N p (xs @ ys) =
    ys @ drop (length ys) (take p d @ xs @ drop (p + length xs) d)"
  using assms by (simp add: ring_write_def Let_def)

end
