(* ===== verification/Log2.thy ===== *)
theory Log2
  imports Bitops
begin

text \<open>
  Integer logarithms of \<open>linux/log2.h\<close>. Each macro chooses a constant-folding form or a
  run-time form by \<open>__builtin_constant_p\<close>; the choice is the boolean argument \<open>c\<close> here.
  The lemmas show that the two forms agree, that rounding up gives the least power of two
  that is not smaller, and where the shift of the macro is undefined.
\<close>

section \<open>Definitions\<close>

definition ilog2_u32 :: "u32 \<Rightarrow> int" where
  "ilog2_u32 n = fls n - 1"

definition ilog2_u64 :: "u64 \<Rightarrow> int" where
  "ilog2_u64 n = fls64 n - 1"

definition is_power_of_2 :: "u32 \<Rightarrow> bool" where
  "is_power_of_2 n \<longleftrightarrow> n \<noteq> 0 \<and> n AND (n - 1) = 0"

text \<open>\<open>__roundup_pow_of_two\<close> and \<open>__rounddown_pow_of_two\<close>.\<close>

definition roundup_pow_of_two_rt :: "u32 \<Rightarrow> u32 option" where
  "roundup_pow_of_two_rt n = shl_long 1 (fls_long (n - 1))"

definition rounddown_pow_of_two_rt :: "u32 \<Rightarrow> u32 option" where
  "rounddown_pow_of_two_rt n = shl_long 1 (fls_long n - 1)"

text \<open>
  The ladder of the constant form: the first \<open>i\<close>, counting down from 63, whose bit
  \<open>1ULL << i\<close> is set. \<open>____ilog2_NaN\<close> is declared and never defined: \<open>None\<close>.
\<close>

fun ilog2_ladder :: "nat \<Rightarrow> u64 \<Rightarrow> int option" where
  "ilog2_ladder 0 n = (if n AND push_bit 0 1 \<noteq> 0 then Some 0 else None)"
| "ilog2_ladder (Suc i) n =
     (if n AND push_bit (Suc i) 1 \<noteq> 0 then Some (int (Suc i)) else ilog2_ladder i n)"

definition ilog2_const :: "u64 \<Rightarrow> int option" where
  "ilog2_const n = (if n < 1 then None else ilog2_ladder 63 n)"

definition ilog2 :: "bool \<Rightarrow> u32 \<Rightarrow> int option" where
  "ilog2 c n = (if c then ilog2_const (ucast n) else Some (ilog2_u32 n))"

definition roundup_pow_of_two :: "bool \<Rightarrow> u32 \<Rightarrow> u32 option" where
  "roundup_pow_of_two c n =
     (if c
      then if n = 1 then Some 1
           else do { l \<leftarrow> ilog2 c (n - 1); shl_long 1 (l + 1) }
      else roundup_pow_of_two_rt n)"

definition rounddown_pow_of_two :: "bool \<Rightarrow> u32 \<Rightarrow> u32 option" where
  "rounddown_pow_of_two c n =
     (if c then do { l \<leftarrow> ilog2 c n; shl_long 1 l } else rounddown_pow_of_two_rt n)"

definition order_base_2 :: "bool \<Rightarrow> u32 \<Rightarrow> int option" where
  "order_base_2 c n = do { p \<leftarrow> roundup_pow_of_two c n; ilog2 c p }"

section \<open>Powers of two as words\<close>

lemma unat_pow2_32: "k < 32 \<Longrightarrow> unat (2 ^ k :: u32) = 2 ^ k"
  by transfer simp

lemma shl_long_1: "shl_long 1 (int k) = (if k < 32 then Some (2 ^ k) else None)"
  by (simp add: shl_long_def push_bit_of_1)

lemma is_power_of_2_iff: "is_power_of_2 n \<longleftrightarrow> (\<exists>k < 32. n = 2 ^ k)"
proof
  assume p: "is_power_of_2 n"
  then have nz: "n \<noteq> 0" and z: "n AND (n - 1) = 0" by (simp_all add: is_power_of_2_def)
  obtain k where k: "k < 32" "2 ^ k \<le> unat n" "unat n < 2 ^ Suc k"
    using fls_bounds [OF nz] by blast
  have n1: "unat (n - 1) = unat n - 1"
    using nz by (simp add: unat_minus_one)
  have "unat n = 2 ^ k"
  proof (rule ccontr)
    assume "unat n \<noteq> 2 ^ k"
    with k n1 have "2 ^ k \<le> unat (n - 1)" "unat (n - 1) < 2 ^ Suc k" by simp_all
    then have "bit (n - 1) k" by (simp add: bit_top_iff)
    moreover from k have "bit n k" by (simp add: bit_top_iff)
    ultimately have "bit (n AND (n - 1)) k" by (simp add: bit_and_iff)
    with z show False by simp
  qed
  with k(1) have "n = 2 ^ k" by (simp add: word_unat_eq_iff unat_pow2_32)
  with k(1) show "\<exists>k < 32. n = 2 ^ k" by blast
next
  assume "\<exists>k < 32. n = 2 ^ k"
  then obtain k where k: "k < 32" "n = 2 ^ k" by blast
  then have "n - 1 = mask k" by (simp add: mask_eq_exp_minus_1)
  moreover have "take_bit k n = 0" using k by (simp add: take_bit_eq_mod)
  ultimately have "n AND (n - 1) = 0" by (simp add: take_bit_eq_mask)
  moreover have "n \<noteq> 0" using k by simp
  ultimately show "is_power_of_2 n" by (simp add: is_power_of_2_def)
qed

section \<open>The constant and the run-time logarithm agree\<close>

lemma ilog2_ladder_top:
  assumes "2 ^ k \<le> unat n" "unat n < 2 ^ Suc k" "k \<le> i"
  shows "ilog2_ladder i n = Some (int k)"
  using assms(3)
proof (induction i)
  case 0
  with assms have "n = 1" by (simp add: word_unat_eq_iff)
  with 0 show ?case by simp
next
  case (Suc i)
  have test: "n AND push_bit (Suc i) 1 \<noteq> 0 \<longleftrightarrow> bit n (Suc i)"
    by (simp add: push_bit_of_1 and_exp_eq_0_iff_not_bit del: power_Suc)
  show ?case
  proof (cases "k = Suc i")
    case True
    with assms have "bit n (Suc i)" by (simp add: bit_top_iff)
    with True test show ?thesis by simp
  next
    case False
    with Suc.prems have "Suc k \<le> Suc i" "k \<le> i" by simp_all
    then have "(2::nat) ^ Suc k \<le> 2 ^ Suc i" by (intro power_increasing) simp_all
    with assms(2) have "unat n < 2 ^ Suc i" by (rule less_le_trans)
    then have "\<not> bit n (Suc i)" by (simp add: bit_unat_iff del: power_Suc)
    with \<open>k \<le> i\<close> test Suc.IH show ?thesis by simp
  qed
qed

lemma ilog2_const_eq:
  assumes "n \<noteq> 0"
  shows "ilog2 True n = ilog2 False n"
proof -
  obtain k where k: "fls n = int k + 1" "k < 32" "2 ^ k \<le> unat n" "unat n < 2 ^ Suc k"
    using fls_bounds [OF assms] by blast
  have u: "unat (ucast n :: u64) = unat n"
    using unat_less_word [of n] by (simp add: unat_ucast_mod)
  have "\<not> (ucast n :: u64) < 1" using k(3) u assms by (simp add: word_less_nat_alt unat_gt_0)
  moreover have "ilog2_ladder 63 (ucast n) = Some (int k)"
    using k u by (intro ilog2_ladder_top) simp_all
  ultimately show ?thesis using k(1) by (simp add: ilog2_def ilog2_const_def ilog2_u32_def)
qed

section \<open>Rounding\<close>

lemma roundup_rt_pow2:
  assumes "0 < n" "unat n \<le> 2 ^ 31"
  shows "\<exists>k < 32. roundup_pow_of_two_rt n = Some (2 ^ k) \<and>
    unat n \<le> 2 ^ k \<and> 2 ^ k < 2 * unat n"
proof -
  have n: "n \<noteq> 0" and n1: "unat (n - 1) = unat n - 1" "0 < unat n"
    using assms(1) by (auto simp: unat_minus_one unat_gt_0)
  show ?thesis
  proof (cases "n = 1")
    case True
    then show ?thesis
      by (intro exI [of _ 0]) (simp add: roundup_pow_of_two_rt_def fls_long_def shl_long_def)
  next
    case False
    then have "n - 1 \<noteq> 0" by simp
    then obtain j where j: "fls (n - 1) = int j + 1" "2 ^ j \<le> unat (n - 1)" 
      "unat (n - 1) < 2 ^ Suc j" using fls_bounds by blast
    have "(2::nat) ^ j < 2 ^ 31" using j(2) n1 assms(2) by linarith
    then have "j < 31" by (simp only: power_strict_increasing_iff one_less_numeral_iff semiring_norm)
    moreover have "roundup_pow_of_two_rt n = shl_long 1 (int (Suc j))"
      using j(1) by (simp add: roundup_pow_of_two_rt_def fls_long_def add.commute)
    ultimately show ?thesis
      using j n1 shl_long_1 [of "Suc j"] by (intro exI [of _ "Suc j"]) auto
  qed
qed

lemma roundup_const_eq:
  assumes "0 < n"
  shows "roundup_pow_of_two True n = roundup_pow_of_two False n"
proof (cases "n = 1")
  case True
  then show ?thesis
    by (simp add: roundup_pow_of_two_def roundup_pow_of_two_rt_def fls_long_def shl_long_def)
next
  case False
  then have "n - 1 \<noteq> 0" by simp
  then have "ilog2 True (n - 1) = Some (fls (n - 1) - 1)"
    by (simp add: ilog2_const_eq) (simp add: ilog2_def ilog2_u32_def)
  with False show ?thesis
    by (simp add: roundup_pow_of_two_def roundup_pow_of_two_rt_def fls_long_def)
qed

lemma roundup_pow2:
  assumes "0 < n" "unat n \<le> 2 ^ 31"
  shows "\<exists>k < 32. roundup_pow_of_two c n = Some (2 ^ k) \<and>
    unat n \<le> 2 ^ k \<and> 2 ^ k < 2 * unat n"
  using roundup_rt_pow2 [OF assms] roundup_const_eq [OF assms(1)]
  by (cases c) (simp_all add: roundup_pow_of_two_def)

lemma roundup_rt_undefined:
  assumes "n = 0 \<or> 2 ^ 31 < unat n"
  shows "roundup_pow_of_two False n = None"
proof -
  have "2 ^ 31 \<le> unat (n - 1)"
  proof (cases "n = 0")
    case True
    then show ?thesis by (simp add: unsigned_minus_1_eq_mask mask_eq_exp_minus_1)
  next
    case False
    with assms show ?thesis by (simp add: unat_minus_one)
  qed
  then have "\<not> fls (n - 1) \<le> int 31" by (simp only: fls_less_iff)
  then show ?thesis
    by (simp add: roundup_pow_of_two_def roundup_pow_of_two_rt_def fls_long_def shl_long_def)
qed

lemma roundup_power_of_2:
  assumes "is_power_of_2 n"
  shows "roundup_pow_of_two c n = Some n"
proof -
  obtain k where k: "k < 32" "n = 2 ^ k" using assms is_power_of_2_iff by blast
  have u: "unat n = 2 ^ k" using k by (simp add: unat_pow2_32)
  have "(2::nat) ^ k \<le> 2 ^ 31" using k by (intro power_increasing) simp_all
  moreover have "0 < n" using k by (simp add: word_gt_0)
  ultimately obtain j where j: "j < 32" "roundup_pow_of_two c n = Some (2 ^ j)"
    "2 ^ k \<le> (2::nat) ^ j" "(2::nat) ^ j < 2 ^ Suc k"
    using roundup_pow2 [of n c] u by auto
  then have "j = k"
    by (simp only: power_strict_increasing_iff power_increasing_iff one_less_numeral_iff
        semiring_norm)
  with j k show ?thesis by simp
qed

lemma rounddown_pow2:
  assumes "0 < n"
  shows "\<exists>k < 32. rounddown_pow_of_two c n = Some (2 ^ k) \<and>
    2 ^ k \<le> unat n \<and> unat n < 2 * 2 ^ k"
proof -
  have n: "n \<noteq> 0" using assms by auto
  then obtain k where k: "fls n = int k + 1" "k < 32" "2 ^ k \<le> unat n" "unat n < 2 ^ Suc k"
    using fls_bounds by blast
  have "ilog2 True n = Some (int k)" 
    using n k(1) by (simp add: ilog2_const_eq) (simp add: ilog2_def ilog2_u32_def)
  with k have "rounddown_pow_of_two c n = Some (2 ^ k)"
    by (cases c) (simp_all add: rounddown_pow_of_two_def rounddown_pow_of_two_rt_def
        fls_long_def shl_long_1)
  with k show ?thesis by auto
qed

end
