(* ===== verification/Kmalloc.thy ===== *)
theory Kmalloc
  imports Prelude
begin

text \<open>
  Memory allocation: \<open>kmalloc.c\<close> and the inline wrappers of \<open>linux/slab.h\<close> it serves. The
  C library behind it is not part of the repository, so \<open>malloc\<close>, \<open>calloc\<close> and \<open>free\<close> are fields of
  the parameter \<open>libc\<close>; \<open>'h\<close> is the library's own state. A successful allocation
  gives the address and the bytes of the new object, a failed one \<open>None\<close> for \<open>NULL\<close>.

  The build defines both \<open>CONFIG_SLUB\<close> and \<open>CONFIG_SLOB\<close>; the latter wins in
  \<open>slab.h\<close>, so no kmalloc cache is ever used and a request for a compile-time constant
  size above one page goes to \<open>kmalloc_order\<close>, which the library does not define.
\<close>

section \<open>Definitions\<close>

type_synonym block = "addr \<times> u8 list"

record 'h libc =
  ext_malloc :: "u32 \<Rightarrow> 'h \<Rightarrow> block option \<times> 'h"
  ext_calloc :: "u32 \<Rightarrow> u32 \<Rightarrow> 'h \<Rightarrow> block option \<times> 'h"
  ext_free :: "addr \<Rightarrow> 'h \<Rightarrow> 'h"
  ext_kmalloc_order :: "u32 \<Rightarrow> u32 \<Rightarrow> 'h \<Rightarrow> block option \<times> 'h"

definition GFP_ZERO :: u32 where "GFP_ZERO = 0x8000"
definition GFP_KERNEL :: u32 where "GFP_KERNEL = 0x24000c0"

definition KMALLOC_MAX_CACHE_SIZE :: u32 where
  "KMALLOC_MAX_CACHE_SIZE = push_bit 12 1"

text \<open>\<open>__kmalloc\<close>.\<close>

definition kmalloc_rt :: "'h libc \<Rightarrow> u32 \<Rightarrow> u32 \<Rightarrow> 'h \<Rightarrow> block option \<times> 'h" where
  "kmalloc_rt L sz flags h =
     (case ext_malloc L sz h of
        (None, h) \<Rightarrow> (None, h)
      | (Some (p, bs), h) \<Rightarrow>
          if GFP_ZERO AND flags \<noteq> 0
          then (Some (p, replicate (unat sz) 0 @ drop (unat sz) bs), h)
          else (Some (p, bs), h))"

text \<open>\<open>kmalloc\<close>; \<open>c\<close> says that the size is a compile-time constant.\<close>

definition kmalloc :: "'h libc \<Rightarrow> bool \<Rightarrow> u32 \<Rightarrow> u32 \<Rightarrow> 'h \<Rightarrow> block option \<times> 'h" where
  "kmalloc L c sz flags h =
     (if c \<and> sz > KMALLOC_MAX_CACHE_SIZE then ext_kmalloc_order L sz flags h
      else kmalloc_rt L sz flags h)"

definition kmem_cache_alloc_trace :: "'c \<Rightarrow> u32 \<Rightarrow> u32 \<Rightarrow> block option" where
  "kmem_cache_alloc_trace c flags s = None"

definition kmalloc_array :: "'h libc \<Rightarrow> bool \<Rightarrow> u32 \<Rightarrow> u32 \<Rightarrow> u32 \<Rightarrow> 'h \<Rightarrow> block option \<times> 'h" where
  "kmalloc_array L c n sz flags h =
     (if sz \<noteq> 0 \<and> n > (- 1) div sz then (None, h)
      else if c then kmalloc L c (n * sz) flags h
      else kmalloc_rt L (n * sz) flags h)"

definition kcalloc :: "'h libc \<Rightarrow> bool \<Rightarrow> u32 \<Rightarrow> u32 \<Rightarrow> u32 \<Rightarrow> 'h \<Rightarrow> block option \<times> 'h" where
  "kcalloc L c n sz flags h = kmalloc_array L c n sz (flags OR GFP_ZERO) h"

definition kzalloc :: "'h libc \<Rightarrow> bool \<Rightarrow> u32 \<Rightarrow> u32 \<Rightarrow> 'h \<Rightarrow> block option \<times> 'h" where
  "kzalloc L c sz flags h = kmalloc L c sz (flags OR GFP_ZERO) h"

text \<open>\<open>kfree\<close> of a pointer that may be null.\<close>

definition kfree :: "'h libc \<Rightarrow> block option \<Rightarrow> 'h \<Rightarrow> 'h" where
  "kfree L ptr h = (case ptr of None \<Rightarrow> h | Some (p, _) \<Rightarrow> ext_free L p h)"

section \<open>What the library relies on\<close>

text \<open>
  The documented behaviour of \<open>malloc\<close>: a successful call returns a non-null object of the
  requested size. \<open>kmalloc_order\<close> promises the same.
\<close>

definition malloc_ok :: "'h libc \<Rightarrow> bool" where
  "malloc_ok L \<longleftrightarrow>
     (\<forall>n h p bs h'. ext_malloc L n h = (Some (p, bs), h') \<longrightarrow> p \<noteq> 0 \<and> length bs = unat n) \<and>
     (\<forall>n g h p bs h'. ext_kmalloc_order L n g h = (Some (p, bs), h') \<longrightarrow>
        p \<noteq> 0 \<and> length bs = unat n)"

lemma malloc_okD:
  "malloc_ok L \<Longrightarrow> ext_malloc L n h = (Some (p, bs), h') \<Longrightarrow> p \<noteq> 0 \<and> length bs = unat n"
  unfolding malloc_ok_def by blast

lemma malloc_ok_orderD:
  "malloc_ok L \<Longrightarrow> ext_kmalloc_order L n g h = (Some (p, bs), h') \<Longrightarrow>
     p \<noteq> 0 \<and> length bs = unat n"
  unfolding malloc_ok_def by blast

lemma kmalloc_rt_size:
  assumes "malloc_ok L" "kmalloc_rt L sz flags h = (Some (p, bs), h')"
  shows "p \<noteq> 0 \<and> length bs = unat sz"
  using assms(2)
  by (auto simp: kmalloc_rt_def split: option.splits prod.splits if_splits
      dest!: malloc_okD [OF assms(1)])

lemma kmalloc_size:
  assumes "malloc_ok L" "kmalloc L c sz flags h = (Some (p, bs), h')"
  shows "p \<noteq> 0 \<and> length bs = unat sz"
  using assms(2)
  by (auto simp: kmalloc_def split: if_splits
      dest!: malloc_ok_orderD [OF assms(1)] kmalloc_rt_size [OF assms(1)])

lemma or_GFP_ZERO: "GFP_ZERO AND (flags OR GFP_ZERO) \<noteq> 0"
proof -
  have "GFP_ZERO AND (flags OR GFP_ZERO) = GFP_ZERO"
    by (simp add: word_ao_absorbs)
  then show ?thesis by (simp add: GFP_ZERO_def)
qed

lemma kmalloc_array_overflow:
  assumes "2 ^ 32 \<le> unat n * unat sz"
  shows "kmalloc_array L c n sz flags h = (None, h)"
proof -
  have s: "0 < unat sz" using assms by (cases "unat sz") simp_all
  have "unat ((- 1 :: u32) div sz) < unat n"
  proof -
    have "unat ((- 1 :: u32) div sz) = (2 ^ 32 - 1) div unat sz"
      by (simp add: unat_div unsigned_minus_1_eq_mask mask_eq_exp_minus_1)
    also have "\<dots> < unat n"
      using assms s by (simp add: div_less_iff_less_mult)
    finally show ?thesis .
  qed
  moreover have "sz \<noteq> 0" using s by auto
  ultimately show ?thesis by (simp add: kmalloc_array_def word_less_nat_alt)
qed

lemma kmalloc_array_size:
  assumes "malloc_ok L" "kmalloc_array L c n sz flags h = (Some (p, bs), h')"
  shows "length bs = unat n * unat sz"
proof -
  have fit: "unat n * unat sz < 2 ^ 32"
    using assms(2) kmalloc_array_overflow [of n sz L c flags h] by (force simp: not_le)
  then have "unat (n * sz) = unat n * unat sz" by (intro unat_mult_no_wrap) simp
  with assms(2) show ?thesis
    by (auto simp: kmalloc_array_def split: if_splits
        dest!: kmalloc_size [OF assms(1)] kmalloc_rt_size [OF assms(1)])
qed

section \<open>A concrete library\<close>

text \<open>An allocator that hands out addresses upwards from \<open>0x1000\<close>; the witnesses of the
  development use it. Its state is the number of bytes handed out.\<close>

definition bump_libc :: "nat libc" where
  "bump_libc =
     (let alloc = (\<lambda>n h. if 0x1000 + h + unat n < 2 ^ 32
                         then (Some (of_nat (0x1000 + h), replicate (unat n) 0xAA), h + unat n)
                         else (None, h))
      in \<lparr>ext_malloc = alloc,
          ext_calloc = (\<lambda>m n h. case alloc (m * n) h of
                                   (None, h) \<Rightarrow> (None, h)
                                 | (Some (p, bs), h) \<Rightarrow> (Some (p, replicate (length bs) 0), h)),
          ext_free = (\<lambda>_ h. h), ext_kmalloc_order = (\<lambda>n _. alloc n)\<rparr>)"

lemma of_nat_word32_nonzero: "0 < n \<Longrightarrow> n < 2 ^ 32 \<Longrightarrow> (of_nat n :: u32) \<noteq> 0"
  by (simp add: word_unat_eq_iff unat_of_nat)

lemma bump_libc_ok: "malloc_ok bump_libc"
  using of_nat_word32_nonzero
  by (auto simp: malloc_ok_def bump_libc_def Let_def simp del: of_nat_add of_nat_numeral split: if_splits)

end
