(* ===== verification/Kfifo.thy ===== *)
theory Kfifo
  imports Ring Log2 Kmalloc
begin

text \<open>
  The generic fifo of \<open>fifo.c\<close>, first part: allocation and release, copies into and out of
  the ring, and the operations on plain elements. \<open>__kfifo_x\<close> of the source is \<open>fifo_x\<close>
  here; static functions keep their names.

  The indices \<open>in\<close> and \<open>out\<close> are 32-bit counters that are never reduced modulo the
  size; only an access to the storage masks them. \<open>kfifo_wf\<close> is the invariant of an
  initialised fifo and \<open>kfifo_bytes\<close> the byte sequence it stands for: \<open>fifo_in\<close>
  appends to it and \<open>fifo_out\<close> removes from its front, whatever the counters are, also
  across the wrap of the storage and across the wrap of the counters.
\<close>

section \<open>Definitions\<close>

record kfifo =
  kf_in :: u32
  kf_out :: u32
  kf_mask :: u32
  kf_esize :: u32
  kf_data :: "block option"

text \<open>The bytes behind the data pointer; a null pointer has none, so that every access
  through it but an empty one is out of bounds.\<close>

definition kf_store :: "kfifo \<Rightarrow> u8 list" where
  "kf_store f = (case kf_data f of None \<Rightarrow> [] | Some (_, d) \<Rightarrow> d)"

definition kf_set_store :: "kfifo \<Rightarrow> u8 list \<Rightarrow> kfifo" where
  "kf_set_store f d = f\<lparr>kf_data := map_option (\<lambda>(a, _). (a, d)) (kf_data f)\<rparr>"

definition kfifo_unused :: "kfifo \<Rightarrow> u32" where
  "kfifo_unused f = (kf_mask f + 1) - (kf_in f - kf_out f)"

definition fifo_alloc ::
  "'h libc \<Rightarrow> kfifo \<Rightarrow> u32 \<Rightarrow> u32 \<Rightarrow> u32 \<Rightarrow> 'h \<Rightarrow> (kfifo \<times> int \<times> 'h) option" where
  "fifo_alloc L f sz esize gfp_mask h =
     do { sz \<leftarrow> roundup_pow_of_two False sz;
          let f = f\<lparr>kf_in := 0, kf_out := 0, kf_esize := esize\<rparr>;
          if sz < 2 then Some (f\<lparr>kf_data := None, kf_mask := 0\<rparr>, - EINVAL, h)
          else
            let (d, h) = kmalloc L False (sz * esize) gfp_mask h;
                f = f\<lparr>kf_data := d\<rparr>
            in if d = None then Some (f\<lparr>kf_mask := 0\<rparr>, - ENOMEM, h)
               else Some (f\<lparr>kf_mask := sz - 1\<rparr>, 0, h) }"

definition fifo_free :: "'h libc \<Rightarrow> kfifo \<Rightarrow> 'h \<Rightarrow> kfifo \<times> 'h" where
  "fifo_free L f h =
     (let h = kfree L (kf_data f) h
      in (f\<lparr>kf_in := 0, kf_out := 0, kf_esize := 0, kf_data := None, kf_mask := 0\<rparr>, h))"

definition fifo_init :: "kfifo \<Rightarrow> block option \<Rightarrow> u32 \<Rightarrow> u32 \<Rightarrow> (kfifo \<times> int) option" where
  "fifo_init f buffer sz esize =
     (if esize = 0 then None
      else do { sz \<leftarrow> roundup_pow_of_two False (sz div esize);
                let f = f\<lparr>kf_in := 0, kf_out := 0, kf_esize := esize, kf_data := buffer\<rparr>;
                if sz < 2 then Some (f\<lparr>kf_mask := 0\<rparr>, - EINVAL)
                else Some (f\<lparr>kf_mask := sz - 1\<rparr>, 0) })"

text \<open>
  The arithmetic at the head of every copy: the offset and the length in bytes, and the
  length of the part before the end of the storage.
\<close>

definition kfifo_span :: "kfifo \<Rightarrow> u32 \<Rightarrow> u32 \<Rightarrow> u32 \<times> u32 \<times> u32" where
  "kfifo_span f len off =
     (let sz = kf_mask f + 1;
          esize = kf_esize f;
          off = off AND kf_mask f;
          (off, sz, len) = (if esize \<noteq> 1 then (off * esize, sz * esize, len * esize)
                            else (off, sz, len));
          l = min len (sz - off)
      in (off, len, l))"

definition kfifo_copy_in :: "kfifo \<Rightarrow> u8 list \<Rightarrow> u32 \<Rightarrow> u32 \<Rightarrow> kfifo option" where
  "kfifo_copy_in f src len off =
     (let (off, len, l) = kfifo_span f len off
      in do { bs \<leftarrow> mem_load src 0 (unat l);
              d \<leftarrow> mem_store (kf_store f) (unat off) bs;
              bs \<leftarrow> mem_load src (unat l) (unat (len - l));
              d \<leftarrow> mem_store d 0 bs;
              Some (kf_set_store f d) })"

definition fifo_in :: "kfifo \<Rightarrow> u8 list \<Rightarrow> u32 \<Rightarrow> (kfifo \<times> u32) option" where
  "fifo_in f buf len =
     (let l = kfifo_unused f;
          len = (if len > l then l else len)
      in do { f \<leftarrow> kfifo_copy_in f buf len (kf_in f);
              Some (f\<lparr>kf_in := kf_in f + len\<rparr>, len) })"

definition kfifo_copy_out :: "kfifo \<Rightarrow> u8 list \<Rightarrow> u32 \<Rightarrow> u32 \<Rightarrow> u8 list option" where
  "kfifo_copy_out f dst len off =
     (let (off, len, l) = kfifo_span f len off
      in do { bs \<leftarrow> mem_load (kf_store f) (unat off) (unat l);
              dst \<leftarrow> mem_store dst 0 bs;
              bs \<leftarrow> mem_load (kf_store f) 0 (unat (len - l));
              mem_store dst (unat l) bs })"

definition fifo_out_peek :: "kfifo \<Rightarrow> u8 list \<Rightarrow> u32 \<Rightarrow> (u8 list \<times> u32) option" where
  "fifo_out_peek f buf len =
     (let l = kf_in f - kf_out f;
          len = (if len > l then l else len)
      in do { buf \<leftarrow> kfifo_copy_out f buf len (kf_out f);
              Some (buf, len) })"

definition fifo_out :: "kfifo \<Rightarrow> u8 list \<Rightarrow> u32 \<Rightarrow> (kfifo \<times> u8 list \<times> u32) option" where
  "fifo_out f buf len =
     do { (buf, len) \<leftarrow> fifo_out_peek f buf len;
          Some (f\<lparr>kf_out := kf_out f + len\<rparr>, buf, len) }"

section \<open>Invariant and abstraction\<close>

definition kfifo_cap :: "kfifo \<Rightarrow> nat" where
  "kfifo_cap f = unat (kf_mask f) + 1"

definition kfifo_used :: "kfifo \<Rightarrow> nat" where
  "kfifo_used f = unat (kf_in f - kf_out f)"

definition kfifo_wf :: "kfifo \<Rightarrow> bool" where
  "kfifo_wf f \<longleftrightarrow>
     is_power_of_2 (kf_mask f + 1) \<and> 1 \<le> kf_mask f \<and> 0 < kf_esize f \<and>
     kfifo_cap f * unat (kf_esize f) < 2 ^ 32 \<and>
     kfifo_used f \<le> kfifo_cap f \<and>
     kf_data f \<noteq> None \<and> kfifo_cap f * unat (kf_esize f) \<le> length (kf_store f)"

definition kfifo_bytes :: "kfifo \<Rightarrow> u8 list" where
  "kfifo_bytes f =
     (let E = unat (kf_esize f)
      in ring_read (kf_store f) (kfifo_cap f * E) (unat (kf_out f) mod kfifo_cap f * E)
           (kfifo_used f * E))"

section \<open>Capacity, indices and spans\<close>

lemma kf_set_store_sel [simp]:
  "kf_in (kf_set_store f d) = kf_in f" "kf_out (kf_set_store f d) = kf_out f"
  "kf_mask (kf_set_store f d) = kf_mask f" "kf_esize (kf_set_store f d) = kf_esize f"
  "kf_data (kf_set_store f d) = None \<longleftrightarrow> kf_data f = None"
  "kf_data f \<noteq> None \<Longrightarrow> kf_store (kf_set_store f d) = d"
  by (auto simp: kf_set_store_def kf_store_def split: option.splits)

lemma kf_store_update [simp]:
  "kf_store (f\<lparr>kf_in := i\<rparr>) = kf_store f" "kf_store (f\<lparr>kf_out := i\<rparr>) = kf_store f"
  by (simp_all add: kf_store_def)

lemma kfifo_cap_update [simp]:
  "kfifo_cap (f\<lparr>kf_in := i\<rparr>) = kfifo_cap f" "kfifo_cap (f\<lparr>kf_out := i\<rparr>) = kfifo_cap f"
  "kfifo_cap (kf_set_store f d) = kfifo_cap f"
  by (simp_all add: kfifo_cap_def)

lemma kfifo_used_set_store [simp]: "kfifo_used (kf_set_store f d) = kfifo_used f"
  by (simp add: kfifo_used_def)

lemma kfifo_wf_capE:
  assumes "kfifo_wf f"
  obtains k where "k < 32" "kfifo_cap f = 2 ^ k" "kf_mask f = mask k"
    "unat (kf_mask f + 1) = kfifo_cap f"
proof -
  obtain k where k: "k < 32" "kf_mask f + 1 = 2 ^ k"
    using assms by (auto simp: kfifo_wf_def is_power_of_2_iff)
  have m: "kf_mask f = mask k"
    using k(2) by (metis add_diff_cancel_right' mask_eq_exp_minus_1)
  have u: "unat (mask k :: u32) + 1 = 2 ^ k"
  proof -
    have "unat (mask k :: u32) = 2 ^ k - 1"
      using k(1) by (simp add: mask_eq_exp_minus_1 unat_sub_no_wrap unat_pow2_32)
    then show ?thesis by simp
  qed
  show thesis
  proof (rule that [OF k(1) _ m])
    show "kfifo_cap f = 2 ^ k" using u by (simp add: kfifo_cap_def m)
    show "unat (kf_mask f + 1) = kfifo_cap f"
      using u k unat_pow2_32 [OF k(1)] by (simp add: kfifo_cap_def m)
  qed
qed

lemma kfifo_wf_pos:
  assumes "kfifo_wf f"
  shows "0 < unat (kf_esize f)" "2 \<le> kfifo_cap f" "0 < kfifo_cap f * unat (kf_esize f)"
  using assms
  by (simp_all add: kfifo_wf_def kfifo_cap_def word_less_nat_alt word_le_nat_alt)

lemma kfifo_wf_cap_le: "kfifo_wf f \<Longrightarrow> kfifo_cap f \<le> 2 ^ 31"
  by (erule kfifo_wf_capE) (simp add: power_increasing [of _ 31 "2::nat", simplified])

lemma kfifo_unused_eq:
  assumes "kfifo_wf f"
  shows "unat (kfifo_unused f) = kfifo_cap f - kfifo_used f"
proof -
  have "unat (kf_mask f + 1) = kfifo_cap f" using assms by (rule kfifo_wf_capE)
  moreover have "unat (kf_in f - kf_out f) \<le> kfifo_cap f"
    using assms by (simp add: kfifo_wf_def kfifo_used_def)
  ultimately show ?thesis
    by (simp add: kfifo_unused_def kfifo_used_def unat_sub_no_wrap)
qed

lemma kfifo_span_eq:
  assumes wf: "kfifo_wf f" and len: "unat len \<le> kfifo_cap f"
    and span: "kfifo_span f len off = (off', len', l)"
  shows "unat off' = unat off mod kfifo_cap f * unat (kf_esize f)"
    and "unat len' = unat len * unat (kf_esize f)"
    and "unat l = min (unat len') (kfifo_cap f * unat (kf_esize f) - unat off')"
    and "unat (len' - l) = unat len' - unat l"
    and "unat off' < kfifo_cap f * unat (kf_esize f)"
proof -
  let ?E = "unat (kf_esize f)" and ?N = "kfifo_cap f * unat (kf_esize f)"
  obtain k where k: "kfifo_cap f = 2 ^ k" "kf_mask f = mask k"
    "unat (kf_mask f + 1) = kfifo_cap f" using wf by (rule kfifo_wf_capE)
  have N: "?N < 2 ^ 32" using wf by (simp add: kfifo_wf_def)
  have p: "0 < ?E" "0 < kfifo_cap f" using kfifo_wf_pos [OF wf] by simp_all
  have eqs: "off' = (off AND kf_mask f) * kf_esize f" "len' = len * kf_esize f"
    "l = min len' ((kf_mask f + 1) * kf_esize f - off')"
    using span by (auto simp: kfifo_span_def Let_def split: if_splits)
  have am: "unat (off AND kf_mask f) = unat off mod kfifo_cap f"
    using unat_and_mask [of off k] k by simp
  have lt: "unat off mod kfifo_cap f * ?E < ?N" using p by simp
  show o: "unat off' = unat off mod kfifo_cap f * ?E"
    using less_trans [OF lt N] am unat_mult_no_wrap [of "off AND kf_mask f" "kf_esize f"]
    by (simp add: eqs)
  show o': "unat off' < ?N" using lt by (simp only: o)
  show l: "unat len' = unat len * ?E"
    using N le_less_trans [OF mult_le_mono1 [OF len] N] by (simp add: eqs unat_mult_no_wrap)
  have s: "unat ((kf_mask f + 1) * kf_esize f) = ?N"
    using N k by (simp add: unat_mult_no_wrap)
  show m: "unat l = min (unat len') (?N - unat off')"
    using s o' by (simp add: eqs(3) unat_min unat_sub_no_wrap)
  show "unat (len' - l) = unat len' - unat l"
    using m by (simp add: unat_sub_no_wrap)
qed

text \<open>Where the counters point: the writer writes right behind the unread elements.\<close>

lemma kfifo_in_pos:
  assumes "kfifo_wf f"
  shows "unat (kf_in f) mod kfifo_cap f = (unat (kf_out f) + kfifo_used f) mod kfifo_cap f"
proof -
  obtain k where k: "k < 32" "kfifo_cap f = 2 ^ k" using assms by (rule kfifo_wf_capE)
  have "kf_in f = kf_out f + (kf_in f - kf_out f)" by simp
  then have "unat (kf_in f) mod 2 ^ k = (unat (kf_out f) + unat (kf_in f - kf_out f)) mod 2 ^ k"
    using unat_add_mod_pow2 [of k "kf_out f" "kf_in f - kf_out f"] k(1) by simp
  then show ?thesis using k(2) by (simp add: kfifo_used_def)
qed

lemma kfifo_in_byte_pos:
  assumes "kfifo_wf f"
  shows "unat (kf_in f) mod kfifo_cap f * unat (kf_esize f) =
    (unat (kf_out f) mod kfifo_cap f * unat (kf_esize f) + kfifo_used f * unat (kf_esize f)) mod
      (kfifo_cap f * unat (kf_esize f))"
  by (simp add: kfifo_in_pos [OF assms] mult_mod_left [symmetric] add_mult_distrib [symmetric]
      mod_add_left_eq)

lemma kfifo_used_in:
  assumes "kfifo_wf f" "kfifo_used f + unat n \<le> kfifo_cap f"
  shows "kfifo_used (f\<lparr>kf_in := kf_in f + n\<rparr>) = kfifo_used f + unat n"
proof -
  have "kfifo_used f + unat n < 2 ^ 32"
    using assms(2) kfifo_wf_cap_le [OF assms(1)] by simp
  then have "unat ((kf_in f - kf_out f) + n) = kfifo_used f + unat n"
    by (simp only: kfifo_used_def) (rule unat_add_no_wrap, simp)
  then show ?thesis by (simp add: kfifo_used_def diff_add_eq)
qed

lemma kfifo_used_out:
  assumes "unat n \<le> kfifo_used f"
  shows "kfifo_used (f\<lparr>kf_out := kf_out f + n\<rparr>) = kfifo_used f - unat n"
proof -
  have "unat ((kf_in f - kf_out f) - n) = kfifo_used f - unat n"
    using assms by (simp only: kfifo_used_def) (rule unat_sub_no_wrap)
  then show ?thesis by (simp add: kfifo_used_def diff_diff_add)
qed

lemma kfifo_out_pos:
  assumes "kfifo_wf f"
  shows "unat (kf_out f + n) mod kfifo_cap f = (unat (kf_out f) + unat n) mod kfifo_cap f"
  by (rule kfifo_wf_capE [OF assms]) (simp add: unat_add_mod_pow2)

section \<open>Copies are accesses to the ring\<close>

lemma kfifo_copy_in_eq:
  assumes wf: "kfifo_wf f" and len: "unat len \<le> kfifo_cap f"
    and src: "unat len * unat (kf_esize f) \<le> length src"
  shows "kfifo_copy_in f src len off = Some (kf_set_store f
    (ring_write (kf_store f) (kfifo_cap f * unat (kf_esize f))
      (unat off mod kfifo_cap f * unat (kf_esize f)) (take (unat len * unat (kf_esize f)) src)))"
proof -
  obtain off' len' l where span: "kfifo_span f len off = (off', len', l)"
    by (metis prod_cases3)
  note eqs = kfifo_span_eq [OF wf len span]
  have d: "kfifo_cap f * unat (kf_esize f) \<le> length (kf_store f)"
    using wf by (simp add: kfifo_wf_def)
  have N: "unat len' \<le> kfifo_cap f * unat (kf_esize f)"
    using len by (simp add: eqs(2))
  have b: "unat l \<le> unat len'" "unat off' + unat l \<le> length (kf_store f)"
    "unat len' - unat l \<le> length (kf_store f)"
    using eqs(5) d N unfolding eqs(3) by linarith+
  show ?thesis
    using b src eqs(4)
    by (simp add: kfifo_copy_in_def span ring_write_def Let_def mem_simps drop_take
        min_absorb2 flip: eqs(1,2,3))
qed

lemma kfifo_copy_out_eq:
  assumes wf: "kfifo_wf f" and len: "unat len \<le> kfifo_cap f"
    and dst: "unat len * unat (kf_esize f) \<le> length dst"
  shows "kfifo_copy_out f dst len off = Some
    (ring_read (kf_store f) (kfifo_cap f * unat (kf_esize f))
      (unat off mod kfifo_cap f * unat (kf_esize f)) (unat len * unat (kf_esize f)) @
     drop (unat len * unat (kf_esize f)) dst)"
proof -
  obtain off' len' l where span: "kfifo_span f len off = (off', len', l)"
    by (metis prod_cases3)
  note eqs = kfifo_span_eq [OF wf len span]
  have d: "kfifo_cap f * unat (kf_esize f) \<le> length (kf_store f)"
    using wf by (simp add: kfifo_wf_def)
  have N: "unat len' \<le> kfifo_cap f * unat (kf_esize f)"
    using len by (simp add: eqs(2))
  have b: "unat l \<le> unat len'" "unat off' + unat l \<le> length (kf_store f)"
    "unat len' - unat l \<le> length (kf_store f)"
    using eqs(5) d N unfolding eqs(3) by linarith+
  have "kfifo_copy_out f dst len off = Some
    ((take (unat l) (drop (unat off') (kf_store f)) @ take (unat len' - unat l) (kf_store f)) @
      drop (unat len') dst)"
    using b dst eqs(4)
    by (simp add: kfifo_copy_out_def span Let_def mem_simps min_absorb2 flip: eqs(2))
  then show ?thesis
    using ring_read_two_parts [OF eqs(5) N d] by (simp flip: eqs(1,2,3))
qed

section \<open>Publishing written and read elements\<close>

lemma kfifo_commit_in:
  assumes wf: "kfifo_wf f" and bs: "length bs = m * unat (kf_esize f)" "kfifo_used f + m \<le> kfifo_cap f"
    and n: "unat n \<le> m"
    and f': "f' = (kf_set_store f (ring_write (kf_store f) (kfifo_cap f * unat (kf_esize f))
      (unat (kf_in f) mod kfifo_cap f * unat (kf_esize f)) bs))\<lparr>kf_in := kf_in f + n\<rparr>"
  shows "kfifo_wf f'" "kfifo_bytes f' = kfifo_bytes f @ take (unat n * unat (kf_esize f)) bs"
    "kfifo_cap f' = kfifo_cap f" "kfifo_used f' = kfifo_used f + unat n"
    "kf_esize f' = kf_esize f" "kf_out f' = kf_out f" "kf_in f' = kf_in f + n"
proof -
  let ?E = "unat (kf_esize f)" and ?N = "kfifo_cap f * unat (kf_esize f)"
  let ?p = "unat (kf_out f) mod kfifo_cap f * unat (kf_esize f)"
  let ?q = "unat (kf_in f) mod kfifo_cap f * unat (kf_esize f)"
  note pos = kfifo_wf_pos [OF wf]
  have d: "?N \<le> length (kf_store f)" "kf_data f \<noteq> None" using wf by (simp_all add: kfifo_wf_def)
  have pN: "?p < ?N" "?q < ?N" using pos by simp_all
  have fit: "kfifo_used f * ?E + length bs \<le> ?N"
    using bs by (simp add: add_mult_distrib [symmetric])
  have u: "kfifo_used (f\<lparr>kf_in := kf_in f + n\<rparr>) = kfifo_used f + unat n"
    using wf n bs(2) by (intro kfifo_used_in) simp_all
  show used: "kfifo_used f' = kfifo_used f + unat n"
    using u by (simp add: f' kfifo_used_def)
  show cap: "kfifo_cap f' = kfifo_cap f" and esz: "kf_esize f' = kf_esize f"
    and outf: "kf_out f' = kf_out f" and "kf_in f' = kf_in f + n" by (simp_all add: f')
  have st: "kf_store f' = ring_write (kf_store f) ?N ?q bs"
    using d by (simp add: f')
  have "kfifo_used f + unat n \<le> kfifo_cap f" using n bs(2) by simp
  moreover have "length bs \<le> ?N" using fit by simp
  ultimately show "kfifo_wf f'"
    using wf pN d used by (simp add: kfifo_wf_def f' kfifo_cap_def)
  have "kfifo_bytes f' = ring_read (ring_write (kf_store f) ?N ?q bs) ?N ?p
      ((kfifo_used f + unat n) * ?E)"
    by (simp add: kfifo_bytes_def Let_def cap esz outf used st)
  also have "\<dots> = take ((kfifo_used f + unat n) * ?E)
      (ring_read (ring_write (kf_store f) ?N ?q bs) ?N ?p (kfifo_used f * ?E + length bs))"
    using n bs(1) by (simp add: take_ring_read min_absorb1 add_mult_distrib)
  also have "\<dots> = take ((kfifo_used f + unat n) * ?E) (kfifo_bytes f @ bs)"
    unfolding kfifo_in_byte_pos [OF wf]
    by (subst ring_read_write_append [OF pN(1) fit d(1)]) (simp add: kfifo_bytes_def Let_def)
  finally show "kfifo_bytes f' = kfifo_bytes f @ take (unat n * ?E) bs"
    by (simp add: add_mult_distrib kfifo_bytes_def Let_def)
qed

lemma kfifo_commit_out:
  assumes wf: "kfifo_wf f" and n: "unat n \<le> kfifo_used f"
    and f': "f' = f\<lparr>kf_out := kf_out f + n\<rparr>"
  shows "kfifo_wf f'" "kfifo_bytes f' = drop (unat n * unat (kf_esize f)) (kfifo_bytes f)"
    "kfifo_cap f' = kfifo_cap f" "kfifo_used f' = kfifo_used f - unat n"
proof -
  let ?E = "unat (kf_esize f)" and ?N = "kfifo_cap f * unat (kf_esize f)"
  let ?p = "unat (kf_out f) mod kfifo_cap f * unat (kf_esize f)"
  show used: "kfifo_used f' = kfifo_used f - unat n"
    using n by (simp add: f' kfifo_used_out)
  show cap: "kfifo_cap f' = kfifo_cap f" by (simp add: f')
  show "kfifo_wf f'"
    using wf n used unfolding kfifo_wf_def cap by (auto simp: f')
  have "unat (kf_out f + n) mod kfifo_cap f * ?E = (?p + unat n * ?E) mod ?N"
    by (simp add: kfifo_out_pos [OF wf] mult_mod_left [symmetric]
        add_mult_distrib [symmetric] mod_add_left_eq)
  then have "kfifo_bytes f' = ring_read (kf_store f) ?N ((?p + unat n * ?E) mod ?N)
      ((kfifo_used f - unat n) * ?E)"
    unfolding kfifo_bytes_def Let_def used cap by (simp add: f')
  then show "kfifo_bytes f' = drop (unat n * ?E) (kfifo_bytes f)"
    by (simp add: kfifo_bytes_def Let_def drop_ring_read diff_mult_distrib)
qed

lemma length_kfifo_bytes: "length (kfifo_bytes f) = kfifo_used f * unat (kf_esize f)"
  by (simp add: kfifo_bytes_def Let_def)

lemma kfifo_peek_bytes:
  assumes "m \<le> kfifo_used f"
  shows "ring_read (kf_store f) (kfifo_cap f * unat (kf_esize f))
      (unat (kf_out f) mod kfifo_cap f * unat (kf_esize f)) (m * unat (kf_esize f)) =
    take (m * unat (kf_esize f)) (kfifo_bytes f)"
  using assms by (simp add: kfifo_bytes_def Let_def take_ring_read min_absorb1)

section \<open>Operations on elements\<close>

lemma word_clip_eq: "(if len > l then l else len) = min len l" for len l :: u32
  by (auto simp: min_def)

lemma fifo_in_eq:
  assumes wf: "kfifo_wf f" and n: "n = min (unat len) (kfifo_cap f - kfifo_used f)"
    and buf: "n * unat (kf_esize f) \<le> length buf"
  obtains w where "unat w = n" "fifo_in f buf len = Some ((kf_set_store f
    (ring_write (kf_store f) (kfifo_cap f * unat (kf_esize f))
      (unat (kf_in f) mod kfifo_cap f * unat (kf_esize f))
      (take (n * unat (kf_esize f)) buf)))\<lparr>kf_in := kf_in f + w\<rparr>, w)"
proof -
  let ?w = "min len (kfifo_unused f)"
  have w: "unat ?w = n" by (simp add: n unat_min kfifo_unused_eq [OF wf])
  then have c: "unat ?w \<le> kfifo_cap f" by (simp add: n)
  show thesis
    using that [OF w] buf w kfifo_copy_in_eq [OF wf c, of buf "kf_in f"]
    by (simp add: fifo_in_def Let_def word_clip_eq)
qed

lemma fifo_in_result:
  assumes wf: "kfifo_wf f" and n: "n = min (unat len) (kfifo_cap f - kfifo_used f)"
    and buf: "n * unat (kf_esize f) \<le> length buf"
  obtains f' w where "fifo_in f buf len = Some (f', w)" "unat w = n" "kfifo_wf f'"
    "kfifo_bytes f' = kfifo_bytes f @ take (n * unat (kf_esize f)) buf"
    "kfifo_cap f' = kfifo_cap f" "kfifo_used f' = kfifo_used f + n"
    "kf_esize f' = kf_esize f" "kf_out f' = kf_out f"
proof -
  obtain w where w: "unat w = n" and eq: "fifo_in f buf len = Some ((kf_set_store f
    (ring_write (kf_store f) (kfifo_cap f * unat (kf_esize f))
      (unat (kf_in f) mod kfifo_cap f * unat (kf_esize f))
      (take (n * unat (kf_esize f)) buf)))\<lparr>kf_in := kf_in f + w\<rparr>, w)"
    by (rule fifo_in_eq [OF assms])
  have bs: "length (take (n * unat (kf_esize f)) buf) = n * unat (kf_esize f)"
    using buf by simp
  have le: "kfifo_used f + n \<le> kfifo_cap f" "unat w \<le> n"
    using wf w by (auto simp: n kfifo_wf_def)
  show thesis
    using that [OF eq w] kfifo_commit_in [OF wf bs le refl] w by simp
qed

lemma fifo_out_peek_result:
  assumes wf: "kfifo_wf f" and n: "n = min (unat len) (kfifo_used f)"
    and buf: "n * unat (kf_esize f) \<le> length buf"
  obtains w where "unat w = n"
    "fifo_out_peek f buf len = Some (take (n * unat (kf_esize f)) (kfifo_bytes f) @
      drop (n * unat (kf_esize f)) buf, w)"
proof -
  let ?w = "min len (kf_in f - kf_out f)"
  have w: "unat ?w = n" by (simp add: n unat_min kfifo_used_def)
  have u: "n \<le> kfifo_used f" by (simp add: n)
  have c: "unat ?w \<le> kfifo_cap f" unfolding w using wf u by (simp add: kfifo_wf_def)
  show thesis
    using that [OF w] buf kfifo_copy_out_eq [OF wf c, of buf "kf_out f"]
    by (simp add: fifo_out_peek_def Let_def word_clip_eq w kfifo_peek_bytes [OF u])
qed

lemma fifo_out_result:
  assumes wf: "kfifo_wf f" and n: "n = min (unat len) (kfifo_used f)"
    and buf: "n * unat (kf_esize f) \<le> length buf"
  obtains f' w where "unat w = n"
    "fifo_out f buf len = Some (f', take (n * unat (kf_esize f)) (kfifo_bytes f) @
      drop (n * unat (kf_esize f)) buf, w)" "kfifo_wf f'"
    "kfifo_bytes f' = drop (n * unat (kf_esize f)) (kfifo_bytes f)"
    "kfifo_cap f' = kfifo_cap f" "kfifo_used f' = kfifo_used f - n"
    "kf_esize f' = kf_esize f" "kf_in f' = kf_in f"
proof -
  obtain w where w: "unat w = n" and eq: "fifo_out_peek f buf len =
      Some (take (n * unat (kf_esize f)) (kfifo_bytes f) @ drop (n * unat (kf_esize f)) buf, w)"
    by (rule fifo_out_peek_result [OF assms])
  have le: "unat w \<le> kfifo_used f" using w by (simp add: n)
  show thesis
    using that [OF w] eq kfifo_commit_out [OF wf le refl] w by (simp add: fifo_out_def)
qed

section \<open>Allocation\<close>

lemma pow2_ge_2: "2 ^ k < (2 :: u32) \<longleftrightarrow> k = 0" if "k < 32"
proof -
  have "2 ^ k < (2 :: u32) \<longleftrightarrow> (2 :: nat) ^ k < 2 ^ 1"
    using that by (simp add: word_less_nat_alt unat_pow2_32)
  also have "\<dots> \<longleftrightarrow> k < 1" by (rule power_strict_increasing_iff) simp
  finally show ?thesis by simp
qed

lemma kfifo_fresh_wf:
  assumes "0 < k" "k < 32" "0 < unat esize" "2 ^ k * unat esize < 2 ^ 32"
    "2 ^ k * unat esize \<le> length d"
    and f: "kf_in f = 0" "kf_out f = 0" "kf_mask f = 2 ^ k - 1" "kf_esize f = esize"
      "kf_data f = Some (a, d)"
  shows "kfifo_wf f" "kfifo_bytes f = []" "kfifo_cap f = 2 ^ k"
proof -
  have u: "unat (2 ^ k - 1 :: u32) = 2 ^ k - 1"
    using assms(2) by (simp add: unat_sub_no_wrap unat_pow2_32)
  show c: "kfifo_cap f = 2 ^ k" by (simp add: kfifo_cap_def f u)
  have z: "kfifo_used f = 0" by (simp add: kfifo_used_def f)
  have "1 \<le> kf_mask f"
    using assms(1) u self_le_power [of "2::nat" k] by (simp add: f word_le_nat_alt le_diff_conv2)
  then show "kfifo_wf f"
    using assms(2-5) unfolding kfifo_wf_def c z
    by (auto simp: f kf_store_def is_power_of_2_iff word_less_nat_alt)
  show "kfifo_bytes f = []" by (simp add: kfifo_bytes_def Let_def z)
qed

lemma fifo_alloc_cases:
  assumes sz: "0 < sz" "unat sz \<le> 2 ^ 31"
  obtains k where "k < 32" "unat sz \<le> 2 ^ k" "2 ^ k < 2 * unat sz"
    "k = 0 \<Longrightarrow> fifo_alloc L f sz esize g h =
       Some (f\<lparr>kf_in := 0, kf_out := 0, kf_esize := esize, kf_data := None, kf_mask := 0\<rparr>,
         - EINVAL, h)"
    "\<And>h'. 0 < k \<Longrightarrow> kmalloc L False (2 ^ k * esize) g h = (None, h') \<Longrightarrow>
       fifo_alloc L f sz esize g h =
       Some (f\<lparr>kf_in := 0, kf_out := 0, kf_esize := esize, kf_data := None, kf_mask := 0\<rparr>,
         - ENOMEM, h')"
    "\<And>a d h'. 0 < k \<Longrightarrow> kmalloc L False (2 ^ k * esize) g h = (Some (a, d), h') \<Longrightarrow>
       fifo_alloc L f sz esize g h =
       Some (f\<lparr>kf_in := 0, kf_out := 0, kf_esize := esize, kf_data := Some (a, d),
         kf_mask := 2 ^ k - 1\<rparr>, 0, h')"
proof -
  obtain k where k: "k < 32" "roundup_pow_of_two False sz = Some (2 ^ k)"
    "unat sz \<le> 2 ^ k" "2 ^ k < 2 * unat sz"
    using roundup_pow2 [OF sz, of False] by blast
  show thesis
    by (rule that [OF k(1,3,4)]) (simp_all add: fifo_alloc_def k(2) pow2_ge_2 [OF k(1)])
qed

lemma fifo_init_cases:
  assumes n: "n = unat sz div unat esize" "0 < n" "n \<le> 2 ^ 31" "0 < esize"
  obtains k where "k < 32" "n \<le> 2 ^ k" "2 ^ k < 2 * n"
    "fifo_init f buffer sz esize =
       (if k = 0 then Some (f\<lparr>kf_in := 0, kf_out := 0, kf_esize := esize, kf_data := buffer,
          kf_mask := 0\<rparr>, - EINVAL)
        else Some (f\<lparr>kf_in := 0, kf_out := 0, kf_esize := esize, kf_data := buffer,
          kf_mask := 2 ^ k - 1\<rparr>, 0))"
proof -
  have u: "unat (sz div esize) = n" using n by (simp add: unat_div)
  have "0 < sz div esize" using n(2) u by (simp add: word_less_nat_alt)
  then obtain k where k: "k < 32" "roundup_pow_of_two False (sz div esize) = Some (2 ^ k)"
    "n \<le> 2 ^ k" "2 ^ k < 2 * n"
    using roundup_pow2 [of "sz div esize" False] n(3) u by auto
  show thesis
    using n(4) by (intro that [OF k(1,3,4)]) (auto simp: fifo_init_def k(2) pow2_ge_2 [OF k(1)])
qed

section \<open>Properties\<close>

text \<open>
  C3. \<open>__kfifo_in\<close> on any initialised fifo, whatever its counters, returns the number of
  elements that were asked for or that are free, whichever is less; it appends exactly those
  elements of the buffer to the stored sequence and keeps the invariant and the capacity.
\<close>

theorem fifo_in_appends:
  assumes "kfifo_wf f"
    and "n = min (unat len) (kfifo_cap f - kfifo_used f)"
    and "n * unat (kf_esize f) \<le> length buf"
  shows "\<exists>f' w. fifo_in f buf len = Some (f', w) \<and> unat w = n \<and> kfifo_wf f' \<and>
    kfifo_bytes f' = kfifo_bytes f @ take (n * unat (kf_esize f)) buf \<and>
    kfifo_cap f' = kfifo_cap f"
  using assms by (rule fifo_in_result) blast

definition sample_fifo :: kfifo where
  "sample_fifo = \<lparr>kf_in = 1, kf_out = 0xFFFFFFFF, kf_mask = 3, kf_esize = 2,
     kf_data = Some (0x1000, [10, 11, 20, 21, 30, 31, 40, 41])\<rparr>"

lemma sample_fifo_facts:
  "kfifo_wf sample_fifo" "kfifo_cap sample_fifo = 4" "kfifo_used sample_fifo = 2"
  "kf_esize sample_fifo = 2"
  by (simp_all add: kfifo_wf_def kfifo_cap_def kfifo_used_def sample_fifo_def kf_store_def
      is_power_of_2_def)

lemma sample_fifo_bytes: "kfifo_bytes sample_fifo = [40, 41, 10, 11]"
  by (simp add: kfifo_bytes_def ring_read_def sample_fifo_facts Let_def)
    (simp add: sample_fifo_def kf_store_def upt_rec)

theorem fifo_in_appends_witness:
  "\<exists>f' w. fifo_in sample_fifo [1, 2, 3, 4, 5, 6] 3 = Some (f', w) \<and> unat w = 2 \<and>
    kfifo_bytes f' = [40, 41, 10, 11, 1, 2, 3, 4]"
  using fifo_in_appends [of sample_fifo 2 3 "[1, 2, 3, 4, 5, 6]"]
  by (auto simp: sample_fifo_facts sample_fifo_bytes)

text \<open>
  C4. \<open>__kfifo_out\<close> returns the number of elements that were asked for or that are stored,
  whichever is less; it writes the oldest stored elements to the front of the destination,
  leaves the rest of the destination alone, and removes exactly those elements.
\<close>

theorem fifo_out_removes:
  assumes "kfifo_wf f"
    and "n = min (unat len) (kfifo_used f)"
    and "n * unat (kf_esize f) \<le> length buf"
  shows "\<exists>f' w. unat w = n \<and>
    fifo_out f buf len = Some (f', take (n * unat (kf_esize f)) (kfifo_bytes f) @
      drop (n * unat (kf_esize f)) buf, w) \<and>
    kfifo_wf f' \<and> kfifo_bytes f' = drop (n * unat (kf_esize f)) (kfifo_bytes f) \<and>
    kfifo_cap f' = kfifo_cap f"
  using assms by (rule fifo_out_result) blast

theorem fifo_out_removes_witness:
  "\<exists>f' w. fifo_out sample_fifo [0, 0, 0] 1 = Some (f', [40, 41, 0], w) \<and> unat w = 1 \<and>
    kfifo_bytes f' = [10, 11]"
  using fifo_out_removes [of sample_fifo 1 1 "[0, 0, 0]"]
  by (auto simp: sample_fifo_facts sample_fifo_bytes)

text \<open>
  C14. \<open>__kfifo_alloc\<close> with at least two elements and a size in bytes that fits 32 bits either
  fails with \<open>-ENOMEM\<close>, leaving a fifo without storage, or returns 0 and an empty
  initialised fifo whose capacity is the least power of two that is not below the request.
\<close>

theorem fifo_alloc_result:
  assumes "malloc_ok L" "2 \<le> unat sz" "unat sz \<le> 2 ^ 31" "0 < esize"
    and "2 * unat sz * unat esize \<le> 2 ^ 32"
  shows "\<exists>f' r h'. fifo_alloc L f sz esize g h = Some (f', r, h') \<and>
    (r = - ENOMEM \<and> kf_data f' = None \<or>
     r = 0 \<and> kfifo_wf f' \<and> kfifo_bytes f' = [] \<and> kf_esize f' = esize \<and>
       unat sz \<le> kfifo_cap f' \<and> kfifo_cap f' < 2 * unat sz)"
proof -
  have "0 < sz" using assms(2) by (auto simp: word_less_nat_alt)
  then obtain k where k: "k < 32" "unat sz \<le> 2 ^ k" "2 ^ k < 2 * unat sz"
    and eq: "\<And>h'. 0 < k \<Longrightarrow> kmalloc L False (2 ^ k * esize) g h = (None, h') \<Longrightarrow>
       fifo_alloc L f sz esize g h =
       Some (f\<lparr>kf_in := 0, kf_out := 0, kf_esize := esize, kf_data := None, kf_mask := 0\<rparr>,
         - ENOMEM, h')"
    "\<And>a d h'. 0 < k \<Longrightarrow> kmalloc L False (2 ^ k * esize) g h = (Some (a, d), h') \<Longrightarrow>
       fifo_alloc L f sz esize g h =
       Some (f\<lparr>kf_in := 0, kf_out := 0, kf_esize := esize, kf_data := Some (a, d),
         kf_mask := 2 ^ k - 1\<rparr>, 0, h')"
    using fifo_alloc_cases [of sz L f esize g h] assms(3) by metis
  have k0: "0 < k" using k(2) assms(2) by (cases k) simp_all
  have e: "0 < unat esize" using assms(4) by (simp add: word_less_nat_alt)
  have fit: "2 ^ k * unat esize < 2 ^ 32"
    using k(3) e assms(5) by (meson less_le_trans mult_less_mono1)
  have u: "unat (2 ^ k * esize) = 2 ^ k * unat esize"
    using fit by (simp add: unat_mult_no_wrap unat_pow2_32 [OF k(1)])
  show ?thesis
  proof (cases "kmalloc L False (2 ^ k * esize) g h")
    case (Pair r h')
    show ?thesis
    proof (cases r)
      case None
      with Pair eq(1) [OF k0] show ?thesis by simp
    next
      case (Some b)
      obtain a d where b: "b = (a, d)" by (cases b)
      have "length d = 2 ^ k * unat esize"
        using kmalloc_size [OF assms(1)] Pair Some b u by fastforce
      with k e k0 fit Pair Some b eq(2) [OF k0] show ?thesis
        by (simp add: kfifo_fresh_wf [where k = k and a = a and d = d])
    qed
  qed
qed

theorem fifo_alloc_result_witness:
  "\<exists>f' r h'. fifo_alloc bump_libc sample_fifo 5 2 GFP_KERNEL 0 = Some (f', r, h') \<and>
    (r = - ENOMEM \<and> kf_data f' = None \<or>
     r = 0 \<and> kfifo_wf f' \<and> kfifo_bytes f' = [] \<and> kf_esize f' = 2 \<and>
       5 \<le> kfifo_cap f' \<and> kfifo_cap f' < 10)"
  using fifo_alloc_result [OF bump_libc_ok, of 5 2 sample_fifo GFP_KERNEL 0] by simp

text \<open>
  The size in bytes of a fifo is computed in 32 bits. When it does not fit, an allocation
  that reports success gives a fifo whose storage is smaller than its capacity, so that a
  later copy leaves the allocated object.
\<close>

theorem fifo_alloc_overflow:
  assumes "malloc_ok L" "2 \<le> unat sz" "unat sz \<le> 2 ^ 31" "2 ^ 32 \<le> unat sz * unat esize"
    and "fifo_alloc L f sz esize g h = Some (f', 0, h')"
  shows "length (kf_store f') < kfifo_cap f' * unat (kf_esize f') \<and> \<not> kfifo_wf f'"
proof -
  have "0 < sz" using assms(2) by (auto simp: word_less_nat_alt)
  then obtain k where k: "k < 32" "unat sz \<le> 2 ^ k"
    and eq: "\<And>h'. 0 < k \<Longrightarrow> kmalloc L False (2 ^ k * esize) g h = (None, h') \<Longrightarrow>
       fifo_alloc L f sz esize g h =
       Some (f\<lparr>kf_in := 0, kf_out := 0, kf_esize := esize, kf_data := None, kf_mask := 0\<rparr>,
         - ENOMEM, h')"
    "\<And>a d h'. 0 < k \<Longrightarrow> kmalloc L False (2 ^ k * esize) g h = (Some (a, d), h') \<Longrightarrow>
       fifo_alloc L f sz esize g h =
       Some (f\<lparr>kf_in := 0, kf_out := 0, kf_esize := esize, kf_data := Some (a, d),
         kf_mask := 2 ^ k - 1\<rparr>, 0, h')"
    using fifo_alloc_cases [of sz L f esize g h] assms(3) by metis
  have k0: "0 < k" using k(2) assms(2) by (cases k) simp_all
  obtain a d h2 where m: "kmalloc L False (2 ^ k * esize) g h = (Some (a, d), h2)"
    using assms(5) eq(1) [OF k0]
    by (cases "fst (kmalloc L False (2 ^ k * esize) g h)";
        cases "kmalloc L False (2 ^ k * esize) g h") (auto simp: errno_defs)
  have f': "f' = f\<lparr>kf_in := 0, kf_out := 0, kf_esize := esize, kf_data := Some (a, d),
      kf_mask := 2 ^ k - 1\<rparr>"
    using eq(2) [OF k0 m] assms(5) by simp
  have "unat (2 ^ k - 1 :: u32) = 2 ^ k - 1"
    using k(1) by (simp add: unat_sub_no_wrap unat_pow2_32)
  then have c: "kfifo_cap f' = 2 ^ k" by (simp add: f' kfifo_cap_def)
  have "length (kf_store f') < 2 ^ 32"
    using kmalloc_size [OF assms(1) m] unat_less_word [of "2 ^ k * esize"]
    by (simp add: f' kf_store_def)
  moreover have "2 ^ 32 \<le> kfifo_cap f' * unat (kf_esize f')"
    using order_trans [OF assms(4) mult_le_mono1 [OF k(2)]] unfolding c by (simp add: f')
  ultimately show ?thesis by (simp add: kfifo_wf_def)
qed

theorem fifo_alloc_overflow_witness:
  "\<exists>f' h'. fifo_alloc bump_libc sample_fifo 0x80000000 2 GFP_KERNEL 0 = Some (f', 0, h') \<and>
    length (kf_store f') < kfifo_cap f' * unat (kf_esize f')"
proof -
  have "roundup_pow_of_two False 0x80000000 = Some 0x80000000"
    by (rule roundup_power_of_2) (simp add: is_power_of_2_def)
  then obtain f' h' where
    a: "fifo_alloc bump_libc sample_fifo 0x80000000 2 GFP_KERNEL 0 = Some (f', 0, h')"
    by (simp add: fifo_alloc_def bump_libc_def kmalloc_def kmalloc_rt_def GFP_KERNEL_def
        GFP_ZERO_def)
  with fifo_alloc_overflow [OF bump_libc_ok, of "0x80000000" 2 sample_fifo GFP_KERNEL 0 f' h']
  show ?thesis by simp
qed

text \<open>
  \<open>__kfifo_init\<close> rounds the number of elements of the caller's buffer up: unless that
  number is a power of two, the fifo it reports as initialised reaches beyond the buffer.
  When the number is a power of two, the fifo is initialised, empty and as large as the buffer.
\<close>

theorem fifo_init_capacity:
  assumes "n = unat sz div unat esize" "2 \<le> n" "n \<le> 2 ^ 31" "0 < esize"
    and "length d = unat sz"
  shows "\<exists>f'. fifo_init f (Some (a, d)) sz esize = Some (f', 0) \<and>
    (if \<exists>k. n = 2 ^ k
     then kfifo_wf f' \<and> kfifo_bytes f' = [] \<and> kfifo_cap f' = n
     else length (kf_store f') < kfifo_cap f' * unat (kf_esize f'))"
proof -
  have "0 < n" using assms(2) by simp
  then obtain k where k: "k < 32" "n \<le> 2 ^ k" "2 ^ k < 2 * n"
    and eq: "fifo_init f (Some (a, d)) sz esize =
       (if k = 0 then Some (f\<lparr>kf_in := 0, kf_out := 0, kf_esize := esize,
          kf_data := Some (a, d), kf_mask := 0\<rparr>, - EINVAL)
        else Some (f\<lparr>kf_in := 0, kf_out := 0, kf_esize := esize, kf_data := Some (a, d),
          kf_mask := 2 ^ k - 1\<rparr>, 0))"
    using fifo_init_cases [OF assms(1) _ assms(3,4), of f "Some (a, d)"] by metis
  let ?f = "f\<lparr>kf_in := 0, kf_out := 0, kf_esize := esize, kf_data := Some (a, d),
      kf_mask := 2 ^ k - 1\<rparr>"
  have k0: "0 < k" using k(2) assms(2) by (cases k) simp_all
  have e: "0 < unat esize" using assms(4) by (simp add: word_less_nat_alt)
  have le: "n * unat esize \<le> unat sz" unfolding assms(1) by simp
  show ?thesis
  proof (cases "\<exists>j. n = 2 ^ j")
    case True
    then obtain j where j: "n = 2 ^ j" by blast
    have n: "n = 2 ^ k"
    proof (rule ccontr)
      assume "n \<noteq> 2 ^ k"
      with k(2) j have "j < k"
        by (metis le_neq_implies_less power_strict_increasing_iff one_less_numeral_iff semiring_norm(76))
      then have "2 * n \<le> 2 ^ k" using power_increasing [of "Suc j" k "2::nat"] by (simp add: j)
      with k(3) show False by simp
    qed
    have "2 ^ k * unat esize < 2 ^ 32"
      using le unat_less_word [of sz] by (simp add: n)
    then have "kfifo_wf ?f \<and> kfifo_bytes ?f = [] \<and> kfifo_cap ?f = n"
      using kfifo_fresh_wf [OF k0 k(1) e, of d ?f a] le assms(5) n by simp
    with True k0 eq show ?thesis by simp
  next
    case False
    with k(2) have "n < 2 ^ k" using le_neq_implies_less by blast
    then have "(n + 1) * unat esize \<le> 2 ^ k * unat esize" by (intro mult_le_mono1) simp
    moreover have "unat sz < (n + 1) * unat esize"
      using e unfolding assms(1) by (simp add: dividend_less_div_times)
    moreover have "kfifo_cap ?f = 2 ^ k"
      using k(1) by (simp add: kfifo_cap_def unat_sub_no_wrap unat_pow2_32)
    ultimately show ?thesis using False k0 eq assms(5) by (simp add: kf_store_def)
  qed
qed

theorem fifo_init_capacity_witness:
  "\<exists>f'. fifo_init sample_fifo (Some (0x2000, [1, 2, 3])) 3 1 = Some (f', 0) \<and>
    length (kf_store f') < kfifo_cap f' * unat (kf_esize f')"
proof -
  have "(3::nat) \<noteq> 2 ^ k" for k by (cases k) (simp, simp, presburger)
  with fifo_init_capacity [of 3 3 1 "[1, 2, 3]" sample_fifo "0x2000"] show ?thesis by auto
qed

end
