(* ===== verification/Kfifo_Record.thy ===== *)
theory Kfifo_Record
  imports Kfifo
begin

text \<open>
  The generic fifo of \<open>fifo.c\<close>, second part: records of varying length in a byte fifo. A
  record is stored as its length in one or two bytes, low byte first, followed by its
  bytes. \<open>holds_records R f rs\<close> says that \<open>f\<close> contains exactly the records \<open>rs\<close> with
  \<open>R\<close>-byte lengths; the operations refine those of a queue of records as long as the
  lengths that are put fit the length field. \<open>__kfifo_in_r\<close> does not check that they fit.
\<close>

section \<open>Definitions\<close>

text \<open>\<open>__kfifo_max_r\<close>; the shift is undefined for length fields of four bytes and more.\<close>

definition fifo_max_r :: "u32 \<Rightarrow> u32 \<Rightarrow> u32 option" where
  "fifo_max_r len recsize =
     (let s = push_bit 3 recsize
      in if s \<ge> 32 then None
         else let m = push_bit (unat s) 1 - 1
              in if len > m then Some m else Some len)"

definition KFIFO_PEEK :: "kfifo \<Rightarrow> u32 \<Rightarrow> u8 option" where
  "KFIFO_PEEK f i =
     (let j = unat (i AND kf_mask f)
      in if j < length (kf_store f) then Some (kf_store f ! j) else None)"

definition kfifo_peek_n :: "kfifo \<Rightarrow> u32 \<Rightarrow> u32 option" where
  "kfifo_peek_n f recsize =
     do { l \<leftarrow> KFIFO_PEEK f (kf_out f);
          if recsize - 1 \<noteq> 0
          then do { l' \<leftarrow> KFIFO_PEEK f (kf_out f + 1);
                    Some (ucast l OR push_bit 8 (ucast l')) }
          else Some (ucast l) }"

definition KFIFO_POKE :: "kfifo \<Rightarrow> u32 \<Rightarrow> u32 \<Rightarrow> kfifo option" where
  "KFIFO_POKE f i val =
     (let j = unat (i AND kf_mask f)
      in if j < length (kf_store f)
         then Some (kf_set_store f ((kf_store f)[j := ucast val])) else None)"

definition kfifo_poke_n :: "kfifo \<Rightarrow> u32 \<Rightarrow> u32 \<Rightarrow> kfifo option" where
  "kfifo_poke_n f n recsize =
     do { f \<leftarrow> KFIFO_POKE f (kf_in f) n;
          if recsize > 1 then KFIFO_POKE f (kf_in f + 1) (drop_bit 8 n) else Some f }"

definition fifo_len_r :: "kfifo \<Rightarrow> u32 \<Rightarrow> u32 option" where
  "fifo_len_r f recsize = kfifo_peek_n f recsize"

definition fifo_in_r :: "kfifo \<Rightarrow> u8 list \<Rightarrow> u32 \<Rightarrow> u32 \<Rightarrow> (kfifo \<times> u32) option" where
  "fifo_in_r f buf len recsize =
     (if len + recsize > kfifo_unused f then Some (f, 0)
      else do { f \<leftarrow> kfifo_poke_n f len recsize;
                f \<leftarrow> kfifo_copy_in f buf len (kf_in f + recsize);
                Some (f\<lparr>kf_in := kf_in f + (len + recsize)\<rparr>, len) })"

definition kfifo_out_copy_r ::
  "kfifo \<Rightarrow> u8 list \<Rightarrow> u32 \<Rightarrow> u32 \<Rightarrow> (u8 list \<times> u32 \<times> u32) option" where
  "kfifo_out_copy_r f buf len recsize =
     do { n \<leftarrow> kfifo_peek_n f recsize;
          let len = (if len > n then n else len);
          buf \<leftarrow> kfifo_copy_out f buf len (kf_out f + recsize);
          Some (buf, len, n) }"

definition fifo_out_peek_r ::
  "kfifo \<Rightarrow> u8 list \<Rightarrow> u32 \<Rightarrow> u32 \<Rightarrow> (u8 list \<times> u32) option" where
  "fifo_out_peek_r f buf len recsize =
     (if kf_in f = kf_out f then Some (buf, 0)
      else do { (buf, len, n) \<leftarrow> kfifo_out_copy_r f buf len recsize;
                Some (buf, len) })"

definition fifo_out_r ::
  "kfifo \<Rightarrow> u8 list \<Rightarrow> u32 \<Rightarrow> u32 \<Rightarrow> (kfifo \<times> u8 list \<times> u32) option" where
  "fifo_out_r f buf len recsize =
     (if kf_in f = kf_out f then Some (f, buf, 0)
      else do { (buf, len, n) \<leftarrow> kfifo_out_copy_r f buf len recsize;
                Some (f\<lparr>kf_out := kf_out f + (n + recsize)\<rparr>, buf, len) })"

definition fifo_skip_r :: "kfifo \<Rightarrow> u32 \<Rightarrow> kfifo option" where
  "fifo_skip_r f recsize =
     do { n \<leftarrow> kfifo_peek_n f recsize;
          Some (f\<lparr>kf_out := kf_out f + (n + recsize)\<rparr>) }"

section \<open>Abstraction\<close>

text \<open>The length field of a record, and the record with it.\<close>

definition rec_len :: "u32 \<Rightarrow> u32 \<Rightarrow> u8 list" where
  "rec_len R n = (if R > 1 then [ucast n, ucast (drop_bit 8 n)] else [ucast n])"

definition rec_enc :: "u32 \<Rightarrow> u8 list \<Rightarrow> u8 list" where
  "rec_enc R r = rec_len R (of_nat (length r)) @ r"

definition byte_fifo :: "kfifo \<Rightarrow> bool" where
  "byte_fifo f \<longleftrightarrow> kfifo_wf f \<and> kf_esize f = 1"

definition holds_records :: "u32 \<Rightarrow> kfifo \<Rightarrow> u8 list list \<Rightarrow> bool" where
  "holds_records R f rs \<longleftrightarrow>
     byte_fifo f \<and> R \<in> {1, 2} \<and> list_all (\<lambda>r. length r < 256 ^ unat R) rs \<and>
     kfifo_bytes f = concat (map (rec_enc R) rs)"

section \<open>Length fields\<close>

lemma byte_fifoD: "byte_fifo f \<Longrightarrow> kfifo_wf f" "byte_fifo f \<Longrightarrow> kf_esize f = 1"
  by (simp_all add: byte_fifo_def)

lemma length_rec_len: "R \<in> {1, 2} \<Longrightarrow> length (rec_len R n) = unat R"
  by (auto simp: rec_len_def)

lemma kfifo_mask_pos:
  assumes "kfifo_wf f"
  shows "unat (i AND kf_mask f) = unat i mod kfifo_cap f"
  by (rule kfifo_wf_capE [OF assms]) (simp add: unat_and_mask)

lemma kfifo_pos_add:
  fixes i j :: u32
  assumes "kfifo_wf f"
  shows "unat (i + j) mod kfifo_cap f = (unat i mod kfifo_cap f + unat j) mod kfifo_cap f"
  by (rule kfifo_wf_capE [OF assms]) (simp add: unat_add_mod_pow2 mod_add_left_eq)

lemma byte_fifo_store: "byte_fifo f \<Longrightarrow> kfifo_cap f \<le> length (kf_store f)"
  by (auto simp: byte_fifo_def kfifo_wf_def)

lemma byte_fifo_set_store:
  assumes "byte_fifo f" "kfifo_cap f \<le> length d"
  shows "byte_fifo (kf_set_store f d)"
  using assms by (auto simp: byte_fifo_def kfifo_wf_def)

lemma KFIFO_POKE_eq:
  assumes "byte_fifo f"
  shows "KFIFO_POKE f i v =
    Some (kf_set_store f (ring_write (kf_store f) (kfifo_cap f) (unat i mod kfifo_cap f) [ucast v]))"
proof -
  have "unat i mod kfifo_cap f < kfifo_cap f"
    using kfifo_wf_pos(2) [of f] byte_fifoD [OF assms] by simp
  then show ?thesis
    using byte_fifo_store [OF assms] byte_fifoD [OF assms]
    by (simp add: KFIFO_POKE_def kfifo_mask_pos list_update_ring_write)
qed

lemma kf_set_store_twice [simp]: "kf_set_store (kf_set_store f d) d' = kf_set_store f d'"
  by (simp add: kf_set_store_def option.map_comp o_def case_prod_unfold)

lemma kfifo_poke_n_eq:
  assumes bf: "byte_fifo f" and R: "R \<in> {1, 2}"
  shows "kfifo_poke_n f n R =
    Some (kf_set_store f (ring_write (kf_store f) (kfifo_cap f)
      (unat (kf_in f) mod kfifo_cap f) (rec_len R n)))"
proof -
  let ?N = "kfifo_cap f" and ?p = "unat (kf_in f) mod kfifo_cap f"
  have p: "?p < ?N" "2 \<le> ?N" "?N \<le> length (kf_store f)"
    using kfifo_wf_pos(2) [of f] byte_fifo_store [OF bf] byte_fifoD [OF bf] by simp_all
  let ?f = "kf_set_store f (ring_write (kf_store f) ?N ?p [ucast n])"
  have bf': "byte_fifo ?f" using p bf by (simp add: byte_fifo_set_store)
  have d: "kf_data f \<noteq> None" using bf by (simp add: byte_fifo_def kfifo_wf_def)
  have "unat (kf_in f + 1) mod ?N = (?p + 1) mod ?N"
    using kfifo_pos_add [of f "kf_in f" 1] byte_fifoD [OF bf] by simp
  then show ?thesis
    using R d p ring_write_append [OF p(1), of "[ucast n]" "[ucast (drop_bit 8 n)]" "kf_store f"]
    by (auto simp: kfifo_poke_n_def KFIFO_POKE_eq [OF bf] KFIFO_POKE_eq [OF bf'] rec_len_def)
qed

lemma KFIFO_PEEK_eq:
  assumes bf: "byte_fifo f" and i: "unat w < kfifo_used f"
  shows "KFIFO_PEEK f (kf_out f + w) = Some (kfifo_bytes f ! unat w)"
proof -
  have "unat (kf_out f + w) mod kfifo_cap f < kfifo_cap f"
    using kfifo_wf_pos(2) [of f] byte_fifoD [OF bf] by simp
  with byte_fifo_store [OF bf] byte_fifoD [OF bf] i show ?thesis
    by (simp add: KFIFO_PEEK_def kfifo_mask_pos kfifo_bytes_def Let_def kfifo_pos_add)
qed

lemma rec_len_decode_1: "ucast (ucast n :: u8) = take_bit 8 n" for n :: u32
  by (rule bit_word_eqI) (auto simp: bit_simps)

lemma rec_len_decode_2:
  "ucast (ucast n :: u8) OR push_bit 8 (ucast (ucast (drop_bit 8 n) :: u8)) = take_bit 16 n"
  for n :: u32
  by (rule bit_word_eqI) (auto simp: bit_simps)

lemma kfifo_peek_n_eq:
  assumes bf: "byte_fifo f" and R: "R \<in> {1, 2}" and bs: "kfifo_bytes f = rec_len R n @ rest"
  shows "kfifo_peek_n f R = Some (take_bit (8 * unat R) n)"
proof -
  have u: "unat R \<le> kfifo_used f"
    using arg_cong [OF bs, of length] length_rec_len [OF R, of n] byte_fifoD(2) [OF bf]
    by (simp add: length_kfifo_bytes)
  have 0: "KFIFO_PEEK f (kf_out f) = Some (kfifo_bytes f ! 0)"
    using KFIFO_PEEK_eq [OF bf, of 0] u R by auto
  show ?thesis
  proof (cases "R = 1")
    case True
    with 0 show ?thesis
      by (simp add: kfifo_peek_n_def bs rec_len_def rec_len_decode_1)
  next
    case False
    with R have R2: "R = 2" by simp
    then have "KFIFO_PEEK f (kf_out f + 1) = Some (kfifo_bytes f ! 1)"
      using KFIFO_PEEK_eq [OF bf, of 1] u by simp
    with 0 show ?thesis
      by (simp add: kfifo_peek_n_def bs rec_len_def R2 rec_len_decode_2)
  qed
qed

lemma take_bit_rec_len:
  assumes "R \<in> {1, 2 :: u32}" "unat n < 256 ^ unat R"
  shows "take_bit (8 * unat R) (n :: u32) = n"
  using assms by (auto simp: take_bit_self_iff)

lemma fifo_max_r_eq:
  assumes "R \<in> {1, 2}"
  obtains m where "fifo_max_r len R = Some m" "unat m = min (unat len) (256 ^ unat R - 1)"
proof (cases "unat len \<le> 256 ^ unat R - 1")
  case True
  with assms that [of len] show thesis
    by (auto simp: fifo_max_r_def word_less_nat_alt word_le_nat_alt)
next
  case False
  with assms that [of "if R = 1 then 255 else 65535"] show thesis
    by (auto simp: fifo_max_r_def word_less_nat_alt word_le_nat_alt)
qed

section \<open>Operations\<close>

lemma fifo_in_r_room:
  assumes bf: "byte_fifo f" and R: "R \<in> {1, 2}"
    and room: "kfifo_used f + unat len + unat R \<le> kfifo_cap f" and buf: "unat len \<le> length buf"
  obtains f' where "fifo_in_r f buf len R = Some (f', len)" "byte_fifo f'"
    "kfifo_bytes f' = kfifo_bytes f @ rec_len R len @ take (unat len) buf"
    "kfifo_cap f' = kfifo_cap f" "kfifo_used f' = kfifo_used f + unat len + unat R"
    "kf_out f' = kf_out f"
proof -
  let ?N = "kfifo_cap f" and ?p = "unat (kf_in f) mod kfifo_cap f"
  note wf = byte_fifoD [OF bf]
  have p: "?p < ?N" using kfifo_wf_pos(2) [OF wf(1)] by simp
  note st = byte_fifo_store [OF bf]
  have d: "kf_data f \<noteq> None" using wf(1) by (simp add: kfifo_wf_def)
  have lR: "unat (len + R) = unat len + unat R"
    using room kfifo_wf_cap_le [OF wf(1)] by (intro unat_add_no_wrap) simp
  then have g: "\<not> len + R > kfifo_unused f"
    using room kfifo_unused_eq [OF wf(1)] by (simp add: word_less_nat_alt)
  let ?g = "kf_set_store f (ring_write (kf_store f) ?N ?p (rec_len R len))"
  let ?bs = "rec_len R len @ take (unat len) buf"
  have fit: "length (rec_len R len) + length (take (unat len) buf) \<le> ?N"
    using room buf by (simp add: length_rec_len [OF R])
  have bg: "byte_fifo ?g" using st p fit bf by (intro byte_fifo_set_store) simp_all
  have c: "unat len \<le> kfifo_cap ?g" using room by simp
  have q: "unat (kf_in f + R) mod ?N = (?p + length (rec_len R len)) mod ?N"
    by (simp add: kfifo_pos_add [OF wf(1)] length_rec_len [OF R])
  have "kfifo_copy_in ?g buf len (kf_in f + R) = Some (kf_set_store f (ring_write (kf_store f) ?N ?p ?bs))"
    using kfifo_copy_in_eq [OF byte_fifoD(1) [OF bg] c, of buf "kf_in f + R"] d buf wf(2) q
      ring_write_append [OF p fit st] by simp
  then have eq: "fifo_in_r f buf len R = Some ((kf_set_store f
      (ring_write (kf_store f) ?N ?p ?bs))\<lparr>kf_in := kf_in f + (len + R)\<rparr>, len)"
    using g by (simp add: fifo_in_r_def kfifo_poke_n_eq [OF bf R])
  have m: "length ?bs = (unat len + unat R) * unat (kf_esize f)"
    using buf by (simp add: length_rec_len [OF R] wf(2))
  have m': "kfifo_used f + (unat len + unat R) \<le> kfifo_cap f" "unat (len + R) \<le> unat len + unat R"
    using room lR by simp_all
  note cm = kfifo_commit_in [OF wf(1) m m' refl]
  show thesis
    by (rule that [OF eq]) (use cm lR wf(2) in \<open>simp_all add: byte_fifo_def length_rec_len [OF R]\<close>)
qed

lemma fifo_in_r_no_room:
  assumes "kfifo_wf f" "kfifo_cap f < kfifo_used f + unat len + unat R"
    and "unat len + unat R < 2 ^ 32"
  shows "fifo_in_r f buf len R = Some (f, 0)"
proof -
  have "kfifo_used f \<le> kfifo_cap f" using assms(1) by (simp add: kfifo_wf_def)
  then have "len + R > kfifo_unused f"
    using assms kfifo_unused_eq [OF assms(1)] by (simp add: word_less_nat_alt unat_add_no_wrap)
  then show ?thesis by (simp add: fifo_in_r_def)
qed

lemma kfifo_out_copy_r_eq:
  assumes bf: "byte_fifo f" and R: "R \<in> {1, 2}" and bs: "kfifo_bytes f = rec_len R n @ xs"
    and n': "n' = take_bit (8 * unat R) n" "unat n' \<le> length xs"
    and m: "m = min (unat len) (unat n')" "m \<le> length buf"
  obtains w where "unat w = m"
    "kfifo_out_copy_r f buf len R = Some (take m xs @ drop m buf, w, n')"
proof -
  note wf = byte_fifoD [OF bf]
  let ?w = "min len n'"
  have w: "unat ?w = m" by (simp add: m unat_min)
  have u: "unat R + length xs = kfifo_used f"
    using arg_cong [OF bs, of length] length_rec_len [OF R, of n] wf(2)
    by (simp add: length_kfifo_bytes)
  have mx: "m \<le> length xs" using m n' by simp
  have c: "unat ?w \<le> kfifo_cap f"
    unfolding w using mx u wf(1) by (simp add: kfifo_wf_def)
  have "take m (drop (unat R) (kfifo_bytes f)) =
      ring_read (kf_store f) (kfifo_cap f) (unat (kf_out f + R) mod kfifo_cap f) m"
    using mx u wf(2)
    by (simp add: kfifo_bytes_def Let_def drop_ring_read take_ring_read kfifo_pos_add [OF wf(1)]
        min_absorb1)
  then have "kfifo_copy_out f buf ?w (kf_out f + R) = Some (take m xs @ drop m buf)"
    using kfifo_copy_out_eq [OF wf(1) c, of buf "kf_out f + R"] m(2) wf(2) w
    by (simp add: bs length_rec_len [OF R])
  then show thesis
    using that [OF w] kfifo_peek_n_eq [OF bf R bs] n'
    by (simp add: kfifo_out_copy_r_def word_clip_eq)
qed

lemma kfifo_consume_record:
  assumes bf: "byte_fifo f" and R: "R \<in> {1, 2}" and bs: "kfifo_bytes f = rec_len R n @ xs"
    and n': "unat n' \<le> length xs" and f': "f' = f\<lparr>kf_out := kf_out f + (n' + R)\<rparr>"
  shows "byte_fifo f'" "kfifo_bytes f' = drop (unat n') xs" "kfifo_cap f' = kfifo_cap f"
proof -
  note wf = byte_fifoD [OF bf]
  have u: "unat R + length xs = kfifo_used f"
    using arg_cong [OF bs, of length] length_rec_len [OF R, of n] wf(2)
    by (simp add: length_kfifo_bytes)
  then have le: "unat n' + unat R \<le> kfifo_used f" using n' by simp
  moreover have "kfifo_used f \<le> 2 ^ 31"
    using wf(1) kfifo_wf_cap_le [OF wf(1)] by (simp add: kfifo_wf_def)
  ultimately have s: "unat (n' + R) = unat n' + unat R"
    by (intro unat_add_no_wrap) simp
  with le have le': "unat (n' + R) \<le> kfifo_used f" by simp
  note cm = kfifo_commit_out [OF wf(1) le' f']
  show "byte_fifo f'" "kfifo_cap f' = kfifo_cap f"
    using cm(1,3) wf(2) by (simp_all add: byte_fifo_def f')
  show "kfifo_bytes f' = drop (unat n') xs"
    using cm(2) s by (simp add: wf(2) bs length_rec_len [OF R] add.commute)
qed

lemma kfifo_not_empty:
  assumes "kfifo_bytes f \<noteq> []"
  shows "kf_in f \<noteq> kf_out f"
  using assms by (auto simp: kfifo_bytes_def kfifo_used_def Let_def)

lemma kfifo_empty_iff:
  assumes "kfifo_wf f"
  shows "kfifo_bytes f = [] \<longleftrightarrow> kf_in f = kf_out f"
proof -
  have "kfifo_bytes f = [] \<longleftrightarrow> kfifo_used f * unat (kf_esize f) = 0"
    unfolding length_kfifo_bytes [symmetric] by (rule length_0_conv [symmetric])
  also have "\<dots> \<longleftrightarrow> kfifo_used f = 0" using kfifo_wf_pos(1) [OF assms] by simp
  also have "\<dots> \<longleftrightarrow> kf_in f = kf_out f" by (simp add: kfifo_used_def unat_eq_zero)
  finally show ?thesis .
qed

lemma holds_records_ConsD:
  assumes "holds_records R f (r # rs)"
  obtains n where "byte_fifo f" "R \<in> {1, 2}" "unat n = length r" "take_bit (8 * unat R) n = n"
    "kfifo_bytes f = rec_len R n @ r @ concat (map (rec_enc R) rs)"
    "list_all (\<lambda>r. length r < 256 ^ unat R) rs"
proof -
  let ?n = "of_nat (length r) :: u32"
  have h: "byte_fifo f" "R \<in> {1, 2}" "length r < 256 ^ unat R"
    "kfifo_bytes f = rec_enc R r @ concat (map (rec_enc R) rs)"
    "list_all (\<lambda>r. length r < 256 ^ unat R) rs"
    using assms by (simp_all add: holds_records_def)
  have "256 ^ unat R \<le> (65536 :: nat)" using h(2) by auto
  with h(3) have u: "unat ?n = length r" by (simp add: unat_of_nat)
  with h(3) have "take_bit (8 * unat R) ?n = ?n" using take_bit_rec_len [OF h(2)] by simp
  with that h u show thesis by (simp add: rec_enc_def)
qed

lemma holds_records_snoc:
  assumes "holds_records R f rs" "byte_fifo f'" "unat len < 256 ^ unat R" "length r = unat len"
    and "kfifo_bytes f' = kfifo_bytes f @ rec_len R len @ r"
  shows "holds_records R f' (rs @ [r])"
  using assms by (simp add: holds_records_def rec_enc_def)

section \<open>Properties\<close>

text \<open>
  C7. \<open>__kfifo_in_r\<close> refines putting a record into a queue of records: when the record and its
  length field fit the free space it is added at the end and its length is returned,
  otherwise 0 is returned and nothing changes. The length has to fit the length field.
\<close>

theorem fifo_in_r_enqueues:
  assumes "holds_records R f rs" "unat len \<le> length buf" "unat len < 256 ^ unat R"
  shows "\<exists>f' w. fifo_in_r f buf len R = Some (f', w) \<and>
    (if kfifo_used f + unat len + unat R \<le> kfifo_cap f
     then w = len \<and> holds_records R f' (rs @ [take (unat len) buf])
     else w = 0 \<and> f' = f)"
proof -
  have h: "byte_fifo f" "R \<in> {1, 2}" using assms(1) by (simp_all add: holds_records_def)
  show ?thesis
  proof (cases "kfifo_used f + unat len + unat R \<le> kfifo_cap f")
    case True
    then obtain f' where f': "fifo_in_r f buf len R = Some (f', len)" "byte_fifo f'"
      "kfifo_bytes f' = kfifo_bytes f @ rec_len R len @ take (unat len) buf"
      using fifo_in_r_room [OF h True assms(2)] by metis
    have "holds_records R f' (rs @ [take (unat len) buf])"
      by (rule holds_records_snoc [OF assms(1) f'(2) assms(3) _ f'(3)]) (use assms(2) in simp)
    with True f' show ?thesis by simp
  next
    case False
    have "unat len + unat R < 2 ^ 32" using assms(3) h(2) by auto
    with False byte_fifoD(1) [OF h(1)] show ?thesis by (simp add: fifo_in_r_no_room)
  qed
qed

definition sample_record_fifo :: kfifo where
  "sample_record_fifo = \<lparr>kf_in = 3, kf_out = 0xFFFFFFFF, kf_mask = 7, kf_esize = 1,
     kf_data = Some (0x1000, [51, 52, 53, 0, 0, 0, 0, 3])\<rparr>"

lemma sample_record_fifo_holds: "holds_records 1 sample_record_fifo [[51, 52, 53]]"
  by (simp add: holds_records_def byte_fifo_def kfifo_wf_def kfifo_cap_def kfifo_used_def
      kfifo_bytes_def ring_read_def sample_record_fifo_def kf_store_def is_power_of_2_def rec_enc_def
      rec_len_def upt_rec)

theorem fifo_in_r_enqueues_witness:
  "\<exists>f' w. fifo_in_r sample_record_fifo [7, 8] 2 1 = Some (f', w) \<and> w = 2 \<and>
    holds_records 1 f' [[51, 52, 53], [7, 8]]"
  using fifo_in_r_enqueues [OF sample_record_fifo_holds, of 2 "[7, 8]"]
  by (simp add: kfifo_used_def kfifo_cap_def sample_record_fifo_def)

text \<open>
  C8. \<open>__kfifo_out_r\<close> refines taking a record from a queue of records: an empty queue gives 0;
  otherwise the oldest record is removed as a whole, and the part of it that fits the
  requested length is copied and its length returned.
\<close>

theorem fifo_out_r_dequeues:
  assumes "holds_records R f rs" "unat len \<le> length buf"
  shows "case rs of [] \<Rightarrow> fifo_out_r f buf len R = Some (f, buf, 0)
    | r # rs' \<Rightarrow> \<exists>f' w. let m = min (unat len) (length r) in
        fifo_out_r f buf len R = Some (f', take m r @ drop m buf, w) \<and> unat w = m \<and>
        holds_records R f' rs' \<and> kfifo_cap f' = kfifo_cap f"
proof (cases rs)
  case Nil
  then have "kf_in f = kf_out f"
    using assms(1) kfifo_empty_iff [of f] byte_fifoD(1) [of f] by (auto simp: holds_records_def)
  with Nil show ?thesis by (simp add: fifo_out_r_def)
next
  case (Cons r rs')
  with assms(1) obtain n where n: "byte_fifo f" "R \<in> {1, 2}" "unat n = length r"
    "take_bit (8 * unat R) n = n"
    "kfifo_bytes f = rec_len R n @ r @ concat (map (rec_enc R) rs')"
    "list_all (\<lambda>r. length r < 256 ^ unat R) rs'"
    by (auto elim: holds_records_ConsD)
  let ?m = "min (unat len) (length r)"
  have ne: "kf_in f \<noteq> kf_out f"
    by (rule kfifo_not_empty) (simp add: n(5) rec_len_def)
  have m: "?m = min (unat len) (unat n)" "?m \<le> length buf" using n(3) assms(2) by auto
  have le: "unat n \<le> length (r @ concat (map (rec_enc R) rs'))" using n(3) by simp
  obtain w where w: "unat w = ?m"
    "kfifo_out_copy_r f buf len R =
       Some (take ?m (r @ concat (map (rec_enc R) rs')) @ drop ?m buf, w, n)"
    by (rule kfifo_out_copy_r_eq [OF n(1,2,5) n(4) [symmetric] le m])
  then have w': "kfifo_out_copy_r f buf len R = Some (take ?m r @ drop ?m buf, w, n)"
    by (simp add: min_def)
  note c = kfifo_consume_record [OF n(1,2,5) le refl]
  have "holds_records R (f\<lparr>kf_out := kf_out f + (n + R)\<rparr>) rs'"
    using c(1,2) n(2,3,6) by (simp add: holds_records_def)
  with c(3) w(1) w' ne Cons show ?thesis by (simp add: fifo_out_r_def Let_def)
qed

theorem fifo_out_r_dequeues_witness:
  "\<exists>f' w. fifo_out_r sample_record_fifo [0, 0, 0, 0] 2 1 = Some (f', [51, 52, 0, 0], w) \<and>
    unat w = 2 \<and> holds_records 1 f' []"
  using fifo_out_r_dequeues [OF sample_record_fifo_holds, of 2 "[0, 0, 0, 0]"]
  by (auto simp: Let_def)

text \<open>
  C17. \<open>__kfifo_in_r\<close> accepts a record whose length does not fit the length field and stores
  the length reduced modulo \<open>256 ^ recsize\<close>: reading gives only that many bytes, and the
  rest of the record stays behind as bytes that the next read takes for a length field.
\<close>

theorem fifo_in_r_truncates:
  assumes "byte_fifo f" "kfifo_bytes f = []" "R \<in> {1, 2}"
    and "256 ^ unat R \<le> unat len" "unat len + unat R \<le> kfifo_cap f"
    and "unat len \<le> length buf" "unat len \<le> length dst"
  shows "\<exists>f1 f2 w. let m = unat len mod 256 ^ unat R in
    fifo_in_r f buf len R = Some (f1, len) \<and>
    fifo_out_r f1 dst len R = Some (f2, take m buf @ drop m dst, w) \<and> unat w = m \<and>
    kfifo_bytes f2 = drop m (take (unat len) buf) \<and> kfifo_bytes f2 \<noteq> []"
proof -
  let ?m = "unat len mod 256 ^ unat R" and ?n = "take_bit (8 * unat R) len"
  have "kfifo_used f = 0"
    using assms(2) length_kfifo_bytes [of f] byte_fifoD(2) [OF assms(1)] by simp
  then have room: "kfifo_used f + unat len + unat R \<le> kfifo_cap f" using assms(5) by simp
  obtain f1 where f1: "fifo_in_r f buf len R = Some (f1, len)" "byte_fifo f1"
    "kfifo_bytes f1 = rec_len R len @ take (unat len) buf"
    using fifo_in_r_room [OF assms(1,3) room assms(6)] assms(2) by auto
  have m: "unat ?n = ?m"
    using unsigned_take_bit_eq [of "8 * unat R" len] by (simp add: take_bit_eq_mod power_mult)
  have lt: "?m < unat len"
    using assms(4) by (metis less_le_trans mod_less_divisor zero_less_numeral zero_less_power)
  have le: "unat ?n \<le> length (take (unat len) buf)" using m lt assms(6) by simp
  have mm: "?m = min (unat len) (unat ?n)" "?m \<le> length dst" using m lt assms(7) by simp_all
  obtain w where w: "unat w = ?m" "kfifo_out_copy_r f1 dst len R =
      Some (take ?m (take (unat len) buf) @ drop ?m dst, w, ?n)"
    by (rule kfifo_out_copy_r_eq [OF f1(2) assms(3) f1(3) refl le mm])
  have ne: "kf_in f1 \<noteq> kf_out f1"
    by (rule kfifo_not_empty) (simp add: f1(3) rec_len_def)
  note c = kfifo_consume_record [OF f1(2) assms(3) f1(3) le refl]
  have "drop ?m (take (unat len) buf) \<noteq> []" using lt assms(6) by simp
  with f1(1) w ne c(2) m lt show ?thesis
    by (auto simp: fifo_out_r_def Let_def min_absorb1)
qed

definition blank_record_fifo :: kfifo where
  "blank_record_fifo = \<lparr>kf_in = 0, kf_out = 0, kf_mask = 511, kf_esize = 1,
     kf_data = Some (0x1000, replicate 512 0)\<rparr>"

lemma blank_record_fifo_facts:
  "byte_fifo blank_record_fifo" "kfifo_bytes blank_record_fifo = []"
  "kfifo_cap blank_record_fifo = 512"
  by (simp_all add: byte_fifo_def kfifo_wf_def kfifo_cap_def kfifo_used_def kfifo_bytes_def
      blank_record_fifo_def kf_store_def is_power_of_2_def Let_def)

theorem fifo_in_r_truncates_witness:
  "\<exists>f1 f2 w. fifo_in_r blank_record_fifo (replicate 300 7) 300 1 = Some (f1, 300) \<and>
    fifo_out_r f1 (replicate 300 0) 300 1 = Some (f2, replicate 44 7 @ replicate 256 0, w) \<and>
    unat w = 44 \<and> kfifo_bytes f2 = replicate 256 7"
  using fifo_in_r_truncates [of blank_record_fifo 1 300 "replicate 300 7" "replicate 300 0"]
  by (auto simp: blank_record_fifo_facts Let_def)

text \<open>
  The room check of \<open>__kfifo_in_r\<close> adds the length field to the length in 32 bits. With a
  length so close to \<open>2 ^ 32\<close> that the sum wraps, the check passes and the copy leaves the
  storage instead of reporting that there is no room.
\<close>

theorem fifo_in_r_length_wraps:
  assumes "byte_fifo f" "R \<in> {1, 2}" "2 ^ 32 \<le> unat len + unat R"
    and "length (kf_store f) \<le> 2 ^ 30" and room: "kfifo_used f < kfifo_cap f"
  shows "fifo_in_r f buf len R = None"
proof -
  note wf = byte_fifoD [OF assms(1)]
  have l: "2 ^ 32 - 2 \<le> unat len" "unat len < 2 ^ 32"
    using assms(2,3) unat_less_word [of len] by auto
  have "unat (len + R) = unat len + unat R - 2 ^ 32"
    using assms(3) l unat_less_word [of R] assms(2)
    by (auto simp: unat_word_ariths mod_if)
  then have "unat (len + R) \<le> 1" using l assms(2) by auto
  then have g: "\<not> len + R > kfifo_unused f"
    using room kfifo_unused_eq [OF wf(1)] by (simp add: word_less_nat_alt)
  let ?d = "ring_write (kf_store f) (kfifo_cap f) (unat (kf_in f) mod kfifo_cap f) (rec_len R len)"
  let ?g = "kf_set_store f ?d"
  have p: "unat (kf_in f) mod kfifo_cap f < kfifo_cap f" "2 \<le> kfifo_cap f"
    using kfifo_wf_pos(2) [OF wf(1)] by simp_all
  have dl: "length ?d = length (kf_store f)"
    using p byte_fifo_store [OF assms(1)] assms(2)
    by (intro length_ring_write) (auto simp: length_rec_len [OF assms(2)])
  have dn: "kf_data f \<noteq> None" using wf(1) by (simp add: kfifo_wf_def)
  obtain off l where sp: "kfifo_span ?g len (kf_in f + R) = (off, len, l)"
    "l \<le> (kf_mask f + 1) - off" "off \<le> kf_mask f" "l \<le> len"
    using wf(2) by (auto simp: kfifo_span_def Let_def word_and_le1)
  have "unat (kf_mask f + 1) = kfifo_cap f" using wf(1) by (rule kfifo_wf_capE)
  then have "unat ((kf_mask f + 1) - off) \<le> kfifo_cap f"
    using sp(3) by (subst unat_sub_no_wrap) (simp_all add: kfifo_cap_def word_le_nat_alt)
  then have "unat l \<le> 2 ^ 30"
    using sp(2) byte_fifo_store [OF assms(1)] assms(4) by (simp add: word_le_nat_alt)
  then have big: "length (kf_store f) < unat (len - l)"
    using sp(4) l assms(4) by (simp add: word_le_nat_alt unat_sub_no_wrap)
  have "kfifo_copy_in ?g buf len (kf_in f + R) = None"
  proof (rule ccontr)
    assume "kfifo_copy_in ?g buf len (kf_in f + R) \<noteq> None"
    then obtain bs e bs' e' where a: "mem_store (kf_store ?g) (unat off) bs = Some e"
      "mem_load buf (unat l) (unat (len - l)) = Some bs'" "mem_store e 0 bs' = Some e'"
      by (auto simp: kfifo_copy_in_def sp(1) split: bind_splits)
    then have "length e = length (kf_store f)" "length bs' = unat (len - l)"
      using dl dn by (auto dest: mem_load_length mem_store_length)
    with a(3) big show False by (simp add: mem_store_None)
  qed
  then show ?thesis
    using g by (simp add: fifo_in_r_def kfifo_poke_n_eq [OF assms(1,2)])
qed

theorem fifo_in_r_length_wraps_witness:
  "fifo_in_r blank_record_fifo [1, 2, 3] 0xFFFFFFFF 1 = None"
  using fifo_in_r_length_wraps [of blank_record_fifo 1 "0xFFFFFFFF" "[1, 2, 3]"] blank_record_fifo_facts
  by (simp add: kfifo_used_def) (simp add: blank_record_fifo_def kf_store_def)

end
