(* ===== verification/Uaccess.thy ===== *)
theory Uaccess
  imports Prelude
begin

text \<open>
  Copies between a driver and its user: \<open>mem.c\<close> and the inline wrappers of
  \<open>x86/asm/uaccess.h\<close>. A copy names the destination object and the offset in it, the source
  object and the offset in it, and the length; it returns the destination and the number of
  bytes that were \<^emph>\<open>not\<close> copied. The locale \<open>user_copy\<close> is the contract the fifo code is
  written against (it handles partial copies); the library's own copies satisfy it and never
  stop short.
\<close>

section \<open>Definitions\<close>

type_synonym user_copy = "u8 list \<Rightarrow> nat \<Rightarrow> u8 list \<Rightarrow> nat \<Rightarrow> u32 \<Rightarrow> (u8 list \<times> u32) option"

text \<open>\<open>_copy_from_user\<close> and \<open>_copy_to_user\<close> of \<open>mem.c\<close>.\<close>

definition copy_from_user_mem :: user_copy where
  "copy_from_user_mem dest doff src soff s =
     do { bs \<leftarrow> mem_load src soff (unat s);
          dest \<leftarrow> mem_store dest doff bs;
          Some (dest, 0) }"

definition copy_to_user_mem :: user_copy where
  "copy_to_user_mem dest doff src soff s =
     do { bs \<leftarrow> mem_load src soff (unat s);
          dest \<leftarrow> mem_store dest doff bs;
          Some (dest, 0) }"

text \<open>
  \<open>copy_from_user\<close> compares the length with the size \<open>sz\<close> the compiler knows for the
  destination, negative when it knows none; \<open>copy_to_user\<close> compares it with itself.
\<close>

definition copy_from_user :: "int \<Rightarrow> user_copy" where
  "copy_from_user sz dest doff src soff n =
     (if sz < 0 \<or> sz \<ge> uint n then copy_from_user_mem dest doff src soff n
      else Some (dest, n))"

definition copy_to_user :: user_copy where
  "copy_to_user dest doff src soff n =
     (let sz = sint n
      in if sz < 0 \<or> sz \<ge> uint n then copy_to_user_mem dest doff src soff n
         else Some (dest, n))"

section \<open>The contract of a user copy\<close>

locale user_copy =
  fixes copy :: "u8 list \<Rightarrow> nat \<Rightarrow> u8 list \<Rightarrow> nat \<Rightarrow> u32 \<Rightarrow> (u8 list \<times> u32) option"
  assumes copy_result:
    "soff + unat n \<le> length src \<Longrightarrow> doff + unat n \<le> length dest \<Longrightarrow>
     \<exists>bs r. copy dest doff src soff n =
         Some (take doff dest @ bs @ drop (doff + length bs) dest, r) \<and>
       length bs = unat n \<and> unat r \<le> unat n \<and>
       take (unat n - unat r) bs = take (unat n - unat r) (drop soff src)"

text \<open>A copy that never stops short.\<close>

locale complete_user_copy = user_copy +
  assumes copy_complete: "copy dest doff src soff n = Some (d, r) \<Longrightarrow> r = 0"

section \<open>The library's copies satisfy it and are complete\<close>

lemma copy_from_user_mem_complete:
  assumes "soff + unat n \<le> length src" "doff + unat n \<le> length dest"
  shows "copy_from_user_mem dest doff src soff n =
    Some (take doff dest @ take (unat n) (drop soff src) @ drop (doff + unat n) dest, 0)"
  using assms by (simp add: copy_from_user_mem_def mem_simps)

lemma copy_to_user_mem_complete:
  assumes "soff + unat n \<le> length src" "doff + unat n \<le> length dest"
  shows "copy_to_user_mem dest doff src soff n =
    Some (take doff dest @ take (unat n) (drop soff src) @ drop (doff + unat n) dest, 0)"
  using assms by (simp add: copy_to_user_mem_def mem_simps)

lemma copy_from_user_unknown: "sz < 0 \<Longrightarrow> copy_from_user sz = copy_from_user_mem"
  by (intro ext) (simp add: copy_from_user_def)

lemma copy_to_user_eq: "copy_to_user = copy_to_user_mem"
proof (intro ext)
  fix dest doff src soff and n :: u32
  have "sint n < 0 \<or> sint n \<ge> uint n"
  proof (cases "bit (uint n) 31")
    case True
    then show ?thesis by (simp add: sint_uint signed_take_bit_negative_iff)
  next
    case False
    have "uint n = take_bit (Suc 31) (uint n)"
      using take_bit_length_eq [of n] by (simp flip: unsigned_take_bit_eq)
    also have "\<dots> = take_bit 31 (uint n)"
      using False by (simp only: take_bit_Suc_from_most) simp
    also have "\<dots> = sint n"
      using False by (simp add: sint_uint signed_take_bit_eq_if_positive)
    finally show ?thesis by simp
  qed
  then show "copy_to_user dest doff src soff n = copy_to_user_mem dest doff src soff n"
    by (simp add: copy_to_user_def Let_def)
qed

interpretation cfu: complete_user_copy "copy_from_user (- 1)"
proof
  show "r = 0" if "copy_from_user (- 1) dest doff src soff n = Some (d, r)"
    for dest doff src soff n d r
    using that by (auto simp: copy_from_user_unknown copy_from_user_mem_def split: bind_splits)
  fix soff doff and src dest :: "u8 list" and n :: u32
  assume "soff + unat n \<le> length src" "doff + unat n \<le> length dest"
  then show "\<exists>bs r. copy_from_user (- 1) dest doff src soff n =
        Some (take doff dest @ bs @ drop (doff + length bs) dest, r) \<and>
      length bs = unat n \<and> unat r \<le> unat n \<and>
      take (unat n - unat r) bs = take (unat n - unat r) (drop soff src)"
    by (intro exI [of _ "take (unat n) (drop soff src)"] exI [of _ 0])
      (simp add: copy_from_user_unknown copy_from_user_mem_complete)
qed

interpretation ctu: complete_user_copy copy_to_user
proof
  show "r = 0" if "copy_to_user dest doff src soff n = Some (d, r)" for dest doff src soff n d r
    using that by (auto simp: copy_to_user_eq copy_to_user_mem_def split: bind_splits)
  fix soff doff and src dest :: "u8 list" and n :: u32
  assume "soff + unat n \<le> length src" "doff + unat n \<le> length dest"
  then show "\<exists>bs r. copy_to_user dest doff src soff n =
        Some (take doff dest @ bs @ drop (doff + length bs) dest, r) \<and>
      length bs = unat n \<and> unat r \<le> unat n \<and>
      take (unat n - unat r) bs = take (unat n - unat r) (drop soff src)"
    by (intro exI [of _ "take (unat n) (drop soff src)"] exI [of _ 0])
      (simp add: copy_to_user_eq copy_to_user_mem_complete)
qed

end
