(* ===== verification/Kfifo_User.thy ===== *)
theory Kfifo_User
  imports Kfifo_Record Uaccess
begin

text \<open>
  The generic fifo of \<open>fifo.c\<close>, third part: copies between the fifo and a user buffer. The
  user copy is an argument of the definitions. In the locale \<open>user_copy\<close> the fifo is
  shown to cope with copies that stop short: exactly the elements that arrived as a whole
  are added or removed. The library's own copies never stop short, which gives the
  unconditional results at the end.
\<close>

section \<open>Definitions\<close>

text \<open>\<open>DIV_ROUND_UP\<close>, with its division by zero as a fault.\<close>

definition DIV_ROUND_UP :: "u32 \<Rightarrow> u32 \<Rightarrow> u32 option" where
  "DIV_ROUND_UP n d = (if d = 0 then None else Some ((n + d - 1) div d))"

definition kfifo_copy_from_user ::
  "user_copy \<Rightarrow> kfifo \<Rightarrow> u8 list \<Rightarrow> u32 \<Rightarrow> u32 \<Rightarrow> (kfifo \<times> u32 \<times> u32) option" where
  "kfifo_copy_from_user cp f from len off =
     (let esize = kf_esize f;
          (off, len, l) = kfifo_span f len off
      in do { (d, ret) \<leftarrow> cp (kf_store f) (unat off) from 0 l;
              (d, ret) \<leftarrow>
                (if ret \<noteq> 0
                 then do { ret \<leftarrow> DIV_ROUND_UP (ret + len - l) esize; Some (d, ret) }
                 else do { (d, ret) \<leftarrow> cp d 0 from (unat l) (len - l);
                           if ret \<noteq> 0
                           then do { ret \<leftarrow> DIV_ROUND_UP ret esize; Some (d, ret) }
                           else Some (d, ret) });
              Some (kf_set_store f d, ret, len - ret * esize) })"

definition fifo_from_user ::
  "user_copy \<Rightarrow> kfifo \<Rightarrow> u8 list \<Rightarrow> u32 \<Rightarrow> (kfifo \<times> int \<times> u32) option" where
  "fifo_from_user cp f from len =
     (let esize = kf_esize f
      in if esize = 0 then None
         else let len = (if esize \<noteq> 1 then len div esize else len);
                  l = kfifo_unused f;
                  len = (if len > l then l else len)
              in do { (f, ret, copied) \<leftarrow> kfifo_copy_from_user cp f from len (kf_in f);
                      let (len, err) = (if ret \<noteq> 0 then (len - ret, - EFAULT) else (len, 0));
                      Some (f\<lparr>kf_in := kf_in f + len\<rparr>, err, copied) })"

definition kfifo_copy_to_user ::
  "user_copy \<Rightarrow> kfifo \<Rightarrow> u8 list \<Rightarrow> u32 \<Rightarrow> u32 \<Rightarrow> (u8 list \<times> u32 \<times> u32) option" where
  "kfifo_copy_to_user cp f to len off =
     (let esize = kf_esize f;
          (off, len, l) = kfifo_span f len off
      in do { (to, ret) \<leftarrow> cp to 0 (kf_store f) (unat off) l;
              (to, ret) \<leftarrow>
                (if ret \<noteq> 0
                 then do { ret \<leftarrow> DIV_ROUND_UP (ret + len - l) esize; Some (to, ret) }
                 else do { (to, ret) \<leftarrow> cp to (unat l) (kf_store f) 0 (len - l);
                           if ret \<noteq> 0
                           then do { ret \<leftarrow> DIV_ROUND_UP ret esize; Some (to, ret) }
                           else Some (to, ret) });
              Some (to, ret, len - ret * esize) })"

definition fifo_to_user ::
  "user_copy \<Rightarrow> kfifo \<Rightarrow> u8 list \<Rightarrow> u32 \<Rightarrow> (kfifo \<times> u8 list \<times> int \<times> u32) option" where
  "fifo_to_user cp f to len =
     (let esize = kf_esize f
      in if esize = 0 then None
         else let len = (if esize \<noteq> 1 then len div esize else len);
                  l = kf_in f - kf_out f;
                  len = (if len > l then l else len)
              in do { (to, ret, copied) \<leftarrow> kfifo_copy_to_user cp f to len (kf_out f);
                      let (len, err) = (if ret \<noteq> 0 then (len - ret, - EFAULT) else (len, 0));
                      Some (f\<lparr>kf_out := kf_out f + len\<rparr>, to, err, copied) })"

definition fifo_from_user_r ::
  "user_copy \<Rightarrow> kfifo \<Rightarrow> u8 list \<Rightarrow> u32 \<Rightarrow> u32 \<Rightarrow> (kfifo \<times> int \<times> u32) option" where
  "fifo_from_user_r cp f from len recsize =
     do { len \<leftarrow> fifo_max_r len recsize;
          if len + recsize > kfifo_unused f then Some (f, 0, 0)
          else do { f \<leftarrow> kfifo_poke_n f len recsize;
                    (f, ret, copied) \<leftarrow> kfifo_copy_from_user cp f from len (kf_in f + recsize);
                    if ret \<noteq> 0 then Some (f, - EFAULT, 0)
                    else Some (f\<lparr>kf_in := kf_in f + (len + recsize)\<rparr>, 0, copied) } }"

definition fifo_to_user_r ::
  "user_copy \<Rightarrow> kfifo \<Rightarrow> u8 list \<Rightarrow> u32 \<Rightarrow> u32 \<Rightarrow> (kfifo \<times> u8 list \<times> int \<times> u32) option" where
  "fifo_to_user_r cp f to len recsize =
     (if kf_in f = kf_out f then Some (f, to, 0, 0)
      else do { n \<leftarrow> kfifo_peek_n f recsize;
                let len = (if len > n then n else len);
                (to, ret, copied) \<leftarrow> kfifo_copy_to_user cp f to len (kf_out f + recsize);
                if ret \<noteq> 0 then Some (f, to, - EFAULT, 0)
                else Some (f\<lparr>kf_out := kf_out f + (n + recsize)\<rparr>, to, 0, copied) })"

section \<open>Rounding up to elements\<close>

lemma DIV_ROUND_UP_bounds:
  assumes "0 < unat d" "unat n + unat d \<le> 2 ^ 32"
  obtains q where "DIV_ROUND_UP n d = Some q" "unat n \<le> unat q * unat d"
    "\<forall>k. unat n \<le> k * unat d \<longrightarrow> unat q \<le> k" "unat q = 0 \<longleftrightarrow> unat n = 0"
proof -
  let ?q = "(n + d - 1) div d"
  have "unat (n + d - 1) = unat n + unat d - 1"
  proof -
    have "unat (d - 1) = unat d - 1" using assms(1) by (simp add: unat_sub_no_wrap)
    then show ?thesis
      using assms unat_add_no_wrap [of n "d - 1"] by (simp add: add_diff_eq)
  qed
  then have q: "unat ?q = (unat n + (unat d - 1)) div unat d"
    using assms(1) by (simp add: unat_div)
  have 1: "unat n \<le> unat ?q * unat d"
    unfolding q using dividend_less_div_times [OF assms(1), of "unat n + (unat d - 1)"] assms(1)
    by linarith
  have 2: "unat ?q \<le> k" if "unat n \<le> k * unat d" for k
    unfolding q using assms(1) that by (simp add: less_Suc_eq_le [symmetric] div_less_iff_less_mult)
  show thesis
    by (rule that [of ?q]) (use assms(1) 1 2 2 [of 0] in \<open>auto simp: DIV_ROUND_UP_def\<close>)
qed

text \<open>What a copy in two parts leaves over, in elements.\<close>

lemma DIV_ROUND_UP_rest:
  assumes "0 < unat e" "unat r \<le> k * unat e" "k * unat e + unat e \<le> 2 ^ 32"
  obtains q where "DIV_ROUND_UP r e = Some q" "unat q \<le> k" "(k - unat q) * unat e \<le> k * unat e - unat r"
    "unat q = 0 \<longleftrightarrow> unat r = 0"
proof -
  have le: "unat r + unat e \<le> 2 ^ 32" using assms by simp
  obtain q where q: "DIV_ROUND_UP r e = Some q" "unat r \<le> unat q * unat e"
    "\<forall>k. unat r \<le> k * unat e \<longrightarrow> unat q \<le> k" "unat q = 0 \<longleftrightarrow> unat r = 0"
    by (rule DIV_ROUND_UP_bounds [OF assms(1) le])
  show thesis
  proof (rule that [OF q(1) q(3) [rule_format, OF assms(2)] _ q(4)])
    show "(k - unat q) * unat e \<le> k * unat e - unat r"
      using q(2) by (simp add: diff_mult_distrib)
  qed
qed

lemma leftover:
  fixes len e r :: u32
  assumes e: "0 < unat e" and len: "unat len = k * unat e" "k * unat e + unat e \<le> 2 ^ 32"
    and r: "unat r \<le> unat len" "take (unat len - unat r) bs = take (unat len - unat r) s"
    and bs: "length bs = unat len"
  obtains q where "DIV_ROUND_UP r e = Some q" "q = 0 \<longleftrightarrow> r = 0" "unat q \<le> k"
    "unat (len - q * e) = (k - unat q) * unat e"
    "take ((k - unat q) * unat e) bs = take ((k - unat q) * unat e) s"
proof -
  have "unat r \<le> k * unat e" using r(1) len(1) by simp
  then obtain q where q: "DIV_ROUND_UP r e = Some q" "unat q \<le> k"
    "(k - unat q) * unat e \<le> k * unat e - unat r" "unat q = 0 \<longleftrightarrow> unat r = 0"
    using DIV_ROUND_UP_rest [OF e _ len(2)] by metis
  have "unat q * unat e \<le> unat len" using q(2) len(1) by simp
  moreover have "unat len < 2 ^ 32" using unat_less_word [of len] by simp
  ultimately have "unat (q * e) = unat q * unat e" by (intro unat_mult_no_wrap) simp
  then have c: "unat (len - q * e) = (k - unat q) * unat e"
    using len(1) q(2) by (simp add: unat_sub_no_wrap diff_mult_distrib)
  have le: "(k - unat q) * unat e \<le> unat len - unat r" using q(3) len(1) by simp
  have "take ((k - unat q) * unat e) bs = take ((k - unat q) * unat e) (take (unat len - unat r) bs)"
    using le by (simp add: min_absorb1)
  also have "\<dots> = take ((k - unat q) * unat e) s"
    using le by (simp add: r(2) min_absorb1)
  finally show thesis
    using that [OF q(1) _ q(2) c] q(4) by (simp add: unat_eq_zero)
qed

section \<open>Copies that may stop short\<close>

context user_copy
begin

lemma copy_first:
  assumes "soff + unat n \<le> length src" "doff + unat n \<le> length dest"
  obtains bs r where "copy dest doff src soff n =
      Some (take doff dest @ bs @ drop (doff + unat n) dest, r)"
    "length bs = unat n" "unat r \<le> unat n"
    "take (unat n - unat r) bs = take (unat n - unat r) (drop soff src)"
  using copy_result [OF assms] by metis

text \<open>The two copies into the ring, and the bytes they leave uncopied.\<close>

lemma short_rest:
  fixes r len l :: u32
  assumes "unat l \<le> unat len" "unat r \<le> unat l"
  shows "unat (r + len - l) = unat r + (unat len - unat l)"
proof -
  have "unat (len - l) = unat len - unat l" using assms(1) by (rule unat_sub_no_wrap)
  then show ?thesis
    using unat_add_no_wrap [of r "len - l"] assms unat_less_word [of len] by (simp add: add_diff_eq)
qed

lemma two_part_in:
  fixes len l :: u32
  assumes p: "p < N" and n: "unat len \<le> N" "N \<le> length st" "unat len \<le> length src"
    and l: "unat l = min (unat len) (N - p)"
  obtains d1 r1 bs r where "copy st p src 0 l = Some (d1, r1)"
    "(if r1 \<noteq> 0 then Some (d1, r1 + len - l) else copy d1 0 src (unat l) (len - l)) =
     Some (ring_write st N p bs, r)"
    "length bs = unat len" "unat r \<le> unat len"
    "take (unat len - unat r) bs = take (unat len - unat r) src"
proof -
  have b: "unat l \<le> unat len" "unat l \<le> N - p" unfolding l by simp_all
  have ul: "unat (len - l) = unat len - unat l" using b(1) by (rule unat_sub_no_wrap)
  have b1: "0 + unat l \<le> length src" "p + unat l \<le> length st" using b n p by linarith+
  let ?d = "\<lambda>bs. take p st @ bs @ drop (p + unat l) st"
  obtain bs1 r1 where c1: "copy st p src 0 l = Some (?d bs1, r1)" "length bs1 = unat l"
    "unat r1 \<le> unat l" "take (unat l - unat r1) bs1 = take (unat l - unat r1) src"
    by (rule copy_first [OF b1]) (simp add: that)
  show thesis
  proof (cases "r1 = 0")
    case False
    note ur = short_rest [OF b(1) c1(3)]
    obtain ys where ys: "length ys = unat len - unat l"
      "ring_write st N p bs1 = ring_write st N p (bs1 @ ys)"
      by (rule ring_write_pad [OF p _ n(2), of bs1 "unat len - unat l"])
        (use b n(1) c1(2) in simp_all)
    have sub: "unat len - unat (r1 + len - l) = unat l - unat r1" using ur b c1(3) by linarith
    have "ring_write st N p bs1 = ?d bs1" using b(2) c1(2) by (simp add: ring_write_one_part)
    then show thesis
      using that [OF c1(1), of "bs1 @ ys" "r1 + len - l"] False ys c1(2-4) b(1) ur sub by simp
  next
    case True
    have ld: "length (?d bs1) = length st" using b1(2) c1(2) by simp
    have b2: "unat l + unat (len - l) \<le> length src" "0 + unat (len - l) \<le> length (?d bs1)"
      unfolding ld using b n ul by linarith+
    obtain bs2 r2 where c2: "copy (?d bs1) 0 src (unat l) (len - l) =
        Some (bs2 @ drop (unat (len - l)) (?d bs1), r2)"
      "length bs2 = unat (len - l)" "unat r2 \<le> unat (len - l)"
      "take (unat (len - l) - unat r2) bs2 = take (unat (len - l) - unat r2) (drop (unat l) src)"
      by (rule copy_first [OF b2]) (simp add: that)
    have 1: "bs1 = take (unat l) src" using c1(2,4) True by simp
    have 2: "unat len - unat r2 = unat l + (unat (len - l) - unat r2)"
      using c2(3) ul b(1) by linarith
    have t: "take (unat len - unat r2) (bs1 @ bs2) = take (unat len - unat r2) src"
      unfolding 2 take_add using c1(2) c2(4) by (simp flip: 1)
    have lb: "length bs1 + length bs2 = unat len" unfolding c1(2) c2(2) ul using b(1) by simp
    then have "length bs1 = min (length bs1 + length bs2) (N - p)"
      using l by (simp only: c1(2))
    from ring_write_two_parts [OF this, of st]
    have "ring_write st N p (bs1 @ bs2) = bs2 @ drop (unat (len - l)) (?d bs1)"
      by (simp only: c1(2) c2(2))
    then show thesis
      using that [OF c1(1), of "bs1 @ bs2" r2] True c2(1,3) t lb ul by simp
  qed
qed

lemma kfifo_copy_from_user_result:
  assumes wf: "kfifo_wf f" and len: "unat len \<le> kfifo_cap f"
    and big: "kfifo_cap f * unat (kf_esize f) + unat (kf_esize f) \<le> 2 ^ 32"
    and src: "unat len * unat (kf_esize f) \<le> length src"
  obtains bs ret copied where "kfifo_copy_from_user copy f src len off = Some (kf_set_store f
      (ring_write (kf_store f) (kfifo_cap f * unat (kf_esize f))
        (unat off mod kfifo_cap f * unat (kf_esize f)) bs), ret, copied)"
    "length bs = unat len * unat (kf_esize f)" "unat ret \<le> unat len"
    "unat copied = (unat len - unat ret) * unat (kf_esize f)"
    "take ((unat len - unat ret) * unat (kf_esize f)) bs =
     take ((unat len - unat ret) * unat (kf_esize f)) src"
proof -
  let ?E = "unat (kf_esize f)" and ?N = "kfifo_cap f * unat (kf_esize f)"
  obtain off' len' l where span: "kfifo_span f len off = (off', len', l)"
    by (metis prod_cases3)
  note eqs = kfifo_span_eq [OF wf len span]
  have E: "0 < ?E" using kfifo_wf_pos(1) [OF wf] .
  have d: "?N \<le> length (kf_store f)" using wf by (simp add: kfifo_wf_def)
  have N: "unat len' \<le> ?N" "unat len' \<le> length src" using len src by (simp_all add: eqs(2))
  have kE: "unat len * ?E + ?E \<le> 2 ^ 32"
    using mult_le_mono1 [OF len, of ?E] big by linarith
  obtain d1 r1 bs r where c: "copy (kf_store f) (unat off') src 0 l = Some (d1, r1)"
    "(if r1 \<noteq> 0 then Some (d1, r1 + len' - l) else copy d1 0 src (unat l) (len' - l)) =
     Some (ring_write (kf_store f) ?N (unat off') bs, r)"
    and bs: "length bs = unat len'" "unat r \<le> unat len'"
      "take (unat len' - unat r) bs = take (unat len' - unat r) src"
    by (rule two_part_in [OF eqs(5) N(1) d N(2) eqs(3)])
  obtain q where q: "DIV_ROUND_UP r (kf_esize f) = Some q" "q = 0 \<longleftrightarrow> r = 0" "unat q \<le> unat len"
    "unat (len' - q * kf_esize f) = (unat len - unat q) * ?E"
    "take ((unat len - unat q) * ?E) bs = take ((unat len - unat q) * ?E) src"
    by (rule leftover [OF E eqs(2) kE bs(2,3,1)])
  have "kfifo_copy_from_user copy f src len off = Some (kf_set_store f
      (ring_write (kf_store f) ?N (unat off') bs), q, len' - q * kf_esize f)"
    using c q(1,2) by (cases "r1 = 0") (auto simp: kfifo_copy_from_user_def span Let_def)
  moreover have "length bs = unat len * ?E" using bs(1) eqs(2) by simp
  ultimately show thesis using that q eqs(1) by metis
qed

text \<open>The two copies out of the ring.\<close>

lemma two_part_out:
  fixes len l :: u32
  assumes p: "p < N" and n: "unat len \<le> N" "N \<le> length st" "unat len \<le> length dst"
    and l: "unat l = min (unat len) (N - p)"
  obtains t1 r1 bs r where "copy dst 0 st p l = Some (t1, r1)"
    "(if r1 \<noteq> 0 then Some (t1, r1 + len - l) else copy t1 (unat l) st 0 (len - l)) =
     Some (bs @ drop (unat len) dst, r)"
    "length bs = unat len" "unat r \<le> unat len"
    "take (unat len - unat r) bs = take (unat len - unat r) (ring_read st N p (unat len))"
proof -
  have b: "unat l \<le> unat len" "unat l \<le> N - p" unfolding l by simp_all
  have ul: "unat (len - l) = unat len - unat l" using b(1) by (rule unat_sub_no_wrap)
  have rr: "ring_read st N p (unat len) = take (unat l) (drop p st) @ take (unat len - unat l) st"
    using ring_read_two_parts [OF p n(1,2)] by (simp flip: l)
  have b1: "p + unat l \<le> length st" "0 + unat l \<le> length dst" using b n p by linarith+
  obtain bs1 r1 where c1: "copy dst 0 st p l = Some (bs1 @ drop (unat l) dst, r1)"
    "length bs1 = unat l" "unat r1 \<le> unat l"
    "take (unat l - unat r1) bs1 = take (unat l - unat r1) (drop p st)"
    by (rule copy_first [OF b1]) (simp add: that)
  show thesis
  proof (cases "r1 = 0")
    case False
    note ur = short_rest [OF b(1) c1(3)]
    let ?ys = "take (unat len - unat l) (drop (unat l) dst)"
    have sub: "unat len - unat (r1 + len - l) = unat l - unat r1" using ur b c1(3) by linarith
    have "bs1 @ drop (unat l) dst = (bs1 @ ?ys) @ drop (unat len) dst"
      using append_take_drop_id [of "unat len - unat l" "drop (unat l) dst"] b(1) by simp
    moreover have "length (bs1 @ ?ys) = unat len" using c1(2) b n(3) by simp
    ultimately show thesis
      using that [OF c1(1), of "bs1 @ ?ys" "r1 + len - l"] False c1(2-4) b1 b(1) ur sub
      by (simp add: rr)
  next
    case True
    let ?t = "bs1 @ drop (unat l) dst"
    have b2: "0 + unat (len - l) \<le> length st" "unat l + unat (len - l) \<le> length ?t"
      using b n ul c1(2) by simp_all
    obtain bs2 r2 where c2: "copy ?t (unat l) st 0 (len - l) =
        Some (take (unat l) ?t @ bs2 @ drop (unat l + unat (len - l)) ?t, r2)"
      "length bs2 = unat (len - l)" "unat r2 \<le> unat (len - l)"
      "take (unat (len - l) - unat r2) bs2 = take (unat (len - l) - unat r2) st"
      by (rule copy_first [OF b2]) (simp add: that)
    have 1: "bs1 = take (unat l) (drop p st)" using c1(2,4) True by simp
    have 2: "unat len - unat r2 = unat l + (unat (len - l) - unat r2)"
      using c2(3) ul b(1) by linarith
    have t: "take (unat len - unat r2) (bs1 @ bs2) =
        take (unat len - unat r2) (ring_read st N p (unat len))"
      unfolding 2 take_add rr 1 [symmetric] using c1(2) c2(4) ul by (simp add: min_absorb1)
    have lb: "length (bs1 @ bs2) = unat len" using c1(2) c2(2) ul b(1) by simp
    have "copy ?t (unat l) st 0 (len - l) = Some ((bs1 @ bs2) @ drop (unat len) dst, r2)"
      using c2(1) c1(2) ul b(1) by simp
    then show thesis
      using that [OF c1(1), of "bs1 @ bs2" r2] True c2(3) t lb ul by simp
  qed
qed

lemma kfifo_copy_to_user_result:
  assumes wf: "kfifo_wf f" and len: "unat len \<le> kfifo_cap f"
    and big: "kfifo_cap f * unat (kf_esize f) + unat (kf_esize f) \<le> 2 ^ 32"
    and dst: "unat len * unat (kf_esize f) \<le> length dst"
  obtains bs ret copied where "kfifo_copy_to_user copy f dst len off =
      Some (bs @ drop (unat len * unat (kf_esize f)) dst, ret, copied)"
    "length bs = unat len * unat (kf_esize f)" "unat ret \<le> unat len"
    "unat copied = (unat len - unat ret) * unat (kf_esize f)"
    "take ((unat len - unat ret) * unat (kf_esize f)) bs =
     take ((unat len - unat ret) * unat (kf_esize f))
       (ring_read (kf_store f) (kfifo_cap f * unat (kf_esize f))
         (unat off mod kfifo_cap f * unat (kf_esize f)) (unat len * unat (kf_esize f)))"
proof -
  let ?E = "unat (kf_esize f)" and ?N = "kfifo_cap f * unat (kf_esize f)"
  obtain off' len' l where span: "kfifo_span f len off = (off', len', l)"
    by (metis prod_cases3)
  note eqs = kfifo_span_eq [OF wf len span]
  have E: "0 < ?E" using kfifo_wf_pos(1) [OF wf] .
  have d: "?N \<le> length (kf_store f)" using wf by (simp add: kfifo_wf_def)
  have N: "unat len' \<le> ?N" "unat len' \<le> length dst" using len dst by (simp_all add: eqs(2))
  have kE: "unat len * ?E + ?E \<le> 2 ^ 32"
    using mult_le_mono1 [OF len, of ?E] big by linarith
  obtain t1 r1 bs r where c: "copy dst 0 (kf_store f) (unat off') l = Some (t1, r1)"
    "(if r1 \<noteq> 0 then Some (t1, r1 + len' - l) else copy t1 (unat l) (kf_store f) 0 (len' - l)) =
     Some (bs @ drop (unat len') dst, r)"
    and bs: "length bs = unat len'" "unat r \<le> unat len'"
      "take (unat len' - unat r) bs =
       take (unat len' - unat r) (ring_read (kf_store f) ?N (unat off') (unat len'))"
    by (rule two_part_out [OF eqs(5) N(1) d N(2) eqs(3)])
  obtain q where q: "DIV_ROUND_UP r (kf_esize f) = Some q" "q = 0 \<longleftrightarrow> r = 0" "unat q \<le> unat len"
    "unat (len' - q * kf_esize f) = (unat len - unat q) * ?E"
    "take ((unat len - unat q) * ?E) bs =
     take ((unat len - unat q) * ?E) (ring_read (kf_store f) ?N (unat off') (unat len'))"
    by (rule leftover [OF E eqs(2) kE bs(2,3,1)])
  have "kfifo_copy_to_user copy f dst len off =
      Some (bs @ drop (unat len') dst, q, len' - q * kf_esize f)"
    using c q(1,2) by (cases "r1 = 0") (auto simp: kfifo_copy_to_user_def span Let_def)
  then show thesis using that q bs(1) unfolding eqs(1,2) by metis
qed

lemma fifo_from_user_result:
  assumes wf: "kfifo_wf f"
    and big: "kfifo_cap f * unat (kf_esize f) + unat (kf_esize f) \<le> 2 ^ 32"
    and k: "k = min (unat len div unat (kf_esize f)) (kfifo_cap f - kfifo_used f)"
    and src: "k * unat (kf_esize f) \<le> length src"
  obtains f' err copied m where "fifo_from_user copy f src len = Some (f', err, copied)"
    "m \<le> k" "err = (if m = k then 0 else - EFAULT)" "unat copied = m * unat (kf_esize f)"
    "kfifo_wf f'" "kfifo_bytes f' = kfifo_bytes f @ take (m * unat (kf_esize f)) src"
    "kfifo_cap f' = kfifo_cap f"
proof -
  let ?E = "unat (kf_esize f)"
  let ?w = "min (len div kf_esize f) (kfifo_unused f)"
  have w: "unat ?w = k" by (simp add: k unat_min unat_div kfifo_unused_eq [OF wf])
  have c: "unat ?w \<le> kfifo_cap f" unfolding w k by simp
  have s: "unat ?w * ?E \<le> length src" using src by (simp add: w)
  obtain bs ret copied where cp: "kfifo_copy_from_user copy f src ?w (kf_in f) = Some (kf_set_store f
      (ring_write (kf_store f) (kfifo_cap f * ?E) (unat (kf_in f) mod kfifo_cap f * ?E) bs), ret, copied)"
    and bs: "length bs = k * ?E" "unat ret \<le> k" "unat copied = (k - unat ret) * ?E"
      "take ((k - unat ret) * ?E) bs = take ((k - unat ret) * ?E) src"
    using kfifo_copy_from_user_result [OF wf c big s, of "kf_in f"] unfolding w by metis
  have E: "kf_esize f \<noteq> 0" using kfifo_wf_pos(1) [OF wf] by auto
  have e: "(if kf_esize f \<noteq> 1 then len div kf_esize f else len) = len div kf_esize f" by simp
  have room: "kfifo_used f + k \<le> kfifo_cap f" using wf k by (auto simp: kfifo_wf_def)
  have n: "unat (?w - ret) = k - unat ret" using bs(2) w by (simp add: unat_sub_no_wrap)
  then have nk: "unat (?w - ret) \<le> k" by simp
  let ?f = "(kf_set_store f (ring_write (kf_store f) (kfifo_cap f * ?E)
      (unat (kf_in f) mod kfifo_cap f * ?E) bs))\<lparr>kf_in := kf_in f + (?w - ret)\<rparr>"
  have r0: "ret = 0 \<longleftrightarrow> k - unat ret = k" using bs(2) by (simp add: word_unat_eq_iff) arith
  have eq: "fifo_from_user copy f src len =
      Some (?f, (if k - unat ret = k then 0 else - EFAULT), copied)"
    using E cp unfolding fifo_from_user_def Let_def e word_clip_eq by (simp flip: r0)
  note cm = kfifo_commit_in [OF wf bs(1) room nk refl]
  show thesis
    by (rule that [OF eq _ refl]) (use cm(1-3) bs(3,4) n in simp_all)
qed

lemma fifo_to_user_result:
  assumes wf: "kfifo_wf f"
    and big: "kfifo_cap f * unat (kf_esize f) + unat (kf_esize f) \<le> 2 ^ 32"
    and k: "k = min (unat len div unat (kf_esize f)) (kfifo_used f)"
    and dst: "k * unat (kf_esize f) \<le> length dst"
  obtains f' dst' err copied m where "fifo_to_user copy f dst len = Some (f', dst', err, copied)"
    "m \<le> k" "err = (if m = k then 0 else - EFAULT)" "unat copied = m * unat (kf_esize f)"
    "length dst' = length dst"
    "take (m * unat (kf_esize f)) dst' = take (m * unat (kf_esize f)) (kfifo_bytes f)"
    "drop (k * unat (kf_esize f)) dst' = drop (k * unat (kf_esize f)) dst"
    "kfifo_wf f'" "kfifo_bytes f' = drop (m * unat (kf_esize f)) (kfifo_bytes f)"
    "kfifo_cap f' = kfifo_cap f"
proof -
  let ?E = "unat (kf_esize f)"
  let ?w = "min (len div kf_esize f) (kf_in f - kf_out f)"
  have w: "unat ?w = k" by (simp add: k unat_min unat_div kfifo_used_def)
  have ku: "k \<le> kfifo_used f" by (simp add: k)
  have c: "unat ?w \<le> kfifo_cap f" unfolding w using ku wf by (simp add: kfifo_wf_def)
  have s: "unat ?w * ?E \<le> length dst" using dst by (simp add: w)
  obtain bs ret copied where cp: "kfifo_copy_to_user copy f dst ?w (kf_out f) =
      Some (bs @ drop (k * ?E) dst, ret, copied)"
    and bs: "length bs = k * ?E" "unat ret \<le> k" "unat copied = (k - unat ret) * ?E"
      "take ((k - unat ret) * ?E) bs = take ((k - unat ret) * ?E) (take (k * ?E) (kfifo_bytes f))"
    using kfifo_copy_to_user_result [OF wf c big s, of "kf_out f"]
    unfolding w kfifo_peek_bytes [OF ku] by metis
  have E: "kf_esize f \<noteq> 0" using kfifo_wf_pos(1) [OF wf] by auto
  have e: "(if kf_esize f \<noteq> 1 then len div kf_esize f else len) = len div kf_esize f" by simp
  have n: "unat (?w - ret) = k - unat ret" using bs(2) w by (simp add: unat_sub_no_wrap)
  then have nk: "unat (?w - ret) \<le> kfifo_used f" using ku by simp
  have r0: "ret = 0 \<longleftrightarrow> k - unat ret = k" using bs(2) by (simp add: word_unat_eq_iff) arith
  have eq: "fifo_to_user copy f dst len = Some (f\<lparr>kf_out := kf_out f + (?w - ret)\<rparr>,
      bs @ drop (k * ?E) dst, (if k - unat ret = k then 0 else - EFAULT), copied)"
    using E cp unfolding fifo_to_user_def Let_def e word_clip_eq by (simp flip: r0)
  note cm = kfifo_commit_out [OF wf nk refl]
  have "take ((k - unat ret) * ?E) bs = take ((k - unat ret) * ?E) (kfifo_bytes f)"
    using bs(4) by (simp add: min_absorb1)
  then show thesis
    by (intro that [OF eq _ refl]) (use cm(1-3) bs(1,3) n dst in simp_all)
qed

lemma fifo_from_user_r_room:
  assumes bf: "byte_fifo f" and R: "R \<in> {1, 2}"
    and n: "fifo_max_r len R = Some n" "unat n \<le> length src"
    and room: "kfifo_used f + unat n + unat R \<le> kfifo_cap f"
  obtains f' err copied where "fifo_from_user_r copy f src len R = Some (f', err, copied)"
    "byte_fifo f'" "kfifo_cap f' = kfifo_cap f"
    "err = 0 \<and> copied = n \<and> kfifo_bytes f' = kfifo_bytes f @ rec_len R n @ take (unat n) src \<or>
     err = - EFAULT \<and> copied = 0 \<and> kfifo_bytes f' = kfifo_bytes f"
proof -
  let ?N = "kfifo_cap f" and ?p = "unat (kf_in f) mod kfifo_cap f"
  note wf = byte_fifoD [OF bf]
  have p: "?p < ?N" using kfifo_wf_pos(2) [OF wf(1)] by simp
  note st = byte_fifo_store [OF bf]
  have d: "kf_data f \<noteq> None" using wf(1) by (simp add: kfifo_wf_def)
  have nR: "unat (n + R) = unat n + unat R"
    using room kfifo_wf_cap_le [OF wf(1)] by (intro unat_add_no_wrap) simp
  then have guard: "\<not> n + R > kfifo_unused f"
    using room kfifo_unused_eq [OF wf(1)] by (simp add: word_less_nat_alt)
  let ?g = "kf_set_store f (ring_write (kf_store f) ?N ?p (rec_len R n))"
  have rl: "length (rec_len R n) = unat R" by (rule length_rec_len [OF R])
  have bg: "byte_fifo ?g" using st p room rl bf by (intro byte_fifo_set_store) simp_all
  have c: "unat n \<le> kfifo_cap ?g" using room by simp
  have big: "kfifo_cap ?g * unat (kf_esize ?g) + unat (kf_esize ?g) \<le> 2 ^ 32"
    using kfifo_wf_cap_le [OF wf(1)] wf(2) by simp
  have s: "unat n * unat (kf_esize ?g) \<le> length src" using n(2) wf(2) by simp
  have q: "unat (kf_in f + R) mod ?N = (?p + length (rec_len R n)) mod ?N"
    by (simp add: kfifo_pos_add [OF wf(1)] rl)
  obtain bs ret copied where cp: "kfifo_copy_from_user copy ?g src n (kf_in f + R) =
      Some (kf_set_store f (ring_write (kf_store ?g) ?N ((?p + length (rec_len R n)) mod ?N) bs), ret, copied)"
    and bs: "length bs = unat n" "unat ret \<le> unat n" "unat copied = unat n - unat ret"
      "take (unat n - unat ret) bs = take (unat n - unat ret) src"
    using kfifo_copy_from_user_result [OF byte_fifoD(1) [OF bg] c big s, of "kf_in f + R"]
    by (auto simp: wf(2) q)
  have fit: "length (rec_len R n) + length bs \<le> ?N" using bs(1) rl room by simp
  let ?x = "rec_len R n @ bs"
  let ?h = "kf_set_store f (ring_write (kf_store f) ?N ?p ?x)"
  have cp': "kfifo_copy_from_user copy ?g src n (kf_in f + R) = Some (?h, ret, copied)"
    using cp d ring_write_append [OF p fit st] by simp
  have x: "length ?x = (unat n + unat R) * unat (kf_esize f)"
    "kfifo_used f + (unat n + unat R) \<le> kfifo_cap f" using bs(1) rl wf(2) room by simp_all
  note step = fifo_from_user_r_def n(1) guard kfifo_poke_n_eq [OF bf R]
  show thesis
  proof (cases "ret = 0")
    case True
    then have cn: "copied = n" "take (unat n) src = bs" using bs by (simp_all add: word_unat_eq_iff)
    have le: "unat (n + R) \<le> unat n + unat R" using nR by simp
    have eq: "fifo_from_user_r copy f src len R = Some (?h\<lparr>kf_in := kf_in f + (n + R)\<rparr>, 0, n)"
      using True cp' cn(1) by (simp add: step)
    note cm = kfifo_commit_in [OF wf(1) x le refl]
    show thesis
      by (rule that [OF eq]) (use cm nR wf(2) rl bs(1) cn(2) in \<open>simp_all add: byte_fifo_def\<close>)
  next
    case False
    have le: "unat (0 :: u32) \<le> unat n + unat R" by simp
    have eq: "fifo_from_user_r copy f src len R = Some (?h\<lparr>kf_in := kf_in f + 0\<rparr>, - EFAULT, 0)"
      using False cp' by (simp add: step)
    note cm = kfifo_commit_in [OF wf(1) x le refl]
    show thesis
      by (rule that [OF eq]) (use cm wf(2) in \<open>simp_all add: byte_fifo_def\<close>)
  qed
qed

end

section \<open>Copies that never stop short\<close>

context complete_user_copy
begin

lemma kfifo_copy_from_user_complete:
  "kfifo_copy_from_user copy f src len off = Some (f', ret, copied) \<Longrightarrow> ret = 0"
  by (auto simp: kfifo_copy_from_user_def Let_def split: bind_splits prod.splits if_splits
      dest: copy_complete)

lemma kfifo_copy_to_user_complete:
  "kfifo_copy_to_user copy f dst len off = Some (dst', ret, copied) \<Longrightarrow> ret = 0"
  by (auto simp: kfifo_copy_to_user_def Let_def split: bind_splits prod.splits if_splits
      dest: copy_complete)

lemma fifo_from_user_no_error:
  "fifo_from_user copy f src len = Some (f', err, copied) \<Longrightarrow> err = 0"
  by (auto simp: fifo_from_user_def Let_def split: bind_splits prod.splits if_splits
      dest: kfifo_copy_from_user_complete)

lemma fifo_to_user_no_error:
  "fifo_to_user copy f dst len = Some (f', dst', err, copied) \<Longrightarrow> err = 0"
  by (auto simp: fifo_to_user_def Let_def split: bind_splits prod.splits if_splits
      dest: kfifo_copy_to_user_complete)

end

section \<open>Properties\<close>

lemma sample_fifo_small:
  "kfifo_cap sample_fifo * unat (kf_esize sample_fifo) + unat (kf_esize sample_fifo) \<le> 2 ^ 32"
  by (simp add: sample_fifo_facts)

text \<open>
  C10. \<open>__kfifo_from_user\<close> with the library's own copy never fails: it appends the whole
  elements of the user buffer that fit the free space and reports their size in bytes.
\<close>

theorem fifo_from_user_appends:
  assumes "kfifo_wf f" "kfifo_cap f * unat (kf_esize f) + unat (kf_esize f) \<le> 2 ^ 32"
    and "k = min (unat len div unat (kf_esize f)) (kfifo_cap f - kfifo_used f)"
    and "k * unat (kf_esize f) \<le> length src"
  shows "\<exists>f' copied. fifo_from_user (copy_from_user (- 1)) f src len = Some (f', 0, copied) \<and>
    unat copied = k * unat (kf_esize f) \<and> kfifo_wf f' \<and>
    kfifo_bytes f' = kfifo_bytes f @ take (k * unat (kf_esize f)) src"
proof -
  obtain f' err copied m where
    r: "fifo_from_user (copy_from_user (- 1)) f src len = Some (f', err, copied)"
    "m \<le> k" "err = (if m = k then 0 else - EFAULT)" "unat copied = m * unat (kf_esize f)"
    "kfifo_wf f'" "kfifo_bytes f' = kfifo_bytes f @ take (m * unat (kf_esize f)) src"
    by (rule cfu.fifo_from_user_result [OF assms])
  have "err = 0" using r(1) by (rule cfu.fifo_from_user_no_error)
  with r show ?thesis by (auto simp: errno_defs split: if_splits)
qed

theorem fifo_from_user_appends_witness:
  "\<exists>f' copied. fifo_from_user (copy_from_user (- 1)) sample_fifo [1, 2, 3, 4, 5] 5 = Some (f', 0, copied) \<and>
    unat copied = 4 \<and> kfifo_wf f' \<and> kfifo_bytes f' = [40, 41, 10, 11, 1, 2, 3, 4]"
  using fifo_from_user_appends [OF sample_fifo_facts(1) sample_fifo_small, of 2 5 "[1, 2, 3, 4, 5]"]
  by (simp add: sample_fifo_facts sample_fifo_bytes)

text \<open>
  C11. \<open>__kfifo_to_user\<close> with the library's own copy never fails: it hands out and removes the
  oldest elements that fit the requested length as a whole, and leaves the rest of the user
  buffer alone.
\<close>

theorem fifo_to_user_removes:
  assumes "kfifo_wf f" "kfifo_cap f * unat (kf_esize f) + unat (kf_esize f) \<le> 2 ^ 32"
    and "k = min (unat len div unat (kf_esize f)) (kfifo_used f)"
    and "k * unat (kf_esize f) \<le> length dst"
  shows "\<exists>f' copied. fifo_to_user copy_to_user f dst len =
      Some (f', take (k * unat (kf_esize f)) (kfifo_bytes f) @ drop (k * unat (kf_esize f)) dst, 0, copied) \<and>
    unat copied = k * unat (kf_esize f) \<and> kfifo_wf f' \<and>
    kfifo_bytes f' = drop (k * unat (kf_esize f)) (kfifo_bytes f)"
proof -
  obtain f' dst' err copied m where
    r: "fifo_to_user copy_to_user f dst len = Some (f', dst', err, copied)"
    "m \<le> k" "err = (if m = k then 0 else - EFAULT)" "unat copied = m * unat (kf_esize f)"
    "take (m * unat (kf_esize f)) dst' = take (m * unat (kf_esize f)) (kfifo_bytes f)"
    "drop (k * unat (kf_esize f)) dst' = drop (k * unat (kf_esize f)) dst"
    "kfifo_wf f'" "kfifo_bytes f' = drop (m * unat (kf_esize f)) (kfifo_bytes f)"
    by (rule ctu.fifo_to_user_result [OF assms])
  have "err = 0" using r(1) by (rule ctu.fifo_to_user_no_error)
  then have m: "m = k" using r(3) by (simp add: errno_defs split: if_splits)
  with r(5,6) have "dst' = take (k * unat (kf_esize f)) (kfifo_bytes f) @ drop (k * unat (kf_esize f)) dst"
    by (metis append_take_drop_id)
  with r m \<open>err = 0\<close> show ?thesis by auto
qed

theorem fifo_to_user_removes_witness:
  "\<exists>f' copied. fifo_to_user copy_to_user sample_fifo [0, 0, 0, 0] 3 =
      Some (f', [40, 41, 0, 0], 0, copied) \<and> unat copied = 2 \<and> kfifo_wf f' \<and>
    kfifo_bytes f' = [10, 11]"
  using fifo_to_user_removes [OF sample_fifo_facts(1) sample_fifo_small, of 1 3 "[0, 0, 0, 0]"]
  by (simp add: sample_fifo_facts sample_fifo_bytes)


text \<open>A copy that stops after \<open>w\<close> bytes, for the witness.\<close>

definition stopping_copy :: "nat \<Rightarrow> user_copy" where
  "stopping_copy w dest doff src soff n =
     (let m = min w (unat n)
      in do { bs \<leftarrow> mem_load src soff m;
              dest \<leftarrow> mem_store dest doff bs;
              Some (dest, of_nat (unat n - m)) })"

interpretation stop: user_copy "stopping_copy w" for w
proof
  fix soff doff and src dest :: "u8 list" and n :: u32
  assume b: "soff + unat n \<le> length src" "doff + unat n \<le> length dest"
  define m where "m = min w (unat n)"
  let ?bs = "take m (drop soff src) @ take (unat n - m) (drop (doff + m) dest)"
  have m: "m \<le> unat n" by (simp add: m_def)
  have "unat n - m < 2 ^ 32" using unat_less_word [of n] by simp
  then have r: "unat (of_nat (unat n - m) :: u32) = unat n - m"
    by (simp add: unat_of_nat del: of_nat_diff)
  have "drop (doff + m) dest = take (unat n - m) (drop (doff + m) dest) @ drop (doff + unat n) dest"
    using append_take_drop_id [of "unat n - m" "drop (doff + m) dest"] m
    by (simp add: add.commute)
  moreover have l: "length ?bs = unat n" using b m by simp
  ultimately have "stopping_copy w dest doff src soff n =
      Some (take doff dest @ ?bs @ drop (doff + length ?bs) dest, of_nat (unat n - m))"
    using b m by (simp add: stopping_copy_def Let_def mem_simps del: of_nat_diff flip: m_def)
  moreover have "take m ?bs = take m (drop soff src)" using b m by simp
  ultimately show "\<exists>bs r. stopping_copy w dest doff src soff n =
        Some (take doff dest @ bs @ drop (doff + length bs) dest, r) \<and>
      length bs = unat n \<and> unat r \<le> unat n \<and>
      take (unat n - unat r) bs = take (unat n - unat r) (drop soff src)"
    using l r m by (intro exI [of _ ?bs] exI [of _ "of_nat (unat n - m)"]) (simp del: of_nat_diff)
qed


text \<open>
  C12. \<open>__kfifo_from_user_r\<close> cuts a record to the length its length field can hold. With room it
  either adds the cut record as a whole or, when the user copy stops short, returns
  \<open>-EFAULT\<close> with the queue of records as it was; without room it returns 0 bytes copied.
\<close>

theorem fifo_from_user_r_enqueues:
  assumes "user_copy cp" "holds_records R f rs"
    and "n = min (unat len) (256 ^ unat R - 1)" "n \<le> length src"
  shows "\<exists>f' err copied. fifo_from_user_r cp f src len R = Some (f', err, copied) \<and>
    (if kfifo_used f + n + unat R \<le> kfifo_cap f
     then err = 0 \<and> unat copied = n \<and> holds_records R f' (rs @ [take n src]) \<or>
          err = - EFAULT \<and> copied = 0 \<and> holds_records R f' rs
     else err = 0 \<and> copied = 0 \<and> f' = f)"
proof -
  have h: "byte_fifo f" "R \<in> {1, 2}" using assms(2) by (simp_all add: holds_records_def)
  obtain m where m: "fifo_max_r len R = Some m" "unat m = n"
    using fifo_max_r_eq [OF h(2), of len] assms(3) by metis
  have ml: "unat m \<le> length src" "unat m < 256 ^ unat R"
    using m(2) assms(3,4) h(2) by auto
  show ?thesis
  proof (cases "kfifo_used f + n + unat R \<le> kfifo_cap f")
    case True
    then have room: "kfifo_used f + unat m + unat R \<le> kfifo_cap f" using m(2) by simp
    obtain f' err copied where r: "fifo_from_user_r cp f src len R = Some (f', err, copied)"
      "byte_fifo f'"
      "err = 0 \<and> copied = m \<and> kfifo_bytes f' = kfifo_bytes f @ rec_len R m @ take (unat m) src \<or>
       err = - EFAULT \<and> copied = 0 \<and> kfifo_bytes f' = kfifo_bytes f"
      by (rule user_copy.fifo_from_user_r_room [OF assms(1) h m(1) ml(1) room])
    have "holds_records R f' (rs @ [take (unat m) src])"
      if "kfifo_bytes f' = kfifo_bytes f @ rec_len R m @ take (unat m) src"
      by (rule holds_records_snoc [OF assms(2) r(2) ml(2) _ that]) (use ml(1) in simp)
    moreover have "holds_records R f' rs" if "kfifo_bytes f' = kfifo_bytes f"
      using that assms(2) r(2) by (simp add: holds_records_def)
    ultimately show ?thesis using r True m(2) by auto
  next
    case False
    have "unat m + unat R < 2 ^ 32" using ml(2) h(2) by auto
    moreover have "kfifo_used f \<le> kfifo_cap f"
      using byte_fifoD(1) [OF h(1)] by (simp add: kfifo_wf_def)
    ultimately have "m + R > kfifo_unused f"
      using False m(2) kfifo_unused_eq [OF byte_fifoD(1) [OF h(1)]]
      by (simp add: word_less_nat_alt unat_add_no_wrap)
    with False m(1) show ?thesis by (simp add: fifo_from_user_r_def)
  qed
qed

theorem fifo_from_user_r_enqueues_witness:
  "\<exists>f' err copied. fifo_from_user_r (stopping_copy 5) sample_record_fifo [7, 8] 2 1 = Some (f', err, copied) \<and>
    (err = 0 \<and> unat copied = 2 \<and> holds_records 1 f' [[51, 52, 53], [7, 8]] \<or>
     err = - EFAULT \<and> copied = 0 \<and> holds_records 1 f' [[51, 52, 53]])"
  using fifo_from_user_r_enqueues [OF stop.user_copy_axioms sample_record_fifo_holds,
      of 2 2 "[7, 8]" 5]
  by (simp add: kfifo_used_def kfifo_cap_def sample_record_fifo_def)

end
