(* ===== verification/Kfifo_Macros.thy ===== *)
theory Kfifo_Macros
  imports Kfifo_User
begin

text \<open>
  The typed interface of \<open>linux/kfifo.h\<close>. Its macros choose between the functions of
  \<open>fifo.c\<close> by what the compiler knows of the fifo's type; that knowledge is the record
  \<open>kfifo_type\<close>. The locale \<open>byte_queue\<close> is what a driver relies on when it uses a
  fifo of bytes, and is interpreted on the macros.
\<close>

section \<open>Definitions\<close>

text \<open>
  \<open>kt_recsize\<close> is \<open>sizeof( *rectype)\<close>, 0 for a fifo without records, \<open>kt_elem\<close> is
  \<open>sizeof( *type)\<close>, and \<open>kt_ptr\<close> is \<open>__is_kfifo_ptr\<close>: the storage is not part of the
  structure.
\<close>

record kfifo_type =
  kt_recsize :: u32
  kt_elem :: u32
  kt_ptr :: bool

definition INIT_KFIFO :: "kfifo_type \<Rightarrow> u32 \<Rightarrow> block \<Rightarrow> kfifo \<Rightarrow> kfifo" where
  "INIT_KFIFO t array_size buf f =
     f\<lparr>kf_in := 0, kf_out := 0,
       kf_mask := (if kt_ptr t then 0 else array_size - 1),
       kf_esize := kt_elem t,
       kf_data := (if kt_ptr t then None else Some buf)\<rparr>"

definition DEFINE_KFIFO :: "kfifo_type \<Rightarrow> u32 \<Rightarrow> block \<Rightarrow> kfifo" where
  "DEFINE_KFIFO t array_size buf =
     \<lparr>kf_in = 0, kf_out = 0,
      kf_mask = (if kt_ptr t then 0 else array_size - 1),
      kf_esize = kt_elem t,
      kf_data = (if kt_ptr t then None else Some buf)\<rparr>"

definition kfifo_initialized :: "kfifo \<Rightarrow> bool" where
  "kfifo_initialized f \<longleftrightarrow> kf_mask f \<noteq> 0"

definition kfifo_esize :: "kfifo \<Rightarrow> u32" where "kfifo_esize f = kf_esize f"

definition kfifo_recsize :: "kfifo_type \<Rightarrow> u32" where "kfifo_recsize t = kt_recsize t"

definition kfifo_size :: "kfifo \<Rightarrow> u32" where "kfifo_size f = kf_mask f + 1"

definition kfifo_reset :: "kfifo \<Rightarrow> kfifo" where
  "kfifo_reset f = f\<lparr>kf_in := 0, kf_out := 0\<rparr>"

definition kfifo_reset_out :: "kfifo \<Rightarrow> kfifo" where
  "kfifo_reset_out f = f\<lparr>kf_out := kf_in f\<rparr>"

definition kfifo_len :: "kfifo \<Rightarrow> u32" where "kfifo_len f = kf_in f - kf_out f"

definition kfifo_is_empty :: "kfifo \<Rightarrow> bool" where "kfifo_is_empty f \<longleftrightarrow> kf_in f = kf_out f"

definition kfifo_is_full :: "kfifo \<Rightarrow> bool" where "kfifo_is_full f \<longleftrightarrow> kfifo_len f > kf_mask f"

definition kfifo_avail :: "kfifo_type \<Rightarrow> kfifo \<Rightarrow> u32 option" where
  "kfifo_avail t f =
     (let recsize = kt_recsize t;
          avail = kfifo_size f - kfifo_len f
      in if recsize \<noteq> 0
         then if avail \<le> recsize then Some 0 else fifo_max_r (avail - recsize) recsize
         else Some avail)"

definition kfifo_skip :: "kfifo_type \<Rightarrow> kfifo \<Rightarrow> kfifo option" where
  "kfifo_skip t f =
     (if kt_recsize t \<noteq> 0 then fifo_skip_r f (kt_recsize t)
      else Some (f\<lparr>kf_out := kf_out f + 1\<rparr>))"

definition kfifo_peek_len :: "kfifo_type \<Rightarrow> kfifo \<Rightarrow> u32 option" where
  "kfifo_peek_len t f =
     (if kt_recsize t = 0 then Some (kfifo_len f * kt_elem t) else fifo_len_r f (kt_recsize t))"

definition kfifo_alloc ::
  "'h libc \<Rightarrow> kfifo_type \<Rightarrow> kfifo \<Rightarrow> u32 \<Rightarrow> u32 \<Rightarrow> 'h \<Rightarrow> (kfifo \<times> int \<times> 'h) option" where
  "kfifo_alloc L t f sz gfp_mask h =
     (if kt_ptr t then fifo_alloc L f sz (kt_elem t) gfp_mask h else Some (f, - EINVAL, h))"

definition kfifo_free :: "'h libc \<Rightarrow> kfifo_type \<Rightarrow> kfifo \<Rightarrow> 'h \<Rightarrow> kfifo \<times> 'h" where
  "kfifo_free L t f h = (if kt_ptr t then fifo_free L f h else (f, h))"

definition kfifo_init :: "kfifo_type \<Rightarrow> kfifo \<Rightarrow> block option \<Rightarrow> u32 \<Rightarrow> (kfifo \<times> int) option" where
  "kfifo_init t f buffer sz =
     (if kt_ptr t then fifo_init f buffer sz (kt_elem t) else Some (f, - EINVAL))"

text \<open>An element is the list of its bytes; \<open>kfifo_put\<close> indexes the storage as an array of
  elements.\<close>

definition kfifo_put :: "kfifo_type \<Rightarrow> kfifo \<Rightarrow> u8 list \<Rightarrow> (kfifo \<times> u32) option" where
  "kfifo_put t f val =
     (if kt_recsize t \<noteq> 0 then fifo_in_r f val (kt_elem t) (kt_recsize t)
      else if kfifo_is_full f then Some (f, 0)
      else do { d \<leftarrow> mem_store (kf_store f) (unat (kf_in f AND kf_mask f) * unat (kt_elem t)) val;
                Some ((kf_set_store f d)\<lparr>kf_in := kf_in f + 1\<rparr>, 1) })"

definition kfifo_get :: "kfifo_type \<Rightarrow> kfifo \<Rightarrow> u8 list \<Rightarrow> (kfifo \<times> u8 list \<times> u32) option" where
  "kfifo_get t f val =
     (if kt_recsize t \<noteq> 0 then fifo_out_r f val (kt_elem t) (kt_recsize t)
      else if kfifo_is_empty f then Some (f, val, 0)
      else do { bs \<leftarrow> mem_load (kf_store f) (unat (kf_out f AND kf_mask f) * unat (kt_elem t))
                         (unat (kt_elem t));
                val \<leftarrow> mem_store val 0 bs;
                Some (f\<lparr>kf_out := kf_out f + 1\<rparr>, val, 1) })"

definition kfifo_peek :: "kfifo_type \<Rightarrow> kfifo \<Rightarrow> u8 list \<Rightarrow> (u8 list \<times> u32) option" where
  "kfifo_peek t f val =
     (if kt_recsize t \<noteq> 0 then fifo_out_peek_r f val (kt_elem t) (kt_recsize t)
      else if kfifo_is_empty f then Some (val, 0)
      else do { bs \<leftarrow> mem_load (kf_store f) (unat (kf_out f AND kf_mask f) * unat (kt_elem t))
                         (unat (kt_elem t));
                val \<leftarrow> mem_store val 0 bs;
                Some (val, 1) })"

definition kfifo_in :: "kfifo_type \<Rightarrow> kfifo \<Rightarrow> u8 list \<Rightarrow> u32 \<Rightarrow> (kfifo \<times> u32) option" where
  "kfifo_in t f buf n =
     (if kt_recsize t \<noteq> 0 then fifo_in_r f buf n (kt_recsize t) else fifo_in f buf n)"

definition kfifo_out :: "kfifo_type \<Rightarrow> kfifo \<Rightarrow> u8 list \<Rightarrow> u32 \<Rightarrow> (kfifo \<times> u8 list \<times> u32) option" where
  "kfifo_out t f buf n =
     (if kt_recsize t \<noteq> 0 then fifo_out_r f buf n (kt_recsize t) else fifo_out f buf n)"

definition kfifo_out_peek :: "kfifo_type \<Rightarrow> kfifo \<Rightarrow> u8 list \<Rightarrow> u32 \<Rightarrow> (u8 list \<times> u32) option" where
  "kfifo_out_peek t f buf n =
     (if kt_recsize t \<noteq> 0 then fifo_out_peek_r f buf n (kt_recsize t) else fifo_out_peek f buf n)"

definition kfifo_from_user ::
  "user_copy \<Rightarrow> kfifo_type \<Rightarrow> kfifo \<Rightarrow> u8 list \<Rightarrow> u32 \<Rightarrow> (kfifo \<times> int \<times> u32) option" where
  "kfifo_from_user cp t f from len =
     (if kt_recsize t \<noteq> 0 then fifo_from_user_r cp f from len (kt_recsize t)
      else fifo_from_user cp f from len)"

definition kfifo_to_user ::
  "user_copy \<Rightarrow> kfifo_type \<Rightarrow> kfifo \<Rightarrow> u8 list \<Rightarrow> u32 \<Rightarrow> (kfifo \<times> u8 list \<times> int \<times> u32) option" where
  "kfifo_to_user cp t f to len =
     (if kt_recsize t \<noteq> 0 then fifo_to_user_r cp f to len (kt_recsize t)
      else fifo_to_user cp f to len)"

text \<open>\<open>__kfifo_dma_in_finish_r\<close>, \<open>__kfifo_dma_out_finish_r\<close> and their macros.\<close>

definition fifo_dma_in_finish_r :: "kfifo \<Rightarrow> u32 \<Rightarrow> u32 \<Rightarrow> kfifo option" where
  "fifo_dma_in_finish_r f len recsize =
     do { len \<leftarrow> fifo_max_r len recsize;
          f \<leftarrow> kfifo_poke_n f len recsize;
          Some (f\<lparr>kf_in := kf_in f + (len + recsize)\<rparr>) }"

definition fifo_dma_out_finish_r :: "kfifo \<Rightarrow> u32 \<Rightarrow> kfifo option" where
  "fifo_dma_out_finish_r f recsize =
     do { len \<leftarrow> kfifo_peek_n f recsize;
          Some (f\<lparr>kf_out := kf_out f + (len + recsize)\<rparr>) }"

definition kfifo_dma_in_finish :: "kfifo_type \<Rightarrow> kfifo \<Rightarrow> u32 \<Rightarrow> kfifo option" where
  "kfifo_dma_in_finish t f len =
     (if kt_recsize t \<noteq> 0 then fifo_dma_in_finish_r f len (kt_recsize t)
      else if kt_elem t = 0 then None
      else Some (f\<lparr>kf_in := kf_in f + len div kt_elem t\<rparr>))"

definition kfifo_dma_out_finish :: "kfifo_type \<Rightarrow> kfifo \<Rightarrow> u32 \<Rightarrow> kfifo option" where
  "kfifo_dma_out_finish t f len =
     (if kt_recsize t \<noteq> 0 then fifo_dma_out_finish_r f (kt_recsize t)
      else if kt_elem t = 0 then None
      else Some (f\<lparr>kf_out := kf_out f + len div kt_elem t\<rparr>))"

text \<open>The type of the fifos a character driver embeds: \<open>DECLARE_KFIFO(f, unsigned char, n)\<close>.\<close>

definition byte_kfifo :: kfifo_type where
  "byte_kfifo = \<lparr>kt_recsize = 0, kt_elem = 1, kt_ptr = False\<rparr>"

section \<open>Length, emptiness, fullness\<close>

lemma kf_set_store_self [simp]: "kf_set_store f (kf_store f) = f"
  by (cases "kf_data f") (auto simp: kf_set_store_def kf_store_def)

lemma kfifo_len_eq: "unat (kfifo_len f) = kfifo_used f"
  by (simp add: kfifo_len_def kfifo_used_def)

lemma kfifo_is_empty_iff: "kfifo_wf f \<Longrightarrow> kfifo_is_empty f \<longleftrightarrow> kfifo_bytes f = []"
  by (simp add: kfifo_is_empty_def kfifo_empty_iff)

lemma kfifo_is_full_iff:
  assumes "kfifo_wf f"
  shows "kfifo_is_full f \<longleftrightarrow> kfifo_used f = kfifo_cap f"
  using assms
  by (auto simp: kfifo_is_full_def word_less_nat_alt kfifo_len_eq kfifo_wf_def kfifo_cap_def)

lemma kfifo_avail_eq:
  assumes "kfifo_wf f" "kt_recsize t = 0"
  obtains a where "kfifo_avail t f = Some a" "unat a = kfifo_cap f - kfifo_used f"
  using assms(2) kfifo_unused_eq [OF assms(1)]
  by (simp add: that kfifo_avail_def kfifo_size_def kfifo_len_def kfifo_unused_def Let_def)

lemma INIT_KFIFO_wf:
  assumes "\<not> kt_ptr t" "array_size = 2 ^ k" "0 < k" "k < 32" "0 < unat (kt_elem t)"
    and "2 ^ k * unat (kt_elem t) < 2 ^ 32" "2 ^ k * unat (kt_elem t) \<le> length d"
  shows "kfifo_wf (INIT_KFIFO t array_size (a, d) f)"
    "kfifo_bytes (INIT_KFIFO t array_size (a, d) f) = []"
    "kfifo_cap (INIT_KFIFO t array_size (a, d) f) = 2 ^ k"
  using kfifo_fresh_wf [OF assms(3,4,5,6,7), of "INIT_KFIFO t array_size (a, d) f" a] assms(1,2)
  by (simp_all add: INIT_KFIFO_def)

lemma kfifo_reset_out_empty:
  assumes "kfifo_wf f"
  shows "kfifo_wf (kfifo_reset_out f)" "kfifo_bytes (kfifo_reset_out f) = []"
proof -
  have "kfifo_reset_out f = f\<lparr>kf_out := kf_out f + (kf_in f - kf_out f)\<rparr>"
    by (simp add: kfifo_reset_out_def)
  from kfifo_commit_out [OF assms _ this]
  show "kfifo_wf (kfifo_reset_out f)" "kfifo_bytes (kfifo_reset_out f) = []"
    by (simp_all add: kfifo_used_def length_kfifo_bytes)
qed

lemma kfifo_reset_empty:
  assumes "kfifo_wf f"
  shows "kfifo_wf (kfifo_reset f)" "kfifo_bytes (kfifo_reset f) = []"
  using assms
  by (simp_all add: kfifo_reset_def kfifo_wf_def kfifo_used_def kfifo_cap_def kf_store_def
      kfifo_bytes_def Let_def)

section \<open>One element is a block of one element\<close>

lemma kfifo_elem_pos:
  assumes "kfifo_wf f"
  shows "unat (i AND kf_mask f) * unat (kf_esize f) + unat (kf_esize f) \<le> kfifo_cap f * unat (kf_esize f)"
proof -
  have "unat (i AND kf_mask f) < kfifo_cap f"
    using kfifo_mask_pos [OF assms, of i] kfifo_wf_pos(2) [OF assms] by simp
  then have "(unat (i AND kf_mask f) + 1) * unat (kf_esize f) \<le> kfifo_cap f * unat (kf_esize f)"
    by (intro mult_le_mono1) simp
  then show ?thesis by simp
qed

lemma kfifo_put_is_in:
  assumes wf: "kfifo_wf f" and t: "kt_recsize t = 0" "kt_elem t = kf_esize f"
    and val: "length val = unat (kf_esize f)"
  shows "kfifo_put t f val = fifo_in f val 1"
proof -
  let ?E = "unat (kf_esize f)" and ?N = "kfifo_cap f * unat (kf_esize f)"
  let ?p = "unat (kf_in f) mod kfifo_cap f * unat (kf_esize f)"
  have d: "?N \<le> length (kf_store f)" using wf by (simp add: kfifo_wf_def)
  have pN: "?p < ?N" using kfifo_wf_pos [OF wf] by simp
  note pos = kfifo_elem_pos [OF wf, of "kf_in f"] kfifo_mask_pos [OF wf, of "kf_in f"]
  show ?thesis
  proof (cases "kfifo_is_full f")
    case True
    then have "0 = min (unat (1 :: u32)) (kfifo_cap f - kfifo_used f)"
      by (simp add: kfifo_is_full_iff [OF wf])
    then obtain w where "unat w = 0" "fifo_in f val 1 =
        Some ((kf_set_store f (ring_write (kf_store f) ?N ?p []))\<lparr>kf_in := kf_in f + w\<rparr>, w)"
      using fifo_in_eq [OF wf, of 0 1 val] by (auto simp: unat_eq_zero)
    then show ?thesis
      using True t pN by (simp add: kfifo_put_def unat_eq_zero)
  next
    case False
    moreover have "kfifo_used f \<le> kfifo_cap f" using wf by (simp add: kfifo_wf_def)
    ultimately have "1 = min (unat (1 :: u32)) (kfifo_cap f - kfifo_used f)"
      by (simp add: kfifo_is_full_iff [OF wf])
    then obtain w where w: "unat w = 1" "fifo_in f val 1 =
        Some ((kf_set_store f (ring_write (kf_store f) ?N ?p val))\<lparr>kf_in := kf_in f + w\<rparr>, w)"
      using fifo_in_eq [OF wf, of 1 1 val] val by auto
    have w1: "w = 1" using w(1) by (simp add: word_unat_eq_iff)
    have "ring_write (kf_store f) ?N ?p val = take ?p (kf_store f) @ val @ drop (?p + length val) (kf_store f)"
      using pos val by (intro ring_write_one_part) simp
    moreover have "mem_store (kf_store f) ?p val =
        Some (take ?p (kf_store f) @ val @ drop (?p + length val) (kf_store f))"
      using pos d val by (intro mem_store_Some) simp
    ultimately show ?thesis
      using False t w(2) w1 pos by (simp add: kfifo_put_def)
  qed
qed

lemma kfifo_get_is_out:
  assumes wf: "kfifo_wf f" and t: "kt_recsize t = 0" "kt_elem t = kf_esize f"
    and val: "length val = unat (kf_esize f)"
  shows "kfifo_get t f val = fifo_out f val 1"
proof -
  let ?E = "unat (kf_esize f)" and ?N = "kfifo_cap f * unat (kf_esize f)"
  let ?p = "unat (kf_out f) mod kfifo_cap f * unat (kf_esize f)"
  have d: "?N \<le> length (kf_store f)" using wf by (simp add: kfifo_wf_def)
  note pos = kfifo_elem_pos [OF wf, of "kf_out f"] kfifo_mask_pos [OF wf, of "kf_out f"]
  show ?thesis
  proof (cases "kfifo_is_empty f")
    case True
    then have u: "kfifo_used f = 0" by (simp add: kfifo_is_empty_def kfifo_used_def)
    then obtain w where "unat w = 0" "fifo_out_peek f val 1 = Some (val, w)"
      using fifo_out_peek_result [OF wf, of 0 1 val] by auto
    then show ?thesis
      using True t by (simp add: kfifo_get_def fifo_out_def unat_eq_zero)
  next
    case False
    then have "kfifo_used f \<noteq> 0"
      by (simp add: kfifo_is_empty_def kfifo_used_def unat_eq_zero)
    then have u: "1 \<le> kfifo_used f" by simp
    then have "1 = min (unat (1 :: u32)) (kfifo_used f)" by simp
    then obtain w where w: "unat w = 1" "fifo_out_peek f val 1 = Some (take ?E (kfifo_bytes f), w)"
      using fifo_out_peek_result [OF wf, of 1 1 val] val by auto
    have w1: "w = 1" using w(1) by (simp add: word_unat_eq_iff)
    have "take ?E (kfifo_bytes f) = ring_read (kf_store f) ?N ?p ?E"
      using kfifo_peek_bytes [OF u] by simp
    also have "\<dots> = take ?E (drop ?p (kf_store f))"
      using ring_read_two_parts [of ?p ?N ?E "kf_store f"] pos d kfifo_wf_pos [OF wf]
      by (simp add: min_absorb1)
    finally have "mem_load (kf_store f) ?p ?E = Some (take ?E (kfifo_bytes f))"
      using pos d by (simp add: mem_load_Some)
    moreover have "mem_store val 0 (take ?E (kfifo_bytes f)) = Some (take ?E (kfifo_bytes f))"
      using val u by (simp add: mem_store_Some length_kfifo_bytes)
    ultimately show ?thesis
      using False t w(2) w1 pos by (simp add: kfifo_get_def fifo_out_def)
  qed
qed

section \<open>What a driver relies on\<close>

locale byte_queue =
  fixes inv :: "'q \<Rightarrow> bool" and items :: "'q \<Rightarrow> u8 list" and cap :: "'q \<Rightarrow> nat"
    and is_empty :: "'q \<Rightarrow> bool" and is_full :: "'q \<Rightarrow> bool"
    and put :: "'q \<Rightarrow> u8 list \<Rightarrow> ('q \<times> u32) option"
    and get :: "'q \<Rightarrow> u8 list \<Rightarrow> ('q \<times> u8 list \<times> u32) option"
    and put_block :: "'q \<Rightarrow> u8 list \<Rightarrow> u32 \<Rightarrow> ('q \<times> u32) option"
    and get_block :: "'q \<Rightarrow> u8 list \<Rightarrow> u32 \<Rightarrow> ('q \<times> u8 list \<times> u32) option"
  assumes length_items: "inv q \<Longrightarrow> length (items q) \<le> cap q"
    and is_empty_iff: "inv q \<Longrightarrow> is_empty q \<longleftrightarrow> items q = []"
    and is_full_iff: "inv q \<Longrightarrow> is_full q \<longleftrightarrow> length (items q) = cap q"
    and put_full: "inv q \<Longrightarrow> length (items q) = cap q \<Longrightarrow> put q [b] = Some (q, 0)"
    and put_room: "inv q \<Longrightarrow> length (items q) < cap q \<Longrightarrow>
      \<exists>q'. put q [b] = Some (q', 1) \<and> inv q' \<and> items q' = items q @ [b] \<and> cap q' = cap q"
    and get_empty: "inv q \<Longrightarrow> items q = [] \<Longrightarrow> get q [x] = Some (q, [x], 0)"
    and get_item: "inv q \<Longrightarrow> items q = b # bs \<Longrightarrow>
      \<exists>q'. get q [x] = Some (q', [b], 1) \<and> inv q' \<and> items q' = bs \<and> cap q' = cap q"
    and put_block_result: "inv q \<Longrightarrow> n = min (unat len) (cap q - length (items q)) \<Longrightarrow> n \<le> length buf \<Longrightarrow>
      \<exists>q' w. put_block q buf len = Some (q', w) \<and> unat w = n \<and> inv q' \<and>
        items q' = items q @ take n buf \<and> cap q' = cap q"
    and get_block_result: "inv q \<Longrightarrow> n = min (unat len) (length (items q)) \<Longrightarrow> n \<le> length buf \<Longrightarrow>
      \<exists>q' w. get_block q buf len = Some (q', take n (items q) @ drop n buf, w) \<and> unat w = n \<and>
        inv q' \<and> items q' = drop n (items q) \<and> cap q' = cap q"

text \<open>The byte fifos of \<open>kfifo.h\<close> are such queues.\<close>

lemma byte_fifo_used: "byte_fifo f \<Longrightarrow> length (kfifo_bytes f) = kfifo_used f"
  using byte_fifoD(2) [of f] by (simp add: length_kfifo_bytes)

lemma byte_fifo_in:
  assumes bf: "byte_fifo q" and n: "n = min (unat len) (kfifo_cap q - length (kfifo_bytes q))"
    and buf: "n \<le> length buf"
  shows "\<exists>q' w. fifo_in q buf len = Some (q', w) \<and> unat w = n \<and> byte_fifo q' \<and>
    kfifo_bytes q' = kfifo_bytes q @ take n buf \<and> kfifo_cap q' = kfifo_cap q"
proof -
  have e: "n = min (unat len) (kfifo_cap q - kfifo_used q)" "n * unat (kf_esize q) \<le> length buf"
    using n buf byte_fifo_used [OF bf] byte_fifoD(2) [OF bf] by simp_all
  from fifo_in_result [OF byte_fifoD(1) [OF bf] e] show ?thesis
    using byte_fifoD(2) [OF bf] by (metis byte_fifo_def mult.right_neutral unat_1)
qed

lemma byte_fifo_out:
  assumes bf: "byte_fifo q" and n: "n = min (unat len) (length (kfifo_bytes q))"
    and buf: "n \<le> length buf"
  shows "\<exists>q' w. fifo_out q buf len = Some (q', take n (kfifo_bytes q) @ drop n buf, w) \<and> unat w = n \<and>
    byte_fifo q' \<and> kfifo_bytes q' = drop n (kfifo_bytes q) \<and> kfifo_cap q' = kfifo_cap q"
proof -
  have e: "n = min (unat len) (kfifo_used q)" "n * unat (kf_esize q) \<le> length buf"
    using n buf byte_fifo_used [OF bf] byte_fifoD(2) [OF bf] by simp_all
  from fifo_out_result [OF byte_fifoD(1) [OF bf] e] show ?thesis
    using byte_fifoD(2) [OF bf] by (metis byte_fifo_def mult.right_neutral unat_1)
qed

lemma byte_put: "byte_fifo q \<Longrightarrow> kfifo_put byte_kfifo q [b] = fifo_in q [b] 1"
  using kfifo_put_is_in [of q byte_kfifo "[b]"] byte_fifoD [of q] by (simp add: byte_kfifo_def)

lemma byte_get: "byte_fifo q \<Longrightarrow> kfifo_get byte_kfifo q [x] = fifo_out q [x] 1"
  using kfifo_get_is_out [of q byte_kfifo "[x]"] byte_fifoD [of q] by (simp add: byte_kfifo_def)

interpretation kq: byte_queue byte_fifo kfifo_bytes kfifo_cap kfifo_is_empty kfifo_is_full
  "kfifo_put byte_kfifo" "kfifo_get byte_kfifo" "kfifo_in byte_kfifo" "kfifo_out byte_kfifo"
proof
  fix q assume bf: "byte_fifo q"
  note wf = byte_fifoD(1) [OF bf] and u = byte_fifo_used [OF bf]
  show "length (kfifo_bytes q) \<le> kfifo_cap q" using wf by (simp add: u kfifo_wf_def)
  show "kfifo_is_empty q \<longleftrightarrow> kfifo_bytes q = []" using wf by (rule kfifo_is_empty_iff)
  show "kfifo_is_full q \<longleftrightarrow> length (kfifo_bytes q) = kfifo_cap q"
    using wf by (simp add: u kfifo_is_full_iff)
  show "kfifo_put byte_kfifo q [b] = Some (q, 0)" if "length (kfifo_bytes q) = kfifo_cap q" for b
    using that by (simp add: u kfifo_put_def byte_kfifo_def kfifo_is_full_iff [OF wf])
  show "\<exists>q'. kfifo_put byte_kfifo q [b] = Some (q', 1) \<and> byte_fifo q' \<and>
      kfifo_bytes q' = kfifo_bytes q @ [b] \<and> kfifo_cap q' = kfifo_cap q"
    if "length (kfifo_bytes q) < kfifo_cap q" for b
    using byte_fifo_in [OF bf, of 1 1 "[b]"] that
    by (auto simp: byte_put [OF bf] word_unat_eq_iff)
  show "kfifo_get byte_kfifo q [x] = Some (q, [x], 0)" if "kfifo_bytes q = []" for x
    using that by (simp add: kfifo_get_def byte_kfifo_def kfifo_is_empty_iff [OF wf])
  show "\<exists>q'. kfifo_get byte_kfifo q [x] = Some (q', [b], 1) \<and> byte_fifo q' \<and>
      kfifo_bytes q' = bs \<and> kfifo_cap q' = kfifo_cap q"
    if "kfifo_bytes q = b # bs" for b bs x
    using byte_fifo_out [OF bf, of 1 1 "[x]"] that
    by (auto simp: byte_get [OF bf] word_unat_eq_iff)
  show "\<exists>q' w. kfifo_in byte_kfifo q buf len = Some (q', w) \<and> unat w = n \<and> byte_fifo q' \<and>
      kfifo_bytes q' = kfifo_bytes q @ take n buf \<and> kfifo_cap q' = kfifo_cap q"
    if "n = min (unat len) (kfifo_cap q - length (kfifo_bytes q))" "n \<le> length buf" for n len buf
    using byte_fifo_in [OF bf that] by (simp add: kfifo_in_def byte_kfifo_def)
  show "\<exists>q' w. kfifo_out byte_kfifo q buf len =
      Some (q', take n (kfifo_bytes q) @ drop n buf, w) \<and> unat w = n \<and> byte_fifo q' \<and>
      kfifo_bytes q' = drop n (kfifo_bytes q) \<and> kfifo_cap q' = kfifo_cap q"
    if "n = min (unat len) (length (kfifo_bytes q))" "n \<le> length buf" for n len buf
    using byte_fifo_out [OF bf that] by (simp add: kfifo_out_def byte_kfifo_def)
qed

section \<open>Properties\<close>

text \<open>
  C13. On a fifo of elements \<open>kfifo_put\<close> and \<open>kfifo_get\<close>, which index the storage directly, do
  exactly what \<open>__kfifo_in\<close> and \<open>__kfifo_out\<close> do with a block of one element.
\<close>

theorem kfifo_put_get_equiv:
  assumes "kfifo_wf f" "kt_recsize t = 0" "kt_elem t = kf_esize f" "length val = unat (kf_esize f)"
  shows "kfifo_put t f val = fifo_in f val 1 \<and> kfifo_get t f val = fifo_out f val 1"
  using kfifo_put_is_in [OF assms] kfifo_get_is_out [OF assms] by simp

theorem kfifo_put_get_equiv_witness:
  "let t = \<lparr>kt_recsize = 0, kt_elem = 2, kt_ptr = False\<rparr> in
    kfifo_put t sample_fifo [1, 2] = fifo_in sample_fifo [1, 2] 1 \<and>
    kfifo_get t sample_fifo [1, 2] = fifo_out sample_fifo [1, 2] 1"
  using kfifo_put_get_equiv [OF sample_fifo_facts(1),
      of "\<lparr>kt_recsize = 0, kt_elem = 2, kt_ptr = False\<rparr>" "[1, 2]"]
  by (simp add: sample_fifo_facts(4))

end
