(* ===== verification/Kfifo_Concurrent.thy ===== *)
theory Kfifo_Concurrent
  imports Kfifo_Macros
begin

text \<open>
  One reader and one writer on a fifo without a lock, as the comments of \<open>kfifo.h\<close> allow.
  The steps of \<open>__kfifo_in\<close> and \<open>__kfifo_out\<close> interleave at the granularity of one byte:
  computing the length from the other side's index, copying each byte, and publishing the
  own index, which the write barrier orders after the copies. The histories \<open>sp_put\<close> and
  \<open>sp_got\<close> record the bytes of finished calls. In every reachable state the reader has
  got a prefix of what was put, and the rest is the content of the fifo. A writer that runs
  alone does what \<open>fifo_in\<close> does, and a reader what \<open>fifo_out\<close> does.
\<close>

section \<open>Definitions\<close>

datatype writer = W_Idle | W_Copy "u8 list" u32 nat
datatype reader = R_Idle | R_Copy u32 "u8 list"

record spsc =
  sp_fifo :: kfifo
  sp_writer :: writer
  sp_reader :: reader
  sp_put :: "u8 list"
  sp_got :: "u8 list"

text \<open>The position in the storage of the \<open>i\<close>-th byte behind an index.\<close>

definition fifo_byte_pos :: "kfifo \<Rightarrow> u32 \<Rightarrow> nat \<Rightarrow> nat" where
  "fifo_byte_pos f idx i =
     (unat (idx AND kf_mask f) * unat (kf_esize f) + i) mod (kfifo_cap f * unat (kf_esize f))"

inductive spsc_step :: "spsc \<Rightarrow> spsc \<Rightarrow> bool" where
  w_start: "sp_writer s = W_Idle \<Longrightarrow>
     n = (if len > kfifo_unused (sp_fifo s) then kfifo_unused (sp_fifo s) else len) \<Longrightarrow>
     m = unat n * unat (kf_esize (sp_fifo s)) \<Longrightarrow> m \<le> length buf \<Longrightarrow>
     spsc_step s (s\<lparr>sp_writer := W_Copy (take m buf) n 0\<rparr>)"
| w_byte: "sp_writer s = W_Copy bs n i \<Longrightarrow> i < length bs \<Longrightarrow> f = sp_fifo s \<Longrightarrow>
     spsc_step s (s\<lparr>sp_fifo := kf_set_store f
          ((kf_store f)[fifo_byte_pos f (kf_in f) i := bs ! i]),
        sp_writer := W_Copy bs n (i + 1)\<rparr>)"
| w_publish: "sp_writer s = W_Copy bs n (length bs) \<Longrightarrow> f = sp_fifo s \<Longrightarrow>
     spsc_step s (s\<lparr>sp_fifo := f\<lparr>kf_in := kf_in f + n\<rparr>, sp_writer := W_Idle,
        sp_put := sp_put s @ bs\<rparr>)"
| r_start: "sp_reader s = R_Idle \<Longrightarrow> f = sp_fifo s \<Longrightarrow>
     n = (if len > kf_in f - kf_out f then kf_in f - kf_out f else len) \<Longrightarrow>
     spsc_step s (s\<lparr>sp_reader := R_Copy n []\<rparr>)"
| r_byte: "sp_reader s = R_Copy n bs \<Longrightarrow> f = sp_fifo s \<Longrightarrow>
     length bs < unat n * unat (kf_esize f) \<Longrightarrow>
     spsc_step s (s\<lparr>sp_reader :=
        R_Copy n (bs @ [kf_store f ! fifo_byte_pos f (kf_out f) (length bs)])\<rparr>)"
| r_publish: "sp_reader s = R_Copy n bs \<Longrightarrow> f = sp_fifo s \<Longrightarrow>
     length bs = unat n * unat (kf_esize f) \<Longrightarrow>
     spsc_step s (s\<lparr>sp_fifo := f\<lparr>kf_out := kf_out f + n\<rparr>, sp_reader := R_Idle,
        sp_got := sp_got s @ bs\<rparr>)"

inductive_cases spsc_stepE: "spsc_step s s'"

inductive spsc_reach :: "kfifo \<Rightarrow> spsc \<Rightarrow> bool" for f0 where
  reach_init: "spsc_reach f0 \<lparr>sp_fifo = f0, sp_writer = W_Idle, sp_reader = R_Idle,
     sp_put = kfifo_bytes f0, sp_got = []\<rparr>"
| reach_step: "spsc_reach f0 s \<Longrightarrow> spsc_step s s' \<Longrightarrow> spsc_reach f0 s'"

section \<open>Invariant\<close>

text \<open>The bytes from the read position on, also beyond the published ones.\<close>

definition fifo_ahead :: "kfifo \<Rightarrow> nat \<Rightarrow> u8 list" where
  "fifo_ahead f n = ring_read (kf_store f) (kfifo_cap f * unat (kf_esize f))
     (unat (kf_out f) mod kfifo_cap f * unat (kf_esize f)) n"

definition writer_inv :: "kfifo \<Rightarrow> writer \<Rightarrow> bool" where
  "writer_inv f w = (case w of W_Idle \<Rightarrow> True
     | W_Copy bs n i \<Rightarrow> length bs = unat n * unat (kf_esize f) \<and> i \<le> length bs \<and>
         kfifo_used f + unat n \<le> kfifo_cap f \<and>
         fifo_ahead f (kfifo_used f * unat (kf_esize f) + i) = kfifo_bytes f @ take i bs)"

definition reader_inv :: "kfifo \<Rightarrow> reader \<Rightarrow> bool" where
  "reader_inv f r = (case r of R_Idle \<Rightarrow> True
     | R_Copy n bs \<Rightarrow> unat n \<le> kfifo_used f \<and> length bs \<le> unat n * unat (kf_esize f) \<and>
         bs = take (length bs) (kfifo_bytes f))"

definition spsc_inv :: "spsc \<Rightarrow> bool" where
  "spsc_inv s \<longleftrightarrow> kfifo_wf (sp_fifo s) \<and> sp_put s = sp_got s @ kfifo_bytes (sp_fifo s) \<and>
     writer_inv (sp_fifo s) (sp_writer s) \<and> reader_inv (sp_fifo s) (sp_reader s)"

lemma fifo_ahead_bytes: "fifo_ahead f (kfifo_used f * unat (kf_esize f)) = kfifo_bytes f"
  by (simp add: fifo_ahead_def kfifo_bytes_def Let_def)

lemma take_fifo_ahead: "m \<le> n \<Longrightarrow> take m (fifo_ahead f n) = fifo_ahead f m"
  by (simp add: fifo_ahead_def take_ring_read min_absorb1)

lemma fifo_byte_pos_in:
  assumes "kfifo_wf f"
  shows "fifo_byte_pos f (kf_in f) i =
    (unat (kf_out f) mod kfifo_cap f * unat (kf_esize f) + (kfifo_used f * unat (kf_esize f) + i)) mod
      (kfifo_cap f * unat (kf_esize f))"
  unfolding fifo_byte_pos_def kfifo_mask_pos [OF assms] kfifo_in_byte_pos [OF assms]
  by (simp add: mod_add_left_eq add.assoc)

lemma fifo_byte_pos_out:
  assumes "kfifo_wf f" "i < kfifo_used f * unat (kf_esize f)"
  shows "kf_store f ! fifo_byte_pos f (kf_out f) i = kfifo_bytes f ! i"
  using assms(2) by (simp add: fifo_byte_pos_def kfifo_mask_pos [OF assms(1)] kfifo_bytes_def Let_def)

lemma writer_byte_ahead:
  assumes wf: "kfifo_wf f" and room: "kfifo_used f * unat (kf_esize f) + i < kfifo_cap f * unat (kf_esize f)"
    and f': "f' = kf_set_store f ((kf_store f)[fifo_byte_pos f (kf_in f) i := b])"
  shows "kfifo_wf f'" "kfifo_used f' = kfifo_used f" "kf_esize f' = kf_esize f" "kfifo_cap f' = kfifo_cap f"
    "fifo_ahead f' (kfifo_used f * unat (kf_esize f) + i + 1) =
     fifo_ahead f (kfifo_used f * unat (kf_esize f) + i) @ [b]"
    "kfifo_bytes f' = kfifo_bytes f"
proof -
  let ?N = "kfifo_cap f * unat (kf_esize f)" and ?p = "unat (kf_out f) mod kfifo_cap f * unat (kf_esize f)"
  let ?m = "kfifo_used f * unat (kf_esize f) + i"
  have d: "kf_data f \<noteq> None" "?N \<le> length (kf_store f)" using wf by (simp_all add: kfifo_wf_def)
  have p: "?p < ?N" using kfifo_wf_pos [OF wf] by simp
  have q: "(?p + ?m) mod ?N < ?N" using p by simp
  show sel: "kfifo_used f' = kfifo_used f" "kf_esize f' = kf_esize f" "kfifo_cap f' = kfifo_cap f"
    by (simp_all add: f')
  show "kfifo_wf f'" using wf d by (simp add: kfifo_wf_def f')
  have st: "kf_store f' = ring_write (kf_store f) ?N ((?p + ?m) mod ?N) [b]"
    using d q by (simp add: f' fifo_byte_pos_in [OF wf] list_update_ring_write)
  show ah: "fifo_ahead f' (?m + 1) = fifo_ahead f ?m @ [b]"
    using ring_read_write_append [OF p, of ?m "[b]" "kf_store f"] room d
    by (simp add: fifo_ahead_def sel st) (simp add: f')
  have "kfifo_bytes f' = take (kfifo_used f * unat (kf_esize f)) (fifo_ahead f' (?m + 1))"
    using fifo_ahead_bytes [of f'] by (simp add: sel take_fifo_ahead)
  also have "\<dots> = kfifo_bytes f"
    unfolding ah using fifo_ahead_bytes [of f]
    by (simp add: take_fifo_ahead) (simp add: fifo_ahead_def)
  finally show "kfifo_bytes f' = kfifo_bytes f" .
qed

section \<open>Every step keeps the invariant\<close>

lemma reader_inv_cong:
  "kfifo_used f' = kfifo_used f \<Longrightarrow> kf_esize f' = kf_esize f \<Longrightarrow> kfifo_bytes f' = kfifo_bytes f \<Longrightarrow>
     reader_inv f' r = reader_inv f r"
  by (simp add: reader_inv_def split: reader.splits)

lemma inv_w_start:
  assumes "spsc_inv s" "m = unat n * unat (kf_esize (sp_fifo s))" "m \<le> length buf"
    and n: "n = (if len > kfifo_unused (sp_fifo s) then kfifo_unused (sp_fifo s) else len)"
  shows "spsc_inv (s\<lparr>sp_writer := W_Copy (take m buf) n 0\<rparr>)"
proof -
  have wf: "kfifo_wf (sp_fifo s)" using assms(1) by (simp add: spsc_inv_def)
  have "kfifo_used (sp_fifo s) \<le> kfifo_cap (sp_fifo s)" using wf by (simp add: kfifo_wf_def)
  moreover have "unat n \<le> kfifo_cap (sp_fifo s) - kfifo_used (sp_fifo s)"
    unfolding n word_clip_eq by (simp add: unat_min kfifo_unused_eq [OF wf])
  ultimately show ?thesis
    using assms(1-3) by (simp add: spsc_inv_def writer_inv_def fifo_ahead_bytes)
qed

lemma inv_w_byte:
  assumes "spsc_inv s" "sp_writer s = W_Copy bs n i" "i < length bs"
    and f: "f = sp_fifo s"
  shows "spsc_inv (s\<lparr>sp_fifo := kf_set_store f ((kf_store f)[fifo_byte_pos f (kf_in f) i := bs ! i]),
    sp_writer := W_Copy bs n (i + 1)\<rparr>)"
proof -
  have w: "kfifo_wf f" "length bs = unat n * unat (kf_esize f)" "kfifo_used f + unat n \<le> kfifo_cap f"
    "fifo_ahead f (kfifo_used f * unat (kf_esize f) + i) = kfifo_bytes f @ take i bs"
    using assms(1,2) by (simp_all add: spsc_inv_def writer_inv_def f)
  have "(kfifo_used f + unat n) * unat (kf_esize f) \<le> kfifo_cap f * unat (kf_esize f)"
    using w(3) by (rule mult_le_mono1)
  then have room: "kfifo_used f * unat (kf_esize f) + i < kfifo_cap f * unat (kf_esize f)"
    using w(2) assms(3) by (simp add: add_mult_distrib)
  note b = writer_byte_ahead [OF w(1) room refl, of "bs ! i"]
  have "fifo_ahead f (kfifo_used f * unat (kf_esize f) + i) @ [bs ! i] = kfifo_bytes f @ take (i + 1) bs"
    using w(4) assms(3) by (simp add: take_Suc_conv_app_nth)
  moreover have "sp_put s = sp_got s @ kfifo_bytes f" "reader_inv f (sp_reader s)"
    using assms(1) by (simp_all add: spsc_inv_def f)
  ultimately show ?thesis
    using b w(2,3) assms(3) reader_inv_cong [OF b(2,3,6)] by (simp add: spsc_inv_def writer_inv_def)
qed

lemma inv_w_publish:
  assumes "spsc_inv s" "sp_writer s = W_Copy bs n (length bs)" and f: "f = sp_fifo s"
  shows "spsc_inv (s\<lparr>sp_fifo := f\<lparr>kf_in := kf_in f + n\<rparr>, sp_writer := W_Idle,
    sp_put := sp_put s @ bs\<rparr>)"
proof -
  let ?f = "f\<lparr>kf_in := kf_in f + n\<rparr>"
  have w: "kfifo_wf f" "length bs = unat n * unat (kf_esize f)" "kfifo_used f + unat n \<le> kfifo_cap f"
    "fifo_ahead f (kfifo_used f * unat (kf_esize f) + length bs) = kfifo_bytes f @ bs"
    using assms(1,2) by (auto simp: spsc_inv_def writer_inv_def f)
  have u: "kfifo_used ?f = kfifo_used f + unat n" using w(1,3) by (rule kfifo_used_in)
  have "kfifo_wf ?f" using w(1,3) u by (simp add: kfifo_wf_def)
  moreover have b: "kfifo_bytes ?f = kfifo_bytes f @ bs"
    using w(2,4) fifo_ahead_bytes [of ?f] u by (simp add: fifo_ahead_def add_mult_distrib)
  moreover have "reader_inv ?f (sp_reader s)"
    using assms(1) u unfolding spsc_inv_def f [symmetric] reader_inv_def b
    by (auto simp: length_kfifo_bytes split: reader.splits intro: order_trans [OF _ mult_le_mono1])
  ultimately show ?thesis
    using assms(1) by (simp add: spsc_inv_def writer_inv_def f [symmetric])
qed

lemma fifo_ahead_out:
  assumes "kfifo_wf f"
  shows "fifo_ahead (f\<lparr>kf_out := kf_out f + n\<rparr>) m =
    drop (unat n * unat (kf_esize f)) (fifo_ahead f (unat n * unat (kf_esize f) + m))"
proof -
  have "unat (kf_out f + n) mod kfifo_cap f * unat (kf_esize f) =
      (unat (kf_out f) mod kfifo_cap f * unat (kf_esize f) + unat n * unat (kf_esize f)) mod
        (kfifo_cap f * unat (kf_esize f))"
    by (simp add: kfifo_out_pos [OF assms] mult_mod_left [symmetric]
        add_mult_distrib [symmetric] mod_add_left_eq)
  then show ?thesis by (simp add: fifo_ahead_def drop_ring_read)
qed

lemma inv_r_publish:
  assumes "spsc_inv s" "sp_reader s = R_Copy n bs" and f: "f = sp_fifo s"
    and l: "length bs = unat n * unat (kf_esize f)"
  shows "spsc_inv (s\<lparr>sp_fifo := f\<lparr>kf_out := kf_out f + n\<rparr>, sp_reader := R_Idle,
    sp_got := sp_got s @ bs\<rparr>)"
proof -
  let ?f = "f\<lparr>kf_out := kf_out f + n\<rparr>" and ?E = "unat (kf_esize f)"
  have r: "kfifo_wf f" "unat n \<le> kfifo_used f" "bs = take (unat n * ?E) (kfifo_bytes f)"
    "sp_put s = sp_got s @ kfifo_bytes f"
    using assms(1,2) l by (simp_all add: spsc_inv_def reader_inv_def f)
  note c = kfifo_commit_out [OF r(1,2) refl]
  have "sp_put s = (sp_got s @ bs) @ kfifo_bytes ?f" using r(4) unfolding r(3) c(2) by simp
  moreover have "writer_inv ?f (sp_writer s)"
  proof (cases "sp_writer s")
    case (W_Copy xs k i)
    then have w: "length xs = unat k * ?E" "i \<le> length xs" "kfifo_used f + unat k \<le> kfifo_cap f"
      "fifo_ahead f (kfifo_used f * ?E + i) = kfifo_bytes f @ take i xs"
      using assms(1) by (simp_all add: spsc_inv_def writer_inv_def f)
    have e: "unat n * ?E + ((kfifo_used f - unat n) * ?E + i) = kfifo_used f * ?E + i"
      using r(2) by (metis add.assoc add_mult_distrib le_add_diff_inverse)
    have "fifo_ahead ?f ((kfifo_used f - unat n) * ?E + i) = kfifo_bytes ?f @ take i xs"
      using r(2) unfolding fifo_ahead_out [OF r(1)] c(2) e w(4)
      by (simp add: length_kfifo_bytes)
    with W_Copy w c show ?thesis by (simp add: writer_inv_def)
  qed (simp add: writer_inv_def)
  ultimately show ?thesis
    using assms(1) c(1) by (simp add: spsc_inv_def reader_inv_def f [symmetric])
qed

lemma inv_r_byte:
  assumes "spsc_inv s" "sp_reader s = R_Copy n bs" and f: "f = sp_fifo s"
    and l: "length bs < unat n * unat (kf_esize f)"
  shows "spsc_inv (s\<lparr>sp_reader := R_Copy n (bs @ [kf_store f ! fifo_byte_pos f (kf_out f) (length bs)])\<rparr>)"
proof -
  have r: "kfifo_wf f" "unat n \<le> kfifo_used f" "bs = take (length bs) (kfifo_bytes f)"
    using assms(1,2) by (simp_all add: spsc_inv_def reader_inv_def f)
  have lt: "length bs < kfifo_used f * unat (kf_esize f)"
    using less_le_trans [OF l mult_le_mono1 [OF r(2)]] .
  then have "kf_store f ! fifo_byte_pos f (kf_out f) (length bs) = kfifo_bytes f ! length bs"
    by (rule fifo_byte_pos_out [OF r(1)])
  moreover have "take (Suc (length bs)) (kfifo_bytes f) = bs @ [kfifo_bytes f ! length bs]"
    using lt r(3) by (simp add: take_Suc_conv_app_nth length_kfifo_bytes)
  ultimately show ?thesis
    using assms(1) r(2) l by (simp add: spsc_inv_def reader_inv_def f [symmetric])
qed

lemma spsc_step_inv: "spsc_step s s' \<Longrightarrow> spsc_inv s \<Longrightarrow> spsc_inv s'"
proof (induction rule: spsc_step.induct)
  case (w_start s n len m buf)
  then show ?case by (intro inv_w_start)
next
  case (w_byte s bs n i f)
  then show ?case by (intro inv_w_byte)
next
  case (w_publish s bs n f)
  then show ?case by (intro inv_w_publish)
next
  case (r_start s f n len)
  then have "unat n \<le> kfifo_used (sp_fifo s)"
    by (auto simp: kfifo_used_def word_less_nat_alt split: if_splits)
  with r_start show ?case by (simp add: spsc_inv_def reader_inv_def)
next
  case (r_byte s n bs f)
  then show ?case by (intro inv_r_byte)
next
  case (r_publish s n bs f)
  then show ?case by (intro inv_r_publish)
qed

lemma spsc_reach_inv:
  assumes "spsc_reach f0 s" "kfifo_wf f0"
  shows "spsc_inv s"
  using assms
  by (induction rule: spsc_reach.induct)
    (simp_all add: spsc_inv_def [of "\<lparr>sp_fifo = _, sp_writer = _, sp_reader = _, sp_put = _, sp_got = _\<rparr>"]
      writer_inv_def reader_inv_def spsc_step_inv)

section \<open>A side that runs alone\<close>

text \<open>The steps of the writer without interference, from the computation of the length to the
  publication, are \<open>fifo_in\<close>.\<close>

lemma fifo_byte_pos_shift:
  "fifo_byte_pos f idx i = (fifo_byte_pos f idx 0 + i) mod (kfifo_cap f * unat (kf_esize f))"
  by (simp only: fifo_byte_pos_def add_0_right mod_add_left_eq)

lemma writer_copies:
  assumes "kfifo_wf (sp_fifo s)" "sp_writer s = W_Copy bs n i" "i \<le> length bs"
    and "fifo_byte_pos (sp_fifo s) (kf_in (sp_fifo s)) 0 = p"
    and N: "N = kfifo_cap (sp_fifo s) * unat (kf_esize (sp_fifo s))" and "length bs \<le> N"
    and "kf_store (sp_fifo s) = ring_write d N p (take i bs)" "N \<le> length d"
  shows "spsc_step\<^sup>*\<^sup>* s (s\<lparr>sp_fifo := kf_set_store (sp_fifo s) (ring_write d N p bs),
    sp_writer := W_Copy bs n (length bs)\<rparr>)"
  using assms
proof (induction "length bs - i" arbitrary: s i)
  case 0
  then have "i = length bs" by simp
  with 0 have "s\<lparr>sp_fifo := kf_set_store (sp_fifo s) (ring_write d N p bs),
      sp_writer := W_Copy bs n (length bs)\<rparr> = s"
    using kf_set_store_self [of "sp_fifo s"] by simp
  then show ?case by simp
next
  case (Suc k)
  let ?f = "sp_fifo s" and ?j = "fifo_byte_pos (sp_fifo s) (kf_in (sp_fifo s)) i"
  let ?t = "s\<lparr>sp_fifo := kf_set_store ?f ((kf_store ?f)[?j := bs ! i]), sp_writer := W_Copy bs n (i + 1)\<rparr>"
  have i: "i < length bs" using Suc.hyps(2) by simp
  have st: "spsc_step s ?t" by (rule w_byte [OF Suc.prems(2) i refl])
  have N0: "0 < N" using Suc.prems(6) i by linarith
  have p: "p < N" using Suc.prems(4) N0 Suc.prems(5) by (auto simp: fifo_byte_pos_def)
  have j: "?j = (p + i) mod N"
    unfolding fifo_byte_pos_shift [of _ _ i] Suc.prems(4,5) ..
  have d: "kf_data ?f \<noteq> None" using Suc.prems(1) by (simp add: kfifo_wf_def)
  have ld: "length (ring_write d N p (take i bs)) = length d"
    using p Suc.prems(6,8) i by (intro length_ring_write) auto
  have "(kf_store ?f)[?j := bs ! i] = ring_write d N p (take i bs @ [bs ! i])"
    using ring_write_append [OF p, of "take i bs" "[bs ! i]" d] i Suc.prems(6-8) ld
    by (simp add: j list_update_ring_write [of "(p + i) mod N" N] N0)
  then have stt: "kf_store (sp_fifo ?t) = ring_write d N p (take (i + 1) bs)"
    using d i by (simp add: take_Suc_conv_app_nth)
  have "spsc_step\<^sup>*\<^sup>* ?t (?t\<lparr>sp_fifo := kf_set_store (sp_fifo ?t) (ring_write d N p bs),
      sp_writer := W_Copy bs n (length bs)\<rparr>)"
  proof (rule Suc.hyps(1))
    show "k = length bs - (i + 1)" using Suc.hyps(2) by simp
    show "kfifo_wf (sp_fifo ?t)"
      using Suc.prems(1) d by (simp add: kfifo_wf_def)
    show "fifo_byte_pos (sp_fifo ?t) (kf_in (sp_fifo ?t)) 0 = p"
      using Suc.prems(4) by (simp add: fifo_byte_pos_def)
  qed (use Suc.prems i stt in simp_all)
  with st show ?case by simp
qed

lemma writer_alone:
  assumes wf: "kfifo_wf (sp_fifo s)" and idle: "sp_writer s = W_Idle"
    and n: "n = min (unat len) (kfifo_cap (sp_fifo s) - kfifo_used (sp_fifo s))"
    and buf: "n * unat (kf_esize (sp_fifo s)) \<le> length buf"
  obtains f' w where "fifo_in (sp_fifo s) buf len = Some (f', w)" "unat w = n"
    "spsc_step\<^sup>*\<^sup>* s (s\<lparr>sp_fifo := f',
      sp_put := sp_put s @ take (n * unat (kf_esize (sp_fifo s))) buf\<rparr>)"
proof -
  let ?f = "sp_fifo s" and ?E = "unat (kf_esize (sp_fifo s))"
  let ?N = "kfifo_cap (sp_fifo s) * unat (kf_esize (sp_fifo s))"
  let ?p = "unat (kf_in ?f) mod kfifo_cap ?f * ?E" and ?bs = "take (n * ?E) buf"
  let ?w = "if len > kfifo_unused ?f then kfifo_unused ?f else len"
  have w: "unat ?w = n" unfolding word_clip_eq by (simp add: n unat_min kfifo_unused_eq [OF wf])
  have p: "?p < ?N" "fifo_byte_pos ?f (kf_in ?f) 0 = ?p"
    using kfifo_wf_pos [OF wf] by (simp_all add: fifo_byte_pos_def kfifo_mask_pos [OF wf])
  have d: "?N \<le> length (kf_store ?f)" using wf by (simp add: kfifo_wf_def)
  have "n \<le> kfifo_cap ?f" by (simp add: n)
  then have lb: "length ?bs \<le> ?N" using buf by (simp add: mult_le_mono1)
  define v where "v = ?w"
  define g where "g = kf_set_store ?f (ring_write (kf_store ?f) ?N ?p ?bs)"
  define s1 where "s1 = s\<lparr>sp_writer := W_Copy ?bs v 0\<rparr>"
  define s2 where "s2 = s1\<lparr>sp_fifo := g, sp_writer := W_Copy ?bs v (length ?bs)\<rparr>"
  have vn: "unat v = n" unfolding v_def by (rule w)
  have "spsc_step s s1"
    using w_start [OF idle refl refl, of len buf] buf unfolding w v_def s1_def by simp
  moreover have "spsc_step\<^sup>*\<^sup>* s1 s2"
    using writer_copies [of s1 ?bs v 0 ?p ?N "kf_store ?f"] wf p d lb by (simp add: s1_def s2_def g_def)
  ultimately have a: "spsc_step\<^sup>*\<^sup>* s s2" by (rule converse_rtranclp_into_rtranclp)
  have "spsc_step s2 (s2\<lparr>sp_fifo := g\<lparr>kf_in := kf_in g + v\<rparr>, sp_writer := W_Idle,
      sp_put := sp_put s2 @ ?bs\<rparr>)"
    by (rule w_publish) (simp_all add: s2_def)
  moreover have "s2\<lparr>sp_fifo := g\<lparr>kf_in := kf_in g + v\<rparr>, sp_writer := W_Idle, sp_put := sp_put s2 @ ?bs\<rparr> =
      s\<lparr>sp_fifo := g\<lparr>kf_in := kf_in ?f + v\<rparr>, sp_put := sp_put s @ ?bs\<rparr>"
    using idle by (simp add: s2_def s1_def g_def)
  ultimately have b: "spsc_step\<^sup>*\<^sup>* s (s\<lparr>sp_fifo := g\<lparr>kf_in := kf_in ?f + v\<rparr>, sp_put := sp_put s @ ?bs\<rparr>)"
    using a by (simp add: rtranclp.rtrancl_into_rtrancl)
  obtain v' where v': "unat v' = n" "fifo_in ?f buf len = Some (g\<lparr>kf_in := kf_in ?f + v'\<rparr>, v')"
    unfolding g_def by (rule fifo_in_eq [OF wf n buf])
  then have "v' = v" using vn by (simp add: word_unat_eq_iff)
  with v' b show thesis by (intro that [OF v'(2,1)]) simp
qed

section \<open>Properties\<close>

text \<open>
  C5. With one reader and one writer and no lock, whatever the interleaving of their steps:
  the bytes the reader has got, followed by the content of the fifo, are the bytes that were
  put, in order and without loss or duplication; the invariant of the fifo holds; and what
  an unfinished read has copied so far is the front of the content.
\<close>

theorem spsc_linear:
  assumes "kfifo_wf f0" "spsc_reach f0 s"
  shows "sp_put s = sp_got s @ kfifo_bytes (sp_fifo s) \<and> kfifo_wf (sp_fifo s) \<and>
    (case sp_reader s of R_Idle \<Rightarrow> True
     | R_Copy n bs \<Rightarrow> bs = take (length bs) (kfifo_bytes (sp_fifo s)))"
  using spsc_reach_inv [OF assms(2,1)]
  by (auto simp: spsc_inv_def reader_inv_def split: reader.splits)

theorem spsc_linear_witness:
  "\<exists>s. spsc_reach sample_fifo s \<and> sp_writer s = W_Copy [1, 2] 1 0 \<and>
    sp_put s = sp_got s @ kfifo_bytes (sp_fifo s)"
proof -
  let ?s = "\<lparr>sp_fifo = sample_fifo, sp_writer = W_Idle, sp_reader = R_Idle,
     sp_put = kfifo_bytes sample_fifo, sp_got = []\<rparr>"
  have "kfifo_unused sample_fifo = 2" by (simp add: kfifo_unused_def sample_fifo_def)
  then have "spsc_step ?s (?s\<lparr>sp_writer := W_Copy (take 2 [1, 2, 3]) 1 0\<rparr>)"
    by (intro w_start [where len = 1]) (simp_all add: sample_fifo_facts)
  then have r: "spsc_reach sample_fifo (?s\<lparr>sp_writer := W_Copy (take 2 [1, 2, 3]) 1 0\<rparr>)"
    by (rule reach_step [OF reach_init])
  from spsc_linear [OF sample_fifo_facts(1) r] r show ?thesis by fastforce
qed

end
