(* ===== verification/Scatterlist.thy ===== *)
theory Scatterlist
  imports Prelude
begin

text \<open>
  Scatterlists (\<open>scatterlist.c\<close>, \<open>linux/scatterlist.h\<close>) and the page arithmetic they use. The two low
  bits of a page pointer mark an entry as a link to another array and as the last one. The
  tables of \<open>struct page\<close> are the kernel's and not part of the library: \<open>pages\<close> holds the two
  conversions between a page frame number and its structure, and \<open>pages_ok\<close> says that they are
  inverse and that the structures are aligned.
\<close>

section \<open>Definitions\<close>

subsection \<open>Pages\<close>

definition PAGE_SHIFT :: nat where "PAGE_SHIFT = 12"
definition PAGE_SIZE :: u32 where "PAGE_SIZE = push_bit PAGE_SHIFT 1"
definition PAGE_MASK :: u32 where "PAGE_MASK = NOT (PAGE_SIZE - 1)"
definition PAGE_OFFSET :: addr where "PAGE_OFFSET = 0xC0000000"

text \<open>\<open>__pfn_to_page\<close> and \<open>__page_to_pfn\<close>.\<close>

record pages =
  pfn_to_page :: "u32 \<Rightarrow> addr"
  page_to_pfn :: "addr \<Rightarrow> u32"

definition pages_ok :: "pages \<Rightarrow> bool" where
  "pages_ok M \<longleftrightarrow> (\<forall>pfn. unat pfn < 2 ^ 20 \<longrightarrow> page_to_pfn M (pfn_to_page M pfn) = pfn \<and> pfn_to_page M pfn AND 3 = 0)"

definition offset_in_page :: "addr \<Rightarrow> u32" where
  "offset_in_page p = p AND NOT PAGE_MASK"

definition phys_addr :: "addr \<Rightarrow> u32" where
  "phys_addr x = x - PAGE_OFFSET"

definition virt_to_page :: "pages \<Rightarrow> addr \<Rightarrow> addr" where
  "virt_to_page M kaddr = pfn_to_page M (drop_bit PAGE_SHIFT (phys_addr kaddr))"

definition page_to_phys :: "pages \<Rightarrow> addr \<Rightarrow> u32" where
  "page_to_phys M page = push_bit PAGE_SHIFT (page_to_pfn M page)"

subsection \<open>Entries\<close>

record scatterlist =
  page_link :: u32
  sg_offset :: u32
  sg_length :: u32
  dma_address :: u32

definition sz_scatterlist :: u32 where "sz_scatterlist = 16"

type_synonym sgs = "addr \<rightharpoonup> scatterlist"

definition sg_is_chain :: "scatterlist \<Rightarrow> bool" where "sg_is_chain s \<longleftrightarrow> page_link s AND 1 \<noteq> 0"
definition sg_is_last :: "scatterlist \<Rightarrow> bool" where "sg_is_last s \<longleftrightarrow> page_link s AND 2 \<noteq> 0"
definition sg_chain_ptr :: "scatterlist \<Rightarrow> addr" where "sg_chain_ptr s = page_link s AND NOT 3"

definition sg_assign_page :: "addr \<Rightarrow> addr \<Rightarrow> sgs \<Rightarrow> sgs option" where
  "sg_assign_page sg page S =
     do { s \<leftarrow> S sg;
          if page AND 3 \<noteq> 0 then None else Some (S(sg \<mapsto> s\<lparr>page_link := (page_link s AND 3) OR page\<rparr>)) }"

definition sg_set_page :: "addr \<Rightarrow> addr \<Rightarrow> u32 \<Rightarrow> u32 \<Rightarrow> sgs \<Rightarrow> sgs option" where
  "sg_set_page sg page len offset S =
     do { S \<leftarrow> sg_assign_page sg page S;
          s \<leftarrow> S sg;
          Some (S(sg \<mapsto> s\<lparr>sg_offset := offset, sg_length := len\<rparr>)) }"

definition sg_page :: "scatterlist \<Rightarrow> addr" where "sg_page s = page_link s AND NOT 3"

definition sg_set_buf :: "pages \<Rightarrow> addr \<Rightarrow> addr \<Rightarrow> u32 \<Rightarrow> sgs \<Rightarrow> sgs option" where
  "sg_set_buf M sg buf buflen S = sg_set_page sg (virt_to_page M buf) buflen (offset_in_page buf) S"

definition sg_chain :: "addr \<Rightarrow> u32 \<Rightarrow> addr \<Rightarrow> sgs \<Rightarrow> sgs option" where
  "sg_chain prv prv_nents sgl S =
     (let e = prv + sz_scatterlist * (prv_nents - 1)
      in do { s \<leftarrow> S e;
              Some (S(e \<mapsto> s\<lparr>sg_offset := 0, sg_length := 0, page_link := (sgl OR 1) AND NOT 2\<rparr>)) })"

definition sg_mark_end :: "addr \<Rightarrow> sgs \<Rightarrow> sgs option" where
  "sg_mark_end sg S = do { s \<leftarrow> S sg; Some (S(sg \<mapsto> s\<lparr>page_link := (page_link s OR 2) AND NOT 1\<rparr>)) }"

definition sg_unmark_end :: "addr \<Rightarrow> sgs \<Rightarrow> sgs option" where
  "sg_unmark_end sg S = do { s \<leftarrow> S sg; Some (S(sg \<mapsto> s\<lparr>page_link := page_link s AND NOT 2\<rparr>)) }"

definition sg_phys :: "pages \<Rightarrow> scatterlist \<Rightarrow> u32" where
  "sg_phys M s = page_to_phys M (sg_page s) + sg_offset s"

definition sg_next :: "addr \<Rightarrow> sgs \<Rightarrow> addr option" where
  "sg_next sg S =
     do { s \<leftarrow> S sg;
          if sg_is_last s then Some 0
          else do { s \<leftarrow> S (sg + sz_scatterlist);
                    if sg_is_chain s then Some (sg_chain_ptr s) else Some (sg + sz_scatterlist) } }"

text \<open>\<open>for_each_sg\<close>: the entries visited for a count of \<open>nr\<close>; the one behind the last is looked up too.\<close>

fun for_each_sg :: "addr \<Rightarrow> nat \<Rightarrow> sgs \<Rightarrow> addr list option" where
  "for_each_sg sg 0 S = Some []"
| "for_each_sg sg (Suc nr) S = do { n \<leftarrow> sg_next sg S; xs \<leftarrow> for_each_sg n nr S; Some (sg # xs) }"

section \<open>Page arithmetic\<close>

lemma page_consts: "PAGE_SIZE = 4096" "PAGE_MASK = NOT (mask 12)" "PAGE_SHIFT = 12"
  by (simp_all add: PAGE_SIZE_def PAGE_MASK_def PAGE_SHIFT_def mask_eq_exp_minus_1 push_bit_eq_mult)

lemma offset_in_page_eq: "offset_in_page p = take_bit 12 p"
  by (simp add: offset_in_page_def page_consts take_bit_eq_mask)

lemma offset_in_page_bound: "unat (offset_in_page p) < 4096"
proof -
  have "unat (offset_in_page p) = take_bit 12 (unat p)" by (simp only: offset_in_page_eq unsigned_take_bit_eq)
  then show ?thesis by (simp add: take_bit_eq_mod)
qed

lemma take_bit_add_32: "take_bit 12 (x + y) = take_bit 12 (take_bit 12 x + take_bit 12 y)" for x y :: u32
proof -
  have u: "unat (take_bit 12 z) = unat z mod 2 ^ 12" for z :: u32
  proof -
    have "unat (take_bit 12 z) = take_bit 12 (unat z)" by (simp only: unsigned_take_bit_eq)
    then show ?thesis by (simp only: take_bit_eq_mod)
  qed
  have a: "unat (v + w) mod 2 ^ 12 = (unat v + unat w) mod 2 ^ 12" for v w :: u32 by (rule unat_add_mod_pow2) simp
  have "(unat (take_bit 12 x) + unat (take_bit 12 y)) mod 2 ^ 12 = (unat x + unat y) mod 2 ^ 12" by (simp only: u mod_add_eq)
  then have "unat (take_bit 12 (x + y)) = unat (take_bit 12 (take_bit 12 x + take_bit 12 y))"
    by (simp only: u [of "x + y"] u [of "take_bit 12 x + take_bit 12 y"] a)
  then show ?thesis by (simp only: word_unat_eq_iff)
qed

lemma page_split: "push_bit 12 (drop_bit 12 x) + take_bit 12 x = (x :: u32)"
  by (rule bits_ident)

lemma virt_page:
  assumes "pages_ok M"
  shows "page_to_phys M (virt_to_page M p) = push_bit 12 (drop_bit 12 (phys_addr p))" "virt_to_page M p AND 3 = 0"
proof -
  have "unat (phys_addr p) < 2 ^ 32" using unat_less_word [of "phys_addr p"] by simp
  then have "unat (phys_addr p) div 2 ^ 12 < 2 ^ 20" by (simp add: less_mult_imp_div_less)
  then have "unat (drop_bit 12 (phys_addr p)) < 2 ^ 20" by (simp add: unat_drop_bit_div)
  then show "page_to_phys M (virt_to_page M p) = push_bit 12 (drop_bit 12 (phys_addr p))" "virt_to_page M p AND 3 = 0"
    using assms by (simp_all add: pages_ok_def page_to_phys_def virt_to_page_def page_consts)
qed

lemma take_bit_page_offset: "take_bit 12 (phys_addr p) = take_bit 12 p"
proof -
  have o: "take_bit 12 PAGE_OFFSET = 0" by (simp add: PAGE_OFFSET_def)
  have "take_bit 12 (phys_addr p + PAGE_OFFSET) = take_bit 12 (take_bit 12 (phys_addr p) + take_bit 12 PAGE_OFFSET)"
    by (rule take_bit_add_32)
  then have "take_bit 12 (phys_addr p + PAGE_OFFSET) = take_bit 12 (phys_addr p)" by (simp add: o)
  then show ?thesis by (simp add: phys_addr_def)
qed

text \<open>The page and the offset of an address give its physical address.\<close>

lemma virt_page_offset: "pages_ok M \<Longrightarrow> page_to_phys M (virt_to_page M p) + offset_in_page p = phys_addr p"
  by (simp only: virt_page(1) offset_in_page_eq take_bit_page_offset [of p, symmetric] page_split)

text \<open>Whole pages further on in virtual memory is as far on in physical memory: kernel memory is
  mapped linearly.\<close>

lemma virt_page_linear:
  assumes "pages_ok M" "take_bit 12 l = 0"
  shows "page_to_phys M (virt_to_page M (p + l)) - l = page_to_phys M (virt_to_page M p)"
proof -
  have "take_bit 12 (p + l) = take_bit 12 (take_bit 12 p + take_bit 12 l)" by (rule take_bit_add_32)
  then have "offset_in_page (p + l) = offset_in_page p" by (simp add: offset_in_page_eq assms(2))
  then have "page_to_phys M (virt_to_page M (p + l)) + offset_in_page p = phys_addr (p + l)"
    using virt_page_offset [OF assms(1), of "p + l"] by simp
  moreover have "phys_addr (p + l) = phys_addr p + l" by (simp add: phys_addr_def)
  ultimately have "page_to_phys M (virt_to_page M (p + l)) + offset_in_page p = page_to_phys M (virt_to_page M p) + l + offset_in_page p"
    using virt_page_offset [OF assms(1), of p] by (metis add.assoc add.commute)
  then show ?thesis by simp
qed

section \<open>Entries\<close>

lemma page_link_page: "page AND 3 = 0 \<Longrightarrow> ((l AND 3) OR page) AND NOT 3 = page" for page l :: u32
proof -
  assume "page AND 3 = 0"
  then have "page AND NOT 3 = page" using and_not_zero_iff [of page "NOT 3"] by simp
  then show ?thesis by (simp add: bit.conj_disj_distrib2 and.assoc)
qed

lemma page_link_bits: "page AND 3 = 0 \<Longrightarrow> b AND 3 = b \<Longrightarrow> ((l AND 3) OR page) AND b = l AND b" for page l :: u32
proof -
  assume p: "page AND 3 = 0" and b: "b AND 3 = b"
  have "page AND b = (page AND 3) AND b" by (simp only: and.assoc and.commute [of 3] b)
  moreover have "(l AND 3) AND b = l AND b" by (simp only: and.assoc and.commute [of 3] b)
  ultimately show ?thesis using p by (simp only: bit.conj_disj_distrib2) simp
qed

text \<open>An entry set to a page describes its range and keeps its marks.\<close>

lemma sg_set_page_ok:
  assumes "S sg = Some s" "page AND 3 = 0"
  obtains s' where "sg_set_page sg page len off S = Some (S(sg \<mapsto> s'))" "sg_page s' = page" "sg_offset s' = off" "sg_length s' = len"
    "sg_is_chain s' = sg_is_chain s" "sg_is_last s' = sg_is_last s"
  using assms page_link_page [OF assms(2)] page_link_bits [OF assms(2)]
  by (simp add: that sg_set_page_def sg_assign_page_def sg_page_def sg_is_chain_def sg_is_last_def)

lemma sg_marks:
  assumes "S sg = Some s"
  shows "\<exists>S'. sg_mark_end sg S = Some S' \<and> sg_next sg S' = Some 0"
    "\<exists>S' s'. sg_unmark_end sg S = Some S' \<and> S' sg = Some s' \<and> \<not> sg_is_last s' \<and> sg_page s' = sg_page s"
  using assms
  by (simp_all add: sg_mark_end_def sg_unmark_end_def sg_next_def sg_is_last_def sg_page_def and.assoc bit.conj_disj_distrib2)

end
