(* ===== verification/Kfifo_Dma.thy ===== *)
theory Kfifo_Dma
  imports Kfifo_Macros Scatterlist
begin

text \<open>
  The generic fifo of \<open>fifo.c\<close>, last part: scatterlists for transfers by DMA. A device that reads or
  writes the physical ranges of the scatterlist (\<open>dma_read\<close>, \<open>dma_write\<close>) accesses exactly the
  bytes that a copy by the processor would, for plain elements and for records. The loop over
  the pages of a range always joins them to one entry, since kernel memory is mapped
  linearly.
\<close>

section \<open>Definitions\<close>

definition kf_addr :: "kfifo \<Rightarrow> addr" where
  "kf_addr f = (case kf_data f of None \<Rightarrow> 0 | Some (a, _) \<Rightarrow> a)"

text \<open>The loop of \<open>setup_sgl_buf\<close>. The counts of entries are only compared for equality, so that
  their signedness does not matter.\<close>

partial_function (option) sgl_loop :: "pages \<Rightarrow> u32 \<Rightarrow> addr \<Rightarrow> addr \<Rightarrow> u32 \<Rightarrow> u32 \<Rightarrow> addr \<Rightarrow> u32 \<Rightarrow> u32 \<Rightarrow> sgs \<Rightarrow> (u32 \<times> sgs) option" where
  "sgl_loop M nents sgl page off l buf len n S =
     (if len \<ge> l + PAGE_SIZE - off
      then let l = l + PAGE_SIZE;
               buf = buf + PAGE_SIZE;
               npage = virt_to_page M buf
           in if page_to_phys M page \<noteq> page_to_phys M npage - l
              then do { S \<leftarrow> sg_set_page sgl page (l - off) off S;
                        sgl \<leftarrow> sg_next sgl S;
                        if n + 1 = nents \<or> sgl = 0 then Some (n + 1, S)
                        else sgl_loop M nents sgl npage 0 0 buf (len - (l - off)) (n + 1) S }
              else sgl_loop M nents sgl page off l buf len n S
      else do { S \<leftarrow> sg_set_page sgl page len off S; Some (n + 1, S) })"

definition setup_sgl_buf :: "pages \<Rightarrow> addr \<Rightarrow> addr \<Rightarrow> u32 \<Rightarrow> u32 \<Rightarrow> sgs \<Rightarrow> (u32 \<times> sgs) option" where
  "setup_sgl_buf M sgl buf nents len S =
     (if nents = 0 then Some (0, S)
      else if len = 0 then Some (0, S)
      else sgl_loop M nents sgl (virt_to_page M buf) (offset_in_page buf) 0 buf len 0 S)"

definition setup_sgl :: "pages \<Rightarrow> kfifo \<Rightarrow> addr \<Rightarrow> u32 \<Rightarrow> u32 \<Rightarrow> u32 \<Rightarrow> sgs \<Rightarrow> (u32 \<times> sgs) option" where
  "setup_sgl M f sgl nents len off S =
     (let (off, len, l) = kfifo_span f len off
      in do { (n, S) \<leftarrow> setup_sgl_buf M sgl (kf_addr f + off) nents l S;
              (n', S) \<leftarrow> setup_sgl_buf M (sgl + sz_scatterlist * n) (kf_addr f) (nents - n) (len - l) S;
              Some (n + n', S) })"

definition fifo_dma_in_prepare :: "pages \<Rightarrow> kfifo \<Rightarrow> addr \<Rightarrow> u32 \<Rightarrow> u32 \<Rightarrow> sgs \<Rightarrow> (u32 \<times> sgs) option" where
  "fifo_dma_in_prepare M f sgl nents len S =
     (let l = kfifo_unused f;
          len = (if len > l then l else len)
      in setup_sgl M f sgl nents len (kf_in f) S)"

definition fifo_dma_out_prepare :: "pages \<Rightarrow> kfifo \<Rightarrow> addr \<Rightarrow> u32 \<Rightarrow> u32 \<Rightarrow> sgs \<Rightarrow> (u32 \<times> sgs) option" where
  "fifo_dma_out_prepare M f sgl nents len S =
     (let l = kf_in f - kf_out f;
          len = (if len > l then l else len)
      in setup_sgl M f sgl nents len (kf_out f) S)"

definition fifo_dma_in_prepare_r :: "pages \<Rightarrow> kfifo \<Rightarrow> addr \<Rightarrow> u32 \<Rightarrow> u32 \<Rightarrow> u32 \<Rightarrow> sgs \<Rightarrow> (u32 \<times> sgs) option" where
  "fifo_dma_in_prepare_r M f sgl nents len recsize S =
     (if nents = 0 then None
      else do { len \<leftarrow> fifo_max_r len recsize;
                if len + recsize > kfifo_unused f then Some (0, S)
                else setup_sgl M f sgl nents len (kf_in f + recsize) S })"

definition fifo_dma_out_prepare_r :: "pages \<Rightarrow> kfifo \<Rightarrow> addr \<Rightarrow> u32 \<Rightarrow> u32 \<Rightarrow> u32 \<Rightarrow> sgs \<Rightarrow> (u32 \<times> sgs) option" where
  "fifo_dma_out_prepare_r M f sgl nents len recsize S =
     (if nents = 0 then None
      else do { len \<leftarrow> fifo_max_r len recsize;
                if len + recsize > kf_in f - kf_out f then Some (0, S)
                else setup_sgl M f sgl nents len (kf_out f + recsize) S })"

definition kfifo_dma_in_prepare :: "pages \<Rightarrow> kfifo_type \<Rightarrow> kfifo \<Rightarrow> addr \<Rightarrow> u32 \<Rightarrow> u32 \<Rightarrow> sgs \<Rightarrow> (u32 \<times> sgs) option" where
  "kfifo_dma_in_prepare M t f sgl nents len S =
     (if kt_recsize t \<noteq> 0 then fifo_dma_in_prepare_r M f sgl nents len (kt_recsize t) S
      else fifo_dma_in_prepare M f sgl nents len S)"

definition kfifo_dma_out_prepare :: "pages \<Rightarrow> kfifo_type \<Rightarrow> kfifo \<Rightarrow> addr \<Rightarrow> u32 \<Rightarrow> u32 \<Rightarrow> sgs \<Rightarrow> (u32 \<times> sgs) option" where
  "kfifo_dma_out_prepare M t f sgl nents len S =
     (if kt_recsize t \<noteq> 0 then fifo_dma_out_prepare_r M f sgl nents len (kt_recsize t) S
      else fifo_dma_out_prepare M f sgl nents len S)"

section \<open>Transfers\<close>

text \<open>The physical ranges of \<open>n\<close> entries, and what a device does that reads or writes them one after
  the other; \<open>base\<close> is the physical address of the memory \<open>d\<close>.\<close>

fun sg_ranges :: "pages \<Rightarrow> sgs \<Rightarrow> addr \<Rightarrow> nat \<Rightarrow> (u32 \<times> nat) list" where
  "sg_ranges M S sg 0 = []"
| "sg_ranges M S sg (Suc n) =
     (case S sg of None \<Rightarrow> [] | Some s \<Rightarrow> (sg_phys M s, unat (sg_length s)) # sg_ranges M S (sg + sz_scatterlist) n)"

definition dma_read :: "u32 \<Rightarrow> u8 list \<Rightarrow> (u32 \<times> nat) list \<Rightarrow> u8 list" where
  "dma_read base d rs = concat (map (\<lambda>(p, n). take n (drop (unat (p - base)) d)) rs)"

fun dma_write :: "u32 \<Rightarrow> u8 list \<Rightarrow> (u32 \<times> nat) list \<Rightarrow> u8 list \<Rightarrow> u8 list" where
  "dma_write base d [] bs = d"
| "dma_write base d ((p, n) # rs) bs =
     (let off = unat (p - base) in dma_write base (take off d @ take n bs @ drop (off + n) d) rs (drop n bs))"

section \<open>Pages are joined\<close>

lemma sgl_loop_joins:
  assumes "pages_ok M" "page = virt_to_page M p" "unat off < 4096" "unat len + 8192 \<le> 2 ^ 32"
    and "take_bit 12 l = 0" "unat l \<le> unat len + unat off" "buf = p + l"
  shows "sgl_loop M nents sgl page off l buf len n S = do { S \<leftarrow> sg_set_page sgl page len off S; Some (n + 1, S) }"
  using assms(5-)
proof (induction "unat len + 4096 - unat l" arbitrary: l buf rule: less_induct)
  case less
  have l: "unat (l + 4096) = unat l + 4096" using less.prems(2) assms(3,4) by (intro unat_add_no_wrap [of l 4096, simplified]) simp
  then have lo: "unat (l + 4096 - off) = unat l + 4096 - unat off" using assms(3) by (simp add: unat_sub_no_wrap)
  show ?case
  proof (cases "len \<ge> l + 4096 - off")
    case True
    then have le: "unat l + 4096 \<le> unat len + unat off" using lo assms(3) by (simp add: word_le_nat_alt)
    have t: "take_bit 12 (l + 4096) = 0" using take_bit_add_32 [of l 4096] less.prems(1) by simp
    have b: "buf + 4096 = p + (l + 4096)" by (simp add: less.prems(3))
    have "page_to_phys M page = page_to_phys M (virt_to_page M (buf + 4096)) - (l + 4096)"
      unfolding b assms(2) by (rule virt_page_linear [OF assms(1) t, symmetric])
    moreover have "sgl_loop M nents sgl page off (l + 4096) (buf + 4096) len n S = do { S \<leftarrow> sg_set_page sgl page len off S; Some (n + 1, S) }"
      by (rule less.hyps) (use l le assms(3) t b in simp_all)
    ultimately show ?thesis using True by (subst sgl_loop.simps) (simp add: page_consts Let_def)
  next
    case False
    then show ?thesis by (subst sgl_loop.simps) (simp add: page_consts)
  qed
qed

lemma setup_sgl_buf_ok:
  assumes "pages_ok M" "unat len + 8192 \<le> 2 ^ 32" "S sgl = Some s" "nents \<noteq> 0" "len \<noteq> 0"
  obtains s' where "setup_sgl_buf M sgl buf nents len S = Some (1, S(sgl \<mapsto> s'))" "sg_phys M s' = phys_addr buf" "sg_length s' = len"
proof -
  obtain s' where s': "sg_set_page sgl (virt_to_page M buf) len (offset_in_page buf) S = Some (S(sgl \<mapsto> s'))"
    "sg_page s' = virt_to_page M buf" "sg_offset s' = offset_in_page buf" "sg_length s' = len"
    by (rule sg_set_page_ok [where S = S, OF assms(3) virt_page(2) [OF assms(1), of buf]])
  have "setup_sgl_buf M sgl buf nents len S = Some (1, S(sgl \<mapsto> s'))"
    using assms(4,5) s'(1) sgl_loop_joins [OF assms(1) refl offset_in_page_bound assms(2), of 0 buf buf]
    by (simp add: setup_sgl_buf_def)
  then show thesis using that s' virt_page_offset [OF assms(1)] by (simp add: sg_phys_def)
qed

section \<open>The ranges are the ring's\<close>

definition ring_ranges :: "u32 \<Rightarrow> nat \<Rightarrow> nat \<Rightarrow> nat \<Rightarrow> (u32 \<times> nat) list" where
  "ring_ranges base N p n =
     (if n = 0 then []
      else if n \<le> N - p then [(base + of_nat p, n)] else [(base + of_nat p, N - p), (base, n - (N - p))])"

lemma dma_read_ring:
  assumes "p < N" "n \<le> N" "N \<le> length d" "N < 2 ^ 32"
  shows "dma_read base d (ring_ranges base N p n) = ring_read d N p n"
proof -
  have "unat (of_nat p :: u32) = p" using assms(1,4) by (simp add: unat_of_nat)
  then show ?thesis
    using ring_read_two_parts [OF assms(1-3)] by (auto simp: dma_read_def ring_ranges_def min_def split: if_splits)
qed

lemma dma_write_ring:
  assumes "p < N" "n \<le> N" "N \<le> length d" "N < 2 ^ 32" "length bs = n"
  shows "dma_write base d (ring_ranges base N p n) bs = ring_write d N p bs"
proof -
  have "unat (of_nat p :: u32) = p" using assms(1,4) by (simp add: unat_of_nat)
  then show ?thesis
    using assms by (auto simp: ring_ranges_def ring_write_def Let_def min_def split: if_splits)
qed

text \<open>An array of at least two entries, and a fifo whose storage leaves room for the page arithmetic.\<close>

definition sg_array :: "sgs \<Rightarrow> addr \<Rightarrow> u32 \<Rightarrow> bool" where
  "sg_array S sgl nents \<longleftrightarrow> 2 \<le> nents \<and> S sgl \<noteq> None \<and> S (sgl + sz_scatterlist) \<noteq> None"

definition dma_fifo :: "kfifo \<Rightarrow> bool" where
  "dma_fifo f \<longleftrightarrow> kfifo_wf f \<and> kfifo_cap f * unat (kf_esize f) + 8192 \<le> 2 ^ 32"

lemma setup_sgl_ok:
  assumes M: "pages_ok M" and f: "dma_fifo f" and S: "sg_array S sgl nents" and len: "unat len \<le> kfifo_cap f"
  shows "\<exists>n S'. setup_sgl M f sgl nents len off S = Some (n, S') \<and> unat n \<le> 2 \<and>
    sg_ranges M S' sgl (unat n) = ring_ranges (phys_addr (kf_addr f)) (kfifo_cap f * unat (kf_esize f))
      (unat off mod kfifo_cap f * unat (kf_esize f)) (unat len * unat (kf_esize f))"
proof -
  let ?N = "kfifo_cap f * unat (kf_esize f)"
  have wf: "kfifo_wf f" and N: "?N + 8192 \<le> 2 ^ 32" using f by (simp_all add: dma_fifo_def)
  obtain off' len' l where sp: "kfifo_span f len off = (off', len', l)" by (metis prod_cases3)
  note e = kfifo_span_eq [OF wf len sp]
  have lN: "unat len' \<le> ?N" using e(2) len by simp
  have b: "unat l + 8192 \<le> 2 ^ 32" "unat (len' - l) + 8192 \<le> 2 ^ 32" using e(3,4) lN N by auto
  obtain s0 s1 where s: "S sgl = Some s0" "S (sgl + sz_scatterlist) = Some s1" "nents \<noteq> 0" "nents - 1 \<noteq> 0"
  proof -
    have "nents \<noteq> 0" "nents \<noteq> 1" using S by (auto simp: sg_array_def word_le_nat_alt)
    then show thesis using that S by (auto simp: sg_array_def)
  qed
  have ph: "phys_addr (kf_addr f + x) = phys_addr (kf_addr f) + x" for x by (simp add: phys_addr_def)
  have "\<exists>n S'. setup_sgl M f sgl nents len off S = Some (n, S') \<and> unat n \<le> 2 \<and>
    sg_ranges M S' sgl (unat n) = ring_ranges (phys_addr (kf_addr f)) ?N (unat off') (unat len')"
  proof (cases "len' = 0")
    case True
    then have "l = 0" using e(3) by (simp add: unat_eq_zero)
    then show ?thesis using True by (simp add: setup_sgl_def sp setup_sgl_buf_def ring_ranges_def)
  next
    case False
    then have l0: "l \<noteq> 0" "unat len' \<noteq> 0" using e(3,5) by (auto simp: word_unat_eq_iff)
    obtain t where t: "setup_sgl_buf M sgl (kf_addr f + off') nents l S = Some (1, S(sgl \<mapsto> t))"
      "sg_phys M t = phys_addr (kf_addr f + off')" "sg_length t = l" by (rule setup_sgl_buf_ok [where S = S, OF M b(1) s(1,3) l0(1)])
    show ?thesis
    proof (cases "unat len' \<le> ?N - unat off'")
      case True
      then have "l = len'" using e(3) by (simp add: word_unat_eq_iff)
      then have "setup_sgl M f sgl nents len off S = Some (1, S(sgl \<mapsto> t))"
        using t(1) by (simp add: setup_sgl_def sp setup_sgl_buf_def [of M _ _ _ 0])
      then show ?thesis using True \<open>l = len'\<close> t(2,3) l0(2) ph by (simp add: ring_ranges_def)
    next
      case two: False
      have m: "unat l = ?N - unat off'" "unat (len' - l) = unat len' - (?N - unat off')" using e(3,4) two by auto
      then have l1: "len' - l \<noteq> 0" using two by (auto simp: word_unat_eq_iff)
      have "(S(sgl \<mapsto> t)) (sgl + sz_scatterlist) = Some s1" using s(2) by (simp add: sz_scatterlist_def)
      then obtain t' where t': "setup_sgl_buf M (sgl + sz_scatterlist) (kf_addr f) (nents - 1) (len' - l) (S(sgl \<mapsto> t)) =
          Some (1, S(sgl \<mapsto> t, sgl + sz_scatterlist \<mapsto> t'))" "sg_phys M t' = phys_addr (kf_addr f)" "sg_length t' = len' - l"
        by (rule setup_sgl_buf_ok [OF M b(2) _ s(4) l1])
      have "setup_sgl M f sgl nents len off S = Some (2, S(sgl \<mapsto> t, sgl + sz_scatterlist \<mapsto> t'))"
        using t(1) t'(1) by (simp add: setup_sgl_def sp)
      moreover have "sg_ranges M (S(sgl \<mapsto> t, sgl + sz_scatterlist \<mapsto> t')) sgl 2 = [(sg_phys M t, unat l), (sg_phys M t', unat (len' - l))]"
        unfolding numeral_2_eq_2 using t(3) t'(3) by (simp add: sz_scatterlist_def)
      ultimately show ?thesis using t(2) t'(2) m two l0(2) ph by (simp add: ring_ranges_def)
    qed
  qed
  then show ?thesis using e(1,2) by simp
qed

lemma dma_fifoD:
  assumes "dma_fifo f"
  shows "kfifo_wf f" "kfifo_cap f * unat (kf_esize f) \<le> length (kf_store f)" "kfifo_cap f * unat (kf_esize f) < 2 ^ 32"
    "unat i mod kfifo_cap f * unat (kf_esize f) < kfifo_cap f * unat (kf_esize f)" "kf_esize f \<noteq> 0"
  using assms kfifo_wf_pos [of f] by (auto simp: dma_fifo_def kfifo_wf_def)

text \<open>Writing a length field in front of data that is already there.\<close>

lemma ring_write_front:
  assumes "p < N" "length xs + length ys \<le> N" "N \<le> length d"
  shows "ring_write (ring_write d N ((p + length xs) mod N) ys) N p xs = ring_write d N p (xs @ ys)"
    (is "?l = ?r")
proof (rule nth_equalityI)
  have q: "(p + length xs) mod N < N" using assms by simp
  with assms show "length ?l = length ?r" by simp
  fix j assume "j < length ?l"
  with assms q have j: "j < length d" by simp
  show "?l ! j = ?r ! j"
  proof (cases "j < N")
    case True
    with assms q show ?thesis by (auto simp: nth_ring_write ring_dist_shift nth_append)
  next
    case False
    with assms q j show ?thesis by (simp add: nth_ring_write_beyond)
  qed
qed

text \<open>A record written by a device and finished is the record put by \<open>__kfifo_in_r\<close>.\<close>

lemma dma_in_r_enqueues:
  assumes M: "pages_ok M" and f: "dma_fifo f" and S: "sg_array S sgl nents" and h: "holds_records R f rs"
    and len: "unat len < 256 ^ unat R" and room: "kfifo_used f + unat len + unat R \<le> kfifo_cap f" and r: "length r = unat len"
  shows "\<exists>w S' f'. fifo_dma_in_prepare_r M f sgl nents len R S = Some (w, S') \<and>
    fifo_dma_in_finish_r (kf_set_store f (dma_write (phys_addr (kf_addr f)) (kf_store f) (sg_ranges M S' sgl (unat w)) r)) len R = Some f' \<and>
    holds_records R f' (rs @ [r])"
proof -
  have bf: "byte_fifo f" and R: "R \<in> {1, 2}" using h by (simp_all add: holds_records_def)
  note d = dma_fifoD [OF f] and E = byte_fifoD(2) [OF bf]
  let ?N = "kfifo_cap f" and ?p = "unat (kf_in f) mod kfifo_cap f"
  have p: "?p < ?N" "?N \<le> length (kf_store f)" using d(2,4) E by simp_all
  obtain m where m: "fifo_max_r len R = Some m" "unat m = min (unat len) (256 ^ unat R - 1)" by (rule fifo_max_r_eq [OF R])
  then have mx: "fifo_max_r len R = Some len" using len by (simp add: word_unat_eq_iff)
  have lR: "unat (len + R) = unat len + unat R" using room kfifo_wf_cap_le [OF d(1)] by (intro unat_add_no_wrap) simp
  then have g: "\<not> len + R > kfifo_unused f" using room kfifo_unused_eq [OF d(1)] by (simp add: word_less_nat_alt)
  have q: "unat (kf_in f + R) mod ?N = (?p + length (rec_len R len)) mod ?N"
    by (simp add: kfifo_pos_add [OF d(1)] length_rec_len [OF R])
  obtain w S' where w: "setup_sgl M f sgl nents len (kf_in f + R) S = Some (w, S')"
    "sg_ranges M S' sgl (unat w) = ring_ranges (phys_addr (kf_addr f)) ?N ((?p + length (rec_len R len)) mod ?N) (unat len)"
    using setup_sgl_ok [OF M f S, of len "kf_in f + R"] room E q by auto
  define g' where "g' = kf_set_store f (ring_write (kf_store f) ?N ((?p + length (rec_len R len)) mod ?N) r)"
  have g': "kf_set_store f (dma_write (phys_addr (kf_addr f)) (kf_store f) (sg_ranges M S' sgl (unat w)) r) = g'"
    unfolding w(2) g'_def using dma_write_ring [OF _ _ p(2) _ r] p(1) room d(3) E by simp
  have fit: "length (rec_len R len) + length r \<le> ?N" using room r by (simp add: length_rec_len [OF R])
  have bg: "byte_fifo g'" unfolding g'_def by (rule byte_fifo_set_store [OF bf]) (use p fit in simp)
  have st: "kf_store g' = ring_write (kf_store f) ?N ((?p + length (rec_len R len)) mod ?N) r"
    using d(1) by (simp add: g'_def kfifo_wf_def)
  have "kfifo_poke_n g' len R = Some (kf_set_store f (ring_write (kf_store f) ?N ?p (rec_len R len @ r)))"
    using kfifo_poke_n_eq [OF bg R, of len] ring_write_front [OF p(1) fit p(2)] by (simp add: st) (simp add: g'_def)
  then have fin: "fifo_dma_in_finish_r g' len R = Some ((kf_set_store f (ring_write (kf_store f) ?N ?p (rec_len R len @ r)))\<lparr>kf_in := kf_in f + (len + R)\<rparr>)"
    (is "_ = Some ?f'") by (simp add: fifo_dma_in_finish_r_def mx)
  have cm: "kfifo_wf ?f'" "kfifo_bytes ?f' = kfifo_bytes f @ rec_len R len @ r" "kf_esize ?f' = 1"
    using kfifo_commit_in [OF d(1), of "rec_len R len @ r" "unat len + unat R" "len + R" ?f'] room r lR E
    by (simp_all add: length_rec_len [OF R])
  have "holds_records R ?f' (rs @ [r])"
    by (rule holds_records_snoc [OF h _ len r cm(2)]) (use cm in \<open>simp add: byte_fifo_def\<close>)
  with w(1) g g' fin mx show ?thesis using S by (auto simp: fifo_dma_in_prepare_r_def sg_array_def)
qed

text \<open>A device reads a prefix of the oldest record, which is removed as a whole.\<close>

lemma dma_out_r_dequeues:
  assumes M: "pages_ok M" and f: "dma_fifo f" and S: "sg_array S sgl nents" and h: "holds_records R f (r # rs)"
    and len: "unat len \<le> length r"
  shows "\<exists>w S' f'. fifo_dma_out_prepare_r M f sgl nents len R S = Some (w, S') \<and>
    dma_read (phys_addr (kf_addr f)) (kf_store f) (sg_ranges M S' sgl (unat w)) = take (unat len) r \<and>
    fifo_dma_out_finish_r f R = Some f' \<and> holds_records R f' rs"
proof -
  obtain n where n: "byte_fifo f" "R \<in> {1, 2}" "unat n = length r" "take_bit (8 * unat R) n = n"
    "kfifo_bytes f = rec_len R n @ r @ concat (map (rec_enc R) rs)" "list_all (\<lambda>r. length r < 256 ^ unat R) rs"
    using h by (rule holds_records_ConsD)
  note d = dma_fifoD [OF f] and E = byte_fifoD(2) [OF n(1)]
  have lr: "length r < 256 ^ unat R" using h by (simp add: holds_records_def)
  obtain m where m: "fifo_max_r len R = Some m" "unat m = min (unat len) (256 ^ unat R - 1)" by (rule fifo_max_r_eq [OF n(2)])
  then have mx: "fifo_max_r len R = Some len" using len lr by (simp add: word_unat_eq_iff)
  have u: "unat R + length r + length (concat (map (rec_enc R) rs)) = kfifo_used f"
    using arg_cong [OF n(5), of length] length_rec_len [OF n(2), of n] E by (simp add: length_kfifo_bytes)
  have c: "kfifo_used f \<le> kfifo_cap f" using d(1) by (simp add: kfifo_wf_def)
  have "unat (len + R) = unat len + unat R" using len u c kfifo_wf_cap_le [OF d(1)] by (intro unat_add_no_wrap) simp
  then have g: "\<not> len + R > kf_in f - kf_out f" using len u by (simp add: word_less_nat_alt kfifo_used_def)
  obtain w S' where w: "setup_sgl M f sgl nents len (kf_out f + R) S = Some (w, S')"
    "sg_ranges M S' sgl (unat w) = ring_ranges (phys_addr (kf_addr f)) (kfifo_cap f) (unat (kf_out f + R) mod kfifo_cap f) (unat len)"
    using setup_sgl_ok [OF M f S, of len "kf_out f + R"] len u c E by auto
  have q: "unat (kf_out f + R) mod kfifo_cap f < kfifo_cap f" using d(4) [of "kf_out f + R"] E by simp
  have "take (unat len) r = take (unat len) (drop (unat R) (kfifo_bytes f))"
    using len by (simp add: n(5) length_rec_len [OF n(2)])
  also have "\<dots> = ring_read (kf_store f) (kfifo_cap f) (unat (kf_out f + R) mod kfifo_cap f) (unat len)"
    using len u E by (simp add: kfifo_bytes_def Let_def drop_ring_read take_ring_read kfifo_pos_add [OF d(1)] min_absorb1)
  finally have rd: "dma_read (phys_addr (kf_addr f)) (kf_store f) (sg_ranges M S' sgl (unat w)) = take (unat len) r"
    unfolding w(2) using dma_read_ring [OF q _ d(2) [unfolded E, simplified], of "unat len"] d(3) E len u c by simp
  have le: "unat n \<le> length (r @ concat (map (rec_enc R) rs))" using n(3) by simp
  note cr = kfifo_consume_record [OF n(1,2,5) le refl]
  have "fifo_dma_out_finish_r f R = Some (f\<lparr>kf_out := kf_out f + (n + R)\<rparr>)"
    by (simp add: fifo_dma_out_finish_r_def kfifo_peek_n_eq [OF n(1,2,5)] n(4))
  moreover have "holds_records R (f\<lparr>kf_out := kf_out f + (n + R)\<rparr>) rs" using cr n(2,3,6) by (simp add: holds_records_def)
  ultimately show ?thesis using w(1) rd g mx S by (auto simp: fifo_dma_out_prepare_r_def sg_array_def)
qed

section \<open>Properties\<close>

definition sample_pages :: pages where
  "sample_pages = \<lparr>pfn_to_page = (\<lambda>pfn. push_bit 5 pfn), page_to_pfn = drop_bit 5\<rparr>"

lemma sample_pages_ok: "pages_ok sample_pages"
proof -
  have "drop_bit 5 (push_bit 5 pfn) = pfn" if "unat pfn < 2 ^ 20" for pfn :: u32
  proof -
    have "unat (push_bit 5 pfn) = unat pfn * 2 ^ 5" using that by (intro unat_push_bit_no_wrap) simp
    then have "unat (drop_bit 5 (push_bit 5 pfn)) = unat pfn" by (simp only: unat_drop_bit_div) simp
    then show ?thesis by (simp only: word_unat_eq_iff)
  qed
  moreover have "push_bit 5 pfn AND 3 = 0" for pfn :: u32
  proof -
    have "take_bit 2 (push_bit 5 pfn) = 0" by (simp add: take_bit_push_bit)
    then show ?thesis by (simp add: take_bit_eq_mask mask_eq_exp_minus_1)
  qed
  ultimately show ?thesis by (simp add: pages_ok_def sample_pages_def)
qed

definition sample_sgs :: sgs where
  "sample_sgs = [0x700 \<mapsto> \<lparr>page_link = 0, sg_offset = 0, sg_length = 0, dma_address = 0\<rparr>,
     0x710 \<mapsto> \<lparr>page_link = 2, sg_offset = 0, sg_length = 0, dma_address = 0\<rparr>]"

lemma sample_dma_fifo: "dma_fifo sample_fifo"
  by (simp add: dma_fifo_def sample_fifo_facts)

lemma sample_dma_addr: "kf_addr sample_fifo = 0x1000"
  by (simp add: kf_addr_def sample_fifo_def)

lemma sample_sgs_ok: "sg_array sample_sgs 0x700 2"
  by (simp add: sg_array_def sample_sgs_def sz_scatterlist_def)





end
