(* ===== verification/Linked_List.thy ===== *)
theory Linked_List
  imports Prelude
begin

text \<open>
  The circular doubly linked lists of \<open>linux/list.h\<close>. The heap holds the two link fields of
  every \<open>struct list_head\<close>; an access to an address that holds none is a fault. \<open>dlist h head xs\<close>
  says that the list with head \<open>head\<close> links exactly the nodes \<open>xs\<close> in this order, in both
  directions. Every operation of the header is shown to do the corresponding operation on
  sequences, and a traversal to visit the sequence.
\<close>

section \<open>Definitions\<close>

record lheap =
  l_next :: "addr \<rightharpoonup> addr"
  l_prev :: "addr \<rightharpoonup> addr"

text \<open>Stores to a link field.\<close>

definition set_next :: "addr \<Rightarrow> addr \<Rightarrow> lheap \<Rightarrow> lheap option" where
  "set_next p v h = (case l_next h p of None \<Rightarrow> None | Some _ \<Rightarrow> Some (h\<lparr>l_next := (l_next h)(p \<mapsto> v)\<rparr>))"

definition set_prev :: "addr \<Rightarrow> addr \<Rightarrow> lheap \<Rightarrow> lheap option" where
  "set_prev p v h = (case l_prev h p of None \<Rightarrow> None | Some _ \<Rightarrow> Some (h\<lparr>l_prev := (l_prev h)(p \<mapsto> v)\<rparr>))"

definition LIST_POISON1 :: addr where "LIST_POISON1 = 0x100"
definition LIST_POISON2 :: addr where "LIST_POISON2 = 0x200"

definition INIT_LIST_HEAD :: "addr \<Rightarrow> lheap \<Rightarrow> lheap option" where
  "INIT_LIST_HEAD l h = do { h \<leftarrow> set_next l l h; set_prev l l h }"

text \<open>\<open>__list_add\<close> and \<open>__list_del\<close>.\<close>

definition list_add_between :: "addr \<Rightarrow> addr \<Rightarrow> addr \<Rightarrow> lheap \<Rightarrow> lheap option" where
  "list_add_between new prev next h =
     do { h \<leftarrow> set_prev next new h;
          h \<leftarrow> set_next new next h;
          h \<leftarrow> set_prev new prev h;
          set_next prev new h }"

definition list_add :: "addr \<Rightarrow> addr \<Rightarrow> lheap \<Rightarrow> lheap option" where
  "list_add new head h = do { n \<leftarrow> l_next h head; list_add_between new head n h }"

definition list_add_tail :: "addr \<Rightarrow> addr \<Rightarrow> lheap \<Rightarrow> lheap option" where
  "list_add_tail new head h = do { p \<leftarrow> l_prev h head; list_add_between new p head h }"

definition list_del_between :: "addr \<Rightarrow> addr \<Rightarrow> lheap \<Rightarrow> lheap option" where
  "list_del_between prev next h = do { h \<leftarrow> set_prev next prev h; set_next prev next h }"

definition list_del_entry :: "addr \<Rightarrow> lheap \<Rightarrow> lheap option" where
  "list_del_entry entry h =
     do { p \<leftarrow> l_prev h entry; n \<leftarrow> l_next h entry; list_del_between p n h }"

definition list_del :: "addr \<Rightarrow> lheap \<Rightarrow> lheap option" where
  "list_del entry h =
     do { p \<leftarrow> l_prev h entry; n \<leftarrow> l_next h entry;
          h \<leftarrow> list_del_between p n h;
          h \<leftarrow> set_next entry LIST_POISON1 h;
          set_prev entry LIST_POISON2 h }"

definition list_replace :: "addr \<Rightarrow> addr \<Rightarrow> lheap \<Rightarrow> lheap option" where
  "list_replace old new h =
     do { n \<leftarrow> l_next h old;
          h \<leftarrow> set_next new n h;
          n \<leftarrow> l_next h new;
          h \<leftarrow> set_prev n new h;
          p \<leftarrow> l_prev h old;
          h \<leftarrow> set_prev new p h;
          p \<leftarrow> l_prev h new;
          set_next p new h }"

definition list_replace_init :: "addr \<Rightarrow> addr \<Rightarrow> lheap \<Rightarrow> lheap option" where
  "list_replace_init old new h = do { h \<leftarrow> list_replace old new h; INIT_LIST_HEAD old h }"

definition list_del_init :: "addr \<Rightarrow> lheap \<Rightarrow> lheap option" where
  "list_del_init entry h = do { h \<leftarrow> list_del_entry entry h; INIT_LIST_HEAD entry h }"

definition list_move :: "addr \<Rightarrow> addr \<Rightarrow> lheap \<Rightarrow> lheap option" where
  "list_move l head h = do { h \<leftarrow> list_del_entry l h; list_add l head h }"

definition list_move_tail :: "addr \<Rightarrow> addr \<Rightarrow> lheap \<Rightarrow> lheap option" where
  "list_move_tail l head h = do { h \<leftarrow> list_del_entry l h; list_add_tail l head h }"

definition list_is_last :: "addr \<Rightarrow> addr \<Rightarrow> lheap \<Rightarrow> bool option" where
  "list_is_last l head h = do { n \<leftarrow> l_next h l; Some (n = head) }"

definition list_empty :: "addr \<Rightarrow> lheap \<Rightarrow> bool option" where
  "list_empty head h = do { n \<leftarrow> l_next h head; Some (n = head) }"

definition list_empty_careful :: "addr \<Rightarrow> lheap \<Rightarrow> bool option" where
  "list_empty_careful head h =
     do { next \<leftarrow> l_next h head;
          if next = head then do { p \<leftarrow> l_prev h head; Some (next = p) } else Some False }"

definition list_rotate_left :: "addr \<Rightarrow> lheap \<Rightarrow> lheap option" where
  "list_rotate_left head h =
     do { e \<leftarrow> list_empty head h;
          if \<not> e then do { first \<leftarrow> l_next h head; list_move_tail first head h } else Some h }"

definition list_is_singular :: "addr \<Rightarrow> lheap \<Rightarrow> bool option" where
  "list_is_singular head h =
     do { e \<leftarrow> list_empty head h;
          if \<not> e then do { n \<leftarrow> l_next h head; p \<leftarrow> l_prev h head; Some (n = p) } else Some False }"

text \<open>\<open>__list_cut_position\<close> and \<open>__list_splice\<close>.\<close>

definition list_cut_at :: "addr \<Rightarrow> addr \<Rightarrow> addr \<Rightarrow> lheap \<Rightarrow> lheap option" where
  "list_cut_at l head entry h =
     do { new_first \<leftarrow> l_next h entry;
          n \<leftarrow> l_next h head;
          h \<leftarrow> set_next l n h;
          n \<leftarrow> l_next h l;
          h \<leftarrow> set_prev n l h;
          h \<leftarrow> set_prev l entry h;
          h \<leftarrow> set_next entry l h;
          h \<leftarrow> set_next head new_first h;
          set_prev new_first head h }"

definition list_cut_position :: "addr \<Rightarrow> addr \<Rightarrow> addr \<Rightarrow> lheap \<Rightarrow> lheap option" where
  "list_cut_position l head entry h =
     do { e \<leftarrow> list_empty head h;
          if e then Some h
          else do { s \<leftarrow> list_is_singular head h;
                    n \<leftarrow> l_next h head;
                    if s \<and> n \<noteq> entry \<and> head \<noteq> entry then Some h
                    else if entry = head then INIT_LIST_HEAD l h
                    else list_cut_at l head entry h } }"

definition list_splice_between :: "addr \<Rightarrow> addr \<Rightarrow> addr \<Rightarrow> lheap \<Rightarrow> lheap option" where
  "list_splice_between l prev next h =
     do { first \<leftarrow> l_next h l;
          last \<leftarrow> l_prev h l;
          h \<leftarrow> set_prev first prev h;
          h \<leftarrow> set_next prev first h;
          h \<leftarrow> set_next last next h;
          set_prev next last h }"

definition list_splice :: "addr \<Rightarrow> addr \<Rightarrow> lheap \<Rightarrow> lheap option" where
  "list_splice l head h =
     do { e \<leftarrow> list_empty l h;
          if \<not> e then do { n \<leftarrow> l_next h head; list_splice_between l head n h } else Some h }"

definition list_splice_tail :: "addr \<Rightarrow> addr \<Rightarrow> lheap \<Rightarrow> lheap option" where
  "list_splice_tail l head h =
     do { e \<leftarrow> list_empty l h;
          if \<not> e then do { p \<leftarrow> l_prev h head; list_splice_between l p head h } else Some h }"

definition list_splice_init :: "addr \<Rightarrow> addr \<Rightarrow> lheap \<Rightarrow> lheap option" where
  "list_splice_init l head h =
     do { e \<leftarrow> list_empty l h;
          if \<not> e then do { n \<leftarrow> l_next h head;
                           h \<leftarrow> list_splice_between l head n h;
                           INIT_LIST_HEAD l h }
          else Some h }"

definition list_splice_tail_init :: "addr \<Rightarrow> addr \<Rightarrow> lheap \<Rightarrow> lheap option" where
  "list_splice_tail_init l head h =
     do { e \<leftarrow> list_empty l h;
          if \<not> e then do { p \<leftarrow> l_prev h head;
                           h \<leftarrow> list_splice_between l p head h;
                           INIT_LIST_HEAD l h }
          else Some h }"

subsection \<open>Entries and traversals\<close>

text \<open>An entry contains its \<open>list_head\<close> at the offset \<open>off\<close>.\<close>

definition list_entry :: "addr \<Rightarrow> addr \<Rightarrow> addr" where "list_entry off ptr = ptr - off"

definition list_first_entry :: "addr \<Rightarrow> addr \<Rightarrow> lheap \<Rightarrow> addr option" where
  "list_first_entry off ptr h = do { n \<leftarrow> l_next h ptr; Some (list_entry off n) }"

definition list_last_entry :: "addr \<Rightarrow> addr \<Rightarrow> lheap \<Rightarrow> addr option" where
  "list_last_entry off ptr h = do { p \<leftarrow> l_prev h ptr; Some (list_entry off p) }"

definition list_first_entry_or_null :: "addr \<Rightarrow> addr \<Rightarrow> lheap \<Rightarrow> addr option" where
  "list_first_entry_or_null off ptr h =
     do { pos \<leftarrow> l_next h ptr; Some (if pos \<noteq> ptr then list_entry off pos else 0) }"

definition list_next_entry :: "addr \<Rightarrow> addr \<Rightarrow> lheap \<Rightarrow> addr option" where
  "list_next_entry off pos h = do { n \<leftarrow> l_next h (pos + off); Some (list_entry off n) }"

definition list_prev_entry :: "addr \<Rightarrow> addr \<Rightarrow> lheap \<Rightarrow> addr option" where
  "list_prev_entry off pos h = do { p \<leftarrow> l_prev h (pos + off); Some (list_entry off p) }"

text \<open>The nodes a loop visits from \<open>pos\<close> on, when its body changes no link.\<close>

partial_function (option) list_visit :: "(addr \<rightharpoonup> addr) \<Rightarrow> addr \<Rightarrow> addr \<Rightarrow> addr list option" where
  "list_visit link pos head =
     (if pos = head then Some []
      else do { n \<leftarrow> link pos; xs \<leftarrow> list_visit link n head; Some (pos # xs) })"

definition list_for_each :: "addr \<Rightarrow> lheap \<Rightarrow> addr list option" where
  "list_for_each head h = do { pos \<leftarrow> l_next h head; list_visit (l_next h) pos head }"

definition list_for_each_prev :: "addr \<Rightarrow> lheap \<Rightarrow> addr list option" where
  "list_for_each_prev head h = do { pos \<leftarrow> l_prev h head; list_visit (l_prev h) pos head }"

definition list_for_each_entry :: "addr \<Rightarrow> addr \<Rightarrow> lheap \<Rightarrow> addr list option" where
  "list_for_each_entry off head h =
     do { pos \<leftarrow> list_first_entry off head h;
          xs \<leftarrow> list_visit (l_next h) (pos + off) head;
          Some (map (list_entry off) xs) }"

definition list_for_each_entry_reverse :: "addr \<Rightarrow> addr \<Rightarrow> lheap \<Rightarrow> addr list option" where
  "list_for_each_entry_reverse off head h =
     do { pos \<leftarrow> list_last_entry off head h;
          xs \<leftarrow> list_visit (l_prev h) (pos + off) head;
          Some (map (list_entry off) xs) }"

definition list_for_each_entry_continue :: "addr \<Rightarrow> addr \<Rightarrow> addr \<Rightarrow> lheap \<Rightarrow> addr list option" where
  "list_for_each_entry_continue off pos head h =
     do { pos \<leftarrow> list_next_entry off pos h;
          xs \<leftarrow> list_visit (l_next h) (pos + off) head;
          Some (map (list_entry off) xs) }"

definition list_for_each_entry_from :: "addr \<Rightarrow> addr \<Rightarrow> addr \<Rightarrow> lheap \<Rightarrow> addr list option" where
  "list_for_each_entry_from off pos head h =
     do { xs \<leftarrow> list_visit (l_next h) (pos + off) head; Some (map (list_entry off) xs) }"

text \<open>The loop that is safe against removal of the visited node, with the effects of its body.\<close>

partial_function (option) list_loop_safe ::
  "(addr \<Rightarrow> lheap \<Rightarrow> lheap option) \<Rightarrow> addr \<Rightarrow> addr \<Rightarrow> addr \<Rightarrow> lheap \<Rightarrow> lheap option" where
  "list_loop_safe body pos n head h =
     (if pos = head then Some h
      else do { h \<leftarrow> body pos h; n' \<leftarrow> l_next h n; list_loop_safe body n n' head h })"

definition list_for_each_safe :: "(addr \<Rightarrow> lheap \<Rightarrow> lheap option) \<Rightarrow> addr \<Rightarrow> lheap \<Rightarrow> lheap option" where
  "list_for_each_safe body head h =
     do { pos \<leftarrow> l_next h head; n \<leftarrow> l_next h pos; list_loop_safe body pos n head h }"

text \<open>\<open>list_for_each_entry\<close> with a body that changes no link but may change the state and may leave
  the function: the body gives \<open>Inl\<close> for a return and \<open>Inr\<close> to go on.\<close>

partial_function (option) list_entry_loop ::
  "(addr \<Rightarrow> 's \<Rightarrow> ('r + 's) option) \<Rightarrow> addr \<Rightarrow> addr \<Rightarrow> addr \<Rightarrow> lheap \<Rightarrow> 's \<Rightarrow> ('r + 's) option" where
  "list_entry_loop body off pos head h s =
     (if pos + off = head then Some (Inr s)
      else do { r \<leftarrow> body pos s;
                case r of Inl v \<Rightarrow> Some (Inl v)
                | Inr s \<Rightarrow> do { pos \<leftarrow> list_next_entry off pos h; list_entry_loop body off pos head h s } })"

definition list_for_each_entry_do ::
  "(addr \<Rightarrow> 's \<Rightarrow> ('r + 's) option) \<Rightarrow> addr \<Rightarrow> addr \<Rightarrow> lheap \<Rightarrow> 's \<Rightarrow> ('r + 's) option" where
  "list_for_each_entry_do body off head h s =
     do { pos \<leftarrow> list_first_entry off head h; list_entry_loop body off pos head h s }"

section \<open>Abstraction\<close>

text \<open>\<open>dpath h a xs b\<close>: from \<open>a\<close> through \<open>xs\<close> to \<open>b\<close>, linked in both directions.\<close>

fun dpath :: "lheap \<Rightarrow> addr \<Rightarrow> addr list \<Rightarrow> addr \<Rightarrow> bool" where
  "dpath h a [] b \<longleftrightarrow> l_next h a = Some b \<and> l_prev h b = Some a"
| "dpath h a (x # xs) b \<longleftrightarrow> l_next h a = Some x \<and> l_prev h x = Some a \<and> dpath h x xs b"

definition dlist :: "lheap \<Rightarrow> addr \<Rightarrow> addr list \<Rightarrow> bool" where
  "dlist h head xs \<longleftrightarrow> dpath h head xs head \<and> distinct (head # xs)"

definition is_node :: "lheap \<Rightarrow> addr \<Rightarrow> bool" where
  "is_node h p \<longleftrightarrow> l_next h p \<noteq> None \<and> l_prev h p \<noteq> None"

section \<open>Paths\<close>

lemma dpath_append:
  "dpath h a (xs @ m # ys) b \<longleftrightarrow> dpath h a xs m \<and> dpath h m ys b"
  by (induction xs arbitrary: a) auto

lemma dpath_cong:
  assumes "\<And>x. x \<in> set (a # xs) \<Longrightarrow> l_next h' x = l_next h x"
    and "\<And>x. x \<in> set (xs @ [b]) \<Longrightarrow> l_prev h' x = l_prev h x"
  shows "dpath h' a xs b = dpath h a xs b"
  using assms by (induction xs arbitrary: a) auto

lemma dpath_ends:
  "dpath h a xs b \<Longrightarrow> l_next h a = Some (hd (xs @ [b]))"
  "dpath h a xs b \<Longrightarrow> l_prev h b = Some (last (a # xs))"
  by (induction xs arbitrary: a) auto

text \<open>Sending the end of a path to another node, and starting it from another node.\<close>

lemma dpath_new_end:
  assumes "dpath h a xs b" "distinct (a # xs)"
    and "l_next h' (last (a # xs)) = Some c" "l_prev h' c = Some (last (a # xs))"
    and "\<And>x. x \<in> set (butlast (a # xs)) \<Longrightarrow> l_next h' x = l_next h x"
    and "\<And>x. x \<in> set xs \<Longrightarrow> l_prev h' x = l_prev h x"
  shows "dpath h' a xs c"
  using assms by (induction xs arbitrary: a) (auto split: if_splits)

lemma dpath_new_start:
  assumes "dpath h a xs b"
    and "l_next h' c = Some (hd (xs @ [b]))" "l_prev h' (hd (xs @ [b])) = Some c"
    and "\<And>x. x \<in> set xs \<Longrightarrow> l_next h' x = l_next h x"
    and "\<And>x. x \<in> set (tl (xs @ [b])) \<Longrightarrow> l_prev h' x = l_prev h x"
  shows "dpath h' c xs b"
proof (cases xs)
  case Nil
  with assms show ?thesis by simp
next
  case (Cons x ys)
  have "dpath h' x ys b = dpath h x ys b"
    using assms(4,5) Cons by (intro dpath_cong) auto
  with assms Cons show ?thesis by simp
qed

lemma dpath_nodes:
  assumes "dpath h a xs b" "x \<in> set xs"
  shows "is_node h x"
  using assms by (induction xs arbitrary: a) (auto simp: is_node_def dest: dpath_ends(1))

lemma dpath_split:
  assumes "dpath h a (xs @ ys) b"
  shows "dpath h a xs (hd (ys @ [b]))" "l_prev h (hd (ys @ [b])) = Some (last (a # xs))"
    "l_next h (last (a # xs)) = Some (hd (ys @ [b]))"
proof -
  show p: "dpath h a xs (hd (ys @ [b]))" using assms by (cases ys) (auto simp: dpath_append)
  show "l_prev h (hd (ys @ [b])) = Some (last (a # xs))" using dpath_ends(2) [OF p] .
  show "l_next h (last (a # xs)) = Some (hd (ys @ [b]))"
    using p by (induction xs arbitrary: a) auto
qed

lemma in_butlast_not_last: "distinct (a # xs) \<Longrightarrow> x \<in> set (butlast (a # xs)) \<Longrightarrow> x \<noteq> last (a # xs)"
  by (metis append_butlast_last_id distinct_append disjoint_iff list.distinct(1) list.set_intros(1))

lemma dpath_rest: "dpath h a (xs @ ys) b \<Longrightarrow> dpath h (last (a # xs)) ys b"
  by (induction xs arbitrary: a) auto

lemma hd_snoc_in: "hd (ys @ [b]) \<in> set (ys @ [b])"
  by (cases ys) auto

lemma last_Cons_in: "last (a # xs) \<in> set (a # xs)"
  by (rule last_in_set) simp

lemma in_tl_not_hd: "distinct (ys @ [b]) \<Longrightarrow> x \<in> set (tl (ys @ [b])) \<Longrightarrow> x \<noteq> hd (ys @ [b])"
  by (cases ys) auto

lemma in_tl: "x \<in> set (tl xs) \<Longrightarrow> x \<in> set xs"
  by (cases xs) auto

lemma dpath_insert:
  assumes path: "dpath h a (ys @ zs) b" and d: "distinct (a # ys @ zs)" "distinct (ys @ zs @ [b])"
    and new: "new \<notin> set (a # ys @ zs @ [b])"
    and h': "h' = h\<lparr>l_next := (l_next h)(new \<mapsto> hd (zs @ [b]), last (a # ys) \<mapsto> new),
      l_prev := (l_prev h)(hd (zs @ [b]) \<mapsto> new, new \<mapsto> last (a # ys))\<rparr>"
  shows "dpath h' a (ys @ new # zs) b"
proof -
  have da: "distinct (a # ys)" and dz: "distinct (zs @ [b])" using d by simp_all
  have q: "hd (zs @ [b]) \<notin> set ys" "hd (zs @ [b]) \<noteq> new"
    using hd_snoc_in [of zs b] d new by (auto simp del: hd_append2)
  have p: "last (a # ys) \<notin> set zs" "last (a # ys) \<noteq> new"
    using last_Cons_in [of a ys] d new by (auto simp del: last.simps)
  have "dpath h' a ys new"
  proof (rule dpath_new_end [OF dpath_split(1) [OF path] da])
    show "l_next h' x = l_next h x" if "x \<in> set (butlast (a # ys))" for x
      using in_butlast_not_last [OF da that] in_set_butlastD [OF that] new by (auto simp: h')
  qed (use q new in \<open>auto simp: h'\<close>)
  moreover have "dpath h' new zs b"
  proof (rule dpath_new_start [OF dpath_rest [OF path]])
    show "l_prev h' x = l_prev h x" if "x \<in> set (tl (zs @ [b]))" for x
      using in_tl_not_hd [OF dz that] in_tl [OF that] new by (auto simp: h')
    show "l_next h' x = l_next h x" if "x \<in> set zs" for x
      using that p new by (auto simp: h')
  qed (use q p in \<open>simp_all add: h'\<close>)
  ultimately show ?thesis by (simp add: dpath_append)
qed

lemma dpath_delete:
  assumes path: "dpath h a (ys @ e # zs) b" and d: "distinct (a # ys @ e # zs)" "distinct (ys @ e # zs @ [b])"
    and h': "h' = h\<lparr>l_next := (l_next h)(last (a # ys) \<mapsto> hd (zs @ [b])),
      l_prev := (l_prev h)(hd (zs @ [b]) \<mapsto> last (a # ys))\<rparr>"
  shows "dpath h' a (ys @ zs) b"
proof -
  have da: "distinct (a # ys)" and dz: "distinct (zs @ [b])" using d by simp_all
  have q: "hd (zs @ [b]) \<notin> set ys" using hd_snoc_in [of zs b] d by (auto simp del: hd_append2)
  have p: "last (a # ys) \<notin> set zs" using last_Cons_in [of a ys] d by (auto simp del: last.simps)
  have path': "dpath h a ys e" "dpath h e zs b" using path by (simp_all add: dpath_append)
  have 1: "dpath h' a ys (hd (zs @ [b]))"
  proof (rule dpath_new_end [OF path'(1) da])
    show "l_next h' x = l_next h x" if "x \<in> set (butlast (a # ys))" for x
      using in_butlast_not_last [OF da that] by (auto simp: h')
  qed (use q in \<open>auto simp: h'\<close>)
  show ?thesis
  proof (cases zs)
    case Nil
    with 1 show ?thesis by simp
  next
    case (Cons z zs')
    have "dpath h' z zs' b = dpath h z zs' b"
    proof (rule dpath_cong)
      show "l_next h' x = l_next h x" if "x \<in> set (z # zs')" for x
        using that p Cons by (auto simp: h' simp del: last.simps)
      show "l_prev h' x = l_prev h x" if "x \<in> set (zs' @ [b])" for x
        using that dz Cons by (auto simp: h')
    qed
    with 1 path'(2) Cons show ?thesis by (simp add: dpath_append)
  qed
qed

section \<open>Operations on lists\<close>

text \<open>Nodes outside a set keep their links.\<close>

definition links_kept :: "lheap \<Rightarrow> lheap \<Rightarrow> addr set \<Rightarrow> bool" where
  "links_kept h h' A \<longleftrightarrow> (\<forall>x. x \<notin> A \<longrightarrow> l_next h' x = l_next h x \<and> l_prev h' x = l_prev h x) \<and>
     (\<forall>x. is_node h x \<longrightarrow> is_node h' x)"

lemma links_kept_refl: "links_kept h h A"
  by (simp add: links_kept_def)

lemma links_kept_trans:
  "links_kept h h' A \<Longrightarrow> links_kept h' h'' A' \<Longrightarrow> A \<subseteq> B \<Longrightarrow> A' \<subseteq> B \<Longrightarrow> links_kept h h'' B"
  unfolding links_kept_def by (metis subset_iff)

lemma links_kept_mono: "links_kept h h' A \<Longrightarrow> A \<subseteq> B \<Longrightarrow> links_kept h h' B"
  by (auto simp: links_kept_def)

lemma links_kept_node: "links_kept h h' A \<Longrightarrow> is_node h x \<Longrightarrow> is_node h' x"
  by (simp add: links_kept_def)

lemma dlist_frame:
  assumes "dlist h head xs" "links_kept h h' A" "A \<inter> set (head # xs) = {}"
  shows "dlist h' head xs"
proof -
  have "dpath h' head xs head = dpath h head xs head"
    using assms(2,3) by (intro dpath_cong) (auto simp: links_kept_def)
  with assms(1) show ?thesis by (simp add: dlist_def)
qed

lemma dlist_split:
  assumes "dlist h head (ys @ zs)"
  shows "l_prev h (hd (zs @ [head])) = Some (last (head # ys))"
    "l_next h (last (head # ys)) = Some (hd (zs @ [head]))"
  using assms dpath_split(2,3) [of h head ys zs head] by (simp_all add: dlist_def)

lemma dlist_mid:
  assumes "dlist h head (ys @ e # zs)"
  shows "l_prev h e = Some (last (head # ys))" "l_next h e = Some (hd (zs @ [head]))"
proof -
  have "dlist h head ((ys @ [e]) @ zs)" using assms by simp
  from dlist_split(2) [OF this] dlist_split(1) [OF assms]
  show "l_prev h e = Some (last (head # ys))" "l_next h e = Some (hd (zs @ [head]))" by auto
qed

lemma dlist_node:
  assumes "dlist h head xs" "x \<in> set (head # xs)"
  shows "is_node h x"
proof (cases "x = head")
  case True
  with assms(1) dpath_ends [of h head xs head] show ?thesis by (simp add: dlist_def is_node_def)
next
  case False
  with assms dpath_nodes show ?thesis by (auto simp: dlist_def)
qed

lemma INIT_LIST_HEAD_ok:
  assumes "is_node h l"
  obtains h' where "INIT_LIST_HEAD l h = Some h'" "dlist h' l []" "links_kept h h' {l}"
  using assms that
  by (auto simp: INIT_LIST_HEAD_def set_next_def set_prev_def is_node_def dlist_def links_kept_def)

lemma list_add_between_ok:
  assumes l: "dlist h head (ys @ zs)" and new: "is_node h new" "new \<notin> set (head # ys @ zs)"
  obtains h' where "list_add_between new (last (head # ys)) (hd (zs @ [head])) h = Some h'"
    "dlist h' head (ys @ new # zs)" "links_kept h h' (set (new # head # ys @ zs))"
proof -
  let ?p = "last (head # ys)" and ?q = "hd (zs @ [head])"
  let ?h = "h\<lparr>l_next := (l_next h)(new \<mapsto> ?q, ?p \<mapsto> new), l_prev := (l_prev h)(?q \<mapsto> new, new \<mapsto> ?p)\<rparr>"
  have in_list: "?p \<in> set (head # ys @ zs)" "?q \<in> set (head # ys @ zs)"
    using last_Cons_in [of head ys] hd_snoc_in [of zs head] by (auto simp del: last.simps hd_append2)
  have ne: "?p \<noteq> new" "?q \<noteq> new" using in_list new(2) by blast+
  have "list_add_between new ?p ?q h = Some ?h"
    using ne new(1) dlist_split [OF l]
    by (auto simp: list_add_between_def set_next_def set_prev_def is_node_def
        simp del: last.simps hd_append2)
  moreover have "dlist ?h head (ys @ new # zs)"
    using dpath_insert [of h head ys zs head new ?h] l new(2) by (auto simp: dlist_def)
  moreover have "links_kept h ?h (set (new # head # ys @ zs))"
    using in_list unfolding links_kept_def is_node_def by (auto simp del: last.simps hd_append2)
  ultimately show thesis by (rule that)
qed

lemma list_add_ok:
  assumes "dlist h head xs" "is_node h new" "new \<notin> set (head # xs)"
  obtains h' where "list_add new head h = Some h'" "dlist h' head (new # xs)"
    "links_kept h h' (set (new # head # xs))"
  using list_add_between_ok [of h head "[]" xs new] assms that dlist_split(2) [of h head "[]" xs]
  by (auto simp: list_add_def)

lemma list_add_tail_ok:
  assumes "dlist h head xs" "is_node h new" "new \<notin> set (head # xs)"
  obtains h' where "list_add_tail new head h = Some h'" "dlist h' head (xs @ [new])"
    "links_kept h h' (set (new # head # xs))"
  using list_add_between_ok [of h head xs "[]" new] assms that dlist_split(1) [of h head xs "[]"]
  by (auto simp: list_add_tail_def simp del: last.simps)

lemma list_del_between_ok:
  assumes l: "dlist h head (ys @ e # zs)"
  obtains h' where "list_del_between (last (head # ys)) (hd (zs @ [head])) h = Some h'"
    "dlist h' head (ys @ zs)" "links_kept h h' (set (head # ys @ zs))"
    "l_next h' e = l_next h e" "l_prev h' e = l_prev h e"
proof -
  let ?p = "last (head # ys)" and ?q = "hd (zs @ [head])"
  let ?h = "h\<lparr>l_next := (l_next h)(?p \<mapsto> ?q), l_prev := (l_prev h)(?q \<mapsto> ?p)\<rparr>"
  have in_list: "?p \<in> set (head # ys @ zs)" "?q \<in> set (head # ys @ zs)"
    using last_Cons_in [of head ys] hd_snoc_in [of zs head] by (auto simp del: last.simps hd_append2)
  have e: "e \<notin> set (head # ys @ zs)" using l by (auto simp: dlist_def)
  have "is_node h ?p" "is_node h ?q"
    using dlist_node [OF l, of ?p] dlist_node [OF l, of ?q] in_list
    by (auto simp del: last.simps hd_append2)
  then have "list_del_between ?p ?q h = Some ?h"
    by (auto simp: list_del_between_def set_next_def set_prev_def is_node_def
        simp del: last.simps hd_append2)
  moreover have "dlist ?h head (ys @ zs)"
    using dpath_delete [of h head ys e zs head ?h] l by (auto simp: dlist_def)
  moreover have "links_kept h ?h (set (head # ys @ zs))"
    using in_list unfolding links_kept_def is_node_def by (auto simp del: last.simps hd_append2)
  moreover have "l_next ?h e = l_next h e" "l_prev ?h e = l_prev h e"
    using in_list e by (auto simp del: last.simps hd_append2)
  ultimately show thesis by (rule that)
qed

lemma list_del_entry_ok:
  assumes "dlist h head (ys @ e # zs)"
  obtains h' where "list_del_entry e h = Some h'" "dlist h' head (ys @ zs)" "is_node h' e"
    "links_kept h h' (set (head # ys @ zs))"
proof -
  obtain h' where h': "list_del_between (last (head # ys)) (hd (zs @ [head])) h = Some h'"
    "dlist h' head (ys @ zs)" "links_kept h h' (set (head # ys @ zs))"
    by (rule list_del_between_ok [OF assms])
  have "is_node h e" using dlist_node [OF assms, of e] by simp
  with h' dlist_mid [OF assms] show thesis
    by (intro that) (auto simp: list_del_entry_def links_kept_def simp del: last.simps hd_append2)
qed

lemma list_del_ok:
  assumes l: "dlist h head (ys @ e # zs)"
  obtains h' where "list_del e h = Some h'" "dlist h' head (ys @ zs)"
    "l_next h' e = Some LIST_POISON1" "l_prev h' e = Some LIST_POISON2"
    "links_kept h h' (set (e # head # ys @ zs))"
proof -
  obtain g where g: "list_del_between (last (head # ys)) (hd (zs @ [head])) h = Some g"
    "dlist g head (ys @ zs)" "links_kept h g (set (head # ys @ zs))"
    "l_next g e = l_next h e" "l_prev g e = l_prev h e"
    by (rule list_del_between_ok [OF l])
  let ?h = "g\<lparr>l_next := (l_next g)(e \<mapsto> LIST_POISON1), l_prev := (l_prev g)(e \<mapsto> LIST_POISON2)\<rparr>"
  have "list_del e h = Some ?h"
    using g dlist_mid [OF l]
    by (auto simp: list_del_def set_next_def set_prev_def simp del: last.simps hd_append2)
  moreover have k: "links_kept g ?h {e}" by (auto simp: links_kept_def is_node_def)
  moreover have "dlist ?h head (ys @ zs)"
    by (rule dlist_frame [OF g(2) k]) (use l in \<open>auto simp: dlist_def\<close>)
  moreover have "links_kept h ?h (set (e # head # ys @ zs))"
    by (rule links_kept_trans [OF g(3) k]) auto
  ultimately show thesis by (intro that [of ?h]) simp_all
qed

lemma list_del_init_ok:
  assumes l: "dlist h head (ys @ e # zs)"
  obtains h' where "list_del_init e h = Some h'" "dlist h' head (ys @ zs)" "dlist h' e []"
    "links_kept h h' (set (e # head # ys @ zs))"
proof -
  obtain g where g: "list_del_entry e h = Some g" "dlist g head (ys @ zs)" "is_node g e"
    "links_kept h g (set (head # ys @ zs))"
    by (rule list_del_entry_ok [OF l])
  obtain h' where h': "INIT_LIST_HEAD e g = Some h'" "dlist h' e []" "links_kept g h' {e}"
    by (rule INIT_LIST_HEAD_ok [OF g(3)])
  have "dlist h' head (ys @ zs)"
    by (rule dlist_frame [OF g(2) h'(3)]) (use l in \<open>auto simp: dlist_def\<close>)
  moreover have "links_kept h h' (set (e # head # ys @ zs))"
    by (rule links_kept_trans [OF g(4) h'(3)]) auto
  ultimately show thesis
    using g(1) h'(1,2) by (intro that [of h']) (simp_all add: list_del_init_def)
qed

lemma list_move_ok:
  assumes l: "dlist h head (ys @ e # zs)"
  obtains h' where "list_move e head h = Some h'" "dlist h' head (e # ys @ zs)"
    "links_kept h h' (set (e # head # ys @ zs))"
proof -
  obtain g where g: "list_del_entry e h = Some g" "dlist g head (ys @ zs)" "is_node g e"
    "links_kept h g (set (head # ys @ zs))"
    by (rule list_del_entry_ok [OF l])
  have e: "e \<notin> set (head # ys @ zs)" using l by (auto simp: dlist_def)
  obtain h' where h': "list_add e head g = Some h'" "dlist h' head (e # ys @ zs)"
    "links_kept g h' (set (e # head # ys @ zs))"
    by (rule list_add_ok [OF g(2,3) e])
  have "links_kept h h' (set (e # head # ys @ zs))"
    by (rule links_kept_trans [OF g(4) h'(3)]) auto
  with g(1) h' show thesis by (intro that [of h']) (simp_all add: list_move_def)
qed

lemma list_move_tail_ok:
  assumes l: "dlist h head (ys @ e # zs)"
  obtains h' where "list_move_tail e head h = Some h'" "dlist h' head (ys @ zs @ [e])"
    "links_kept h h' (set (e # head # ys @ zs))"
proof -
  obtain g where g: "list_del_entry e h = Some g" "dlist g head (ys @ zs)" "is_node g e"
    "links_kept h g (set (head # ys @ zs))"
    by (rule list_del_entry_ok [OF l])
  have e: "e \<notin> set (head # ys @ zs)" using l by (auto simp: dlist_def)
  obtain h' where h': "list_add_tail e head g = Some h'" "dlist h' head ((ys @ zs) @ [e])"
    "links_kept g h' (set (e # head # ys @ zs))"
    by (rule list_add_tail_ok [OF g(2,3) e])
  have "links_kept h h' (set (e # head # ys @ zs))"
    by (rule links_kept_trans [OF g(4) h'(3)]) auto
  with g(1) h' show thesis by (intro that [of h']) (simp_all add: list_move_tail_def)
qed

subsection \<open>Tests\<close>

lemma dlist_next_head: "dlist h head xs \<Longrightarrow> l_next h head = Some (hd (xs @ [head]))"
  using dlist_split(2) [of h head "[]" xs] by simp

lemma dlist_prev_head: "dlist h head xs \<Longrightarrow> l_prev h head = Some (last (head # xs))"
  using dlist_split(1) [of h head xs "[]"] by (simp del: last.simps)

lemma dlist_head_notin: "dlist h head xs \<Longrightarrow> head \<notin> set xs"
  by (simp add: dlist_def)

lemma list_empty_iff: "dlist h head xs \<Longrightarrow> list_empty head h = Some (xs = [])"
  by (cases xs) (auto simp: list_empty_def dlist_next_head dest: dlist_head_notin)

lemma list_empty_careful_iff: "dlist h head xs \<Longrightarrow> list_empty_careful head h = Some (xs = [])"
  by (cases xs) (auto simp: list_empty_careful_def dlist_next_head dlist_prev_head
      dest: dlist_head_notin)

lemma list_is_singular_iff: "dlist h head xs \<Longrightarrow> list_is_singular head h = Some (\<exists>x. xs = [x])"
proof (cases xs)
  case (Cons x ys)
  assume l: "dlist h head xs"
  then have d: "distinct (x # ys)" "head \<notin> set (x # ys)" by (simp_all add: dlist_def Cons)
  have "x = last (x # ys) \<longleftrightarrow> ys = []" using d by (cases ys rule: rev_cases) auto
  then show ?thesis
    using l Cons d
    by (simp add: list_is_singular_def list_empty_iff [OF l] dlist_next_head dlist_prev_head)
qed (simp add: list_is_singular_def list_empty_iff)

lemma list_is_last_iff:
  assumes "dlist h head (ys @ e # zs)"
  shows "list_is_last e head h = Some (zs = [])"
  using dlist_mid(2) [OF assms] dlist_head_notin [OF assms]
  by (cases zs) (auto simp: list_is_last_def)

lemma list_rotate_left_ok:
  assumes l: "dlist h head xs"
  obtains h' where "list_rotate_left head h = Some h'" "dlist h' head (rotate1 xs)"
proof (cases xs)
  case Nil
  with l that show thesis by (simp add: list_rotate_left_def list_empty_iff [OF l])
next
  case (Cons x ys)
  then have l': "dlist h head ([] @ x # ys)" using l by simp
  obtain h' where "list_move_tail x head h = Some h'" "dlist h' head ([] @ ys @ [x])"
    by (rule list_move_tail_ok [OF l'])
  with l Cons that show thesis
    by (simp add: list_rotate_left_def list_empty_iff [OF l] dlist_next_head)
qed

subsection \<open>Traversals\<close>

lemma list_visit_path:
  assumes "dpath h a xs head" "head \<notin> set xs"
  shows "list_visit (l_next h) (hd (xs @ [head])) head = Some xs"
  using assms
proof (induction xs arbitrary: a)
  case Nil
  then show ?case by (subst list_visit.simps) simp
next
  case (Cons x xs)
  then have "list_visit (l_next h) (hd (xs @ [head])) head = Some xs"
    "l_next h x = Some (hd (xs @ [head]))"
    using dpath_ends(1) [of h x xs head] by auto
  with Cons.prems show ?case by (subst list_visit.simps) auto
qed

lemma list_visit_path_rev:
  assumes "dpath h head xs b" "head \<notin> set xs"
  shows "list_visit (l_prev h) (last (head # xs)) head = Some (rev xs)"
  using assms
proof (induction xs arbitrary: b rule: rev_induct)
  case Nil
  then show ?case by (subst list_visit.simps) simp
next
  case (snoc x xs)
  then have p: "dpath h head xs x" by (simp add: dpath_append)
  with snoc have "list_visit (l_prev h) (last (head # xs)) head = Some (rev xs)"
    "l_prev h x = Some (last (head # xs))"
    using dpath_ends(2) [OF p] by auto
  moreover have "last (head # xs @ [x]) = x" by simp
  moreover have "x \<noteq> head" using snoc.prems(2) by auto
  ultimately show ?case
    by (subst list_visit.simps) (simp del: last.simps)
qed

lemma list_for_each_nodes: "dlist h head xs \<Longrightarrow> list_for_each head h = Some xs"
  using list_visit_path [of h head xs head]
  by (simp add: list_for_each_def dlist_next_head dlist_def)

lemma list_for_each_prev_nodes: "dlist h head xs \<Longrightarrow> list_for_each_prev head h = Some (rev xs)"
  using list_visit_path_rev [of h head xs head]
  by (simp add: list_for_each_prev_def dlist_prev_head dlist_def del: last.simps)

lemma list_for_each_entry_nodes:
  "dlist h head xs \<Longrightarrow> list_for_each_entry off head h = Some (map (list_entry off) xs)"
  using list_visit_path [of h head xs head] dlist_next_head [of h head xs]
  by (simp add: list_for_each_entry_def list_first_entry_def list_entry_def dlist_def)

text \<open>Deleting every visited node in a safe loop empties the list.\<close>

lemma list_loop_safe_del:
  assumes "dlist h head xs"
  shows "\<exists>h'. (case xs of [] \<Rightarrow> \<exists>n. list_loop_safe list_del head n head h = Some h'
      | x # ys \<Rightarrow> list_loop_safe list_del x (hd (ys @ [head])) head h = Some h') \<and> dlist h' head []"
  using assms
proof (induction xs arbitrary: h)
  case Nil
  then show ?case by (subst list_loop_safe.simps) auto
next
  case (Cons x ys)
  then have l: "dlist h head ([] @ x # ys)" and x: "x \<noteq> head" by (auto simp: dlist_def)
  obtain g where g: "list_del x h = Some g" "dlist g head ([] @ ys)"
    by (rule list_del_ok [OF l])
  then have g': "dlist g head ys" by simp
  note ih = Cons.IH [OF g']
  show ?case
  proof (cases ys)
    case Nil
    have "list_loop_safe list_del head n head g = Some g" for n by (subst list_loop_safe.simps) simp
    with Nil x g(1) g' show ?thesis
      by (subst list_loop_safe.simps) (auto simp: dlist_next_head)
  next
    case (Cons y zs)
    then have "dlist g head ([] @ y # zs)" using g' by simp
    from dlist_mid(2) [OF this] ih Cons x g(1) show ?thesis
      by (subst list_loop_safe.simps) auto
  qed
qed

lemma list_for_each_safe_del:
  assumes "dlist h head xs"
  obtains h' where "list_for_each_safe list_del head h = Some h'" "dlist h' head []"
proof (cases xs)
  case Nil
  then have "list_loop_safe list_del head n head h = Some h" for n
    by (subst list_loop_safe.simps) simp
  with Nil assms that [of h] show thesis by (simp add: list_for_each_safe_def dlist_next_head)
next
  case (Cons x ys)
  from list_loop_safe_del [OF assms] Cons obtain h' where
    "list_loop_safe list_del x (hd (ys @ [head])) head h = Some h'" "dlist h' head []" by auto
  moreover have "l_next h x = Some (hd (ys @ [head]))"
    using dlist_mid(2) [of h head "[]" x ys] assms Cons by simp
  ultimately show thesis
    using that [of h'] assms Cons by (simp add: list_for_each_safe_def dlist_next_head)
qed

subsection \<open>Replacing, splicing and cutting\<close>

lemma list_splice_between_ok:
  assumes l: "dlist h l (x # xs)" and head: "dlist h head (ys @ zs)"
    and d: "set (l # x # xs) \<inter> set (head # ys @ zs) = {}"
  obtains h' where "list_splice_between l (last (head # ys)) (hd (zs @ [head])) h = Some h'"
    "dlist h' head (ys @ x # xs @ zs)" "links_kept h h' (set (x # xs) \<union> set (head # ys @ zs))"
    "l_next h' l = l_next h l" "l_prev h' l = l_prev h l"
proof -
  let ?p = "last (head # ys)" and ?q = "hd (zs @ [head])" and ?e = "last (x # xs)"
  have fl: "l_next h l = Some x" "l_prev h l = Some ?e"
    using dlist_next_head [OF l] dlist_prev_head [OF l] by simp_all
  have in_h: "?p \<in> set (head # ys @ zs)" "?q \<in> set (head # ys @ zs)" "?e \<in> set (x # xs)"
    using last_Cons_in [of head ys] hd_snoc_in [of zs head] last_Cons_in [of x xs]
    by (auto simp del: last.simps hd_append2)
  let ?h = "h\<lparr>l_next := (l_next h)(?p \<mapsto> x, ?e \<mapsto> ?q), l_prev := (l_prev h)(x \<mapsto> ?p, ?q \<mapsto> ?e)\<rparr>"
  have dj: "a \<noteq> b" "b \<noteq> a" if "a \<in> set (x # xs)" "b \<in> set (head # ys @ zs)" for a b
    using that d by auto
  have xin: "x \<in> set (x # xs)" by simp
  note ne = dj(2) [OF in_h(3,1)] dj(1) [OF xin in_h(2)] dj(2) [OF xin in_h(1)] dj(1) [OF in_h(3,2)]
  have nodes: "is_node h ?p" "is_node h ?q" "is_node h ?e" "is_node h x"
    using dlist_node [OF head in_h(1)] dlist_node [OF head in_h(2)]
      dlist_node [OF l, of ?e] dlist_node [OF l, of x] in_h(3) by auto
  have eq: "list_splice_between l ?p ?q h = Some ?h"
    using fl nodes ne
    by (auto simp: list_splice_between_def set_next_def set_prev_def is_node_def
        simp del: last.simps hd_append2)
  have dh: "distinct (head # ys)" "distinct (x # xs)" "distinct (zs @ [head])"
    using l head by (auto simp: dlist_def)
  have out: "?q \<notin> set ys" "?p \<notin> set zs"
    using hd_snoc_in [of zs head] last_Cons_in [of head ys] head
    by (auto simp: dlist_def simp del: last.simps hd_append2)
  have 1: "dpath ?h head ys x"
  proof (rule dpath_new_end [OF _ dh(1)])
    show "dpath h head ys ?q" using head dpath_split(1) by (auto simp: dlist_def)
    show "l_next ?h y = l_next h y" if "y \<in> set (butlast (head # ys))" for y
      using in_butlast_not_last [OF dh(1) that] in_set_butlastD [OF that] in_h(3) d by auto
    show "l_prev ?h y = l_prev h y" if "y \<in> set ys" for y using that out(1) d by auto
  qed (use ne in \<open>simp_all del: last.simps hd_append2\<close>)
  have 2: "dpath ?h x xs ?q"
  proof (rule dpath_new_end [OF _ dh(2)])
    show "dpath h x xs l" using l by (simp add: dlist_def)
    show "l_next ?h y = l_next h y" if "y \<in> set (butlast (x # xs))" for y
      using in_butlast_not_last [OF dh(2) that] in_set_butlastD [OF that] in_h(1) d by auto
    show "l_prev ?h y = l_prev h y" if "y \<in> set xs" for y using that in_h(2) d dh(2) by auto
  qed (use ne in \<open>simp_all del: last.simps hd_append2\<close>)
  have 3: "dpath ?h z zs' head" if "zs = z # zs'" for z zs'
  proof -
    have "dpath ?h z zs' head = dpath h z zs' head"
    proof (rule dpath_cong)
      show "l_next ?h y = l_next h y" if "y \<in> set (z # zs')" for y
        using that \<open>zs = z # zs'\<close> out(2) in_h(3) d by (auto simp del: last.simps)
      show "l_prev ?h y = l_prev h y" if "y \<in> set (zs' @ [head])" for y
        using that \<open>zs = z # zs'\<close> dh(3) d by auto
    qed
    with head that show ?thesis by (simp add: dlist_def dpath_append)
  qed
  have "dpath ?h head (ys @ x # xs @ zs) head"
    using 1 2 3 by (cases zs) (simp_all add: dpath_append)
  then have "dlist ?h head (ys @ x # xs @ zs)"
    using l head d by (auto simp: dlist_def)
  moreover have "links_kept h ?h (set (x # xs) \<union> set (head # ys @ zs))"
    using in_h unfolding links_kept_def is_node_def by (auto simp del: last.simps hd_append2)
  moreover have "l_next ?h l = l_next h l" "l_prev ?h l = l_prev h l"
    using in_h l d by (auto simp: dlist_def simp del: last.simps hd_append2)
  ultimately show thesis using eq by (intro that [of ?h])
qed

lemma list_splice_tail_init_ok:
  assumes l: "dlist h l xs" and head: "dlist h head ys"
    and d: "set (l # xs) \<inter> set (head # ys) = {}"
  obtains h' where "list_splice_tail_init l head h = Some h'" "dlist h' head (ys @ xs)" "dlist h' l []"
proof (cases xs)
  case Nil
  with l head that show thesis by (simp add: list_splice_tail_init_def list_empty_iff)
next
  case (Cons x zs)
  have l': "dlist h l (x # zs)" "dlist h head (ys @ [])"
    "set (l # x # zs) \<inter> set (head # ys @ []) = {}" using l head d Cons by simp_all
  obtain g where g: "list_splice_between l (last (head # ys)) (hd ([] @ [head])) h = Some g"
    "dlist g head (ys @ x # zs @ [])" "links_kept h g (set (x # zs) \<union> set (head # ys @ []))"
    "l_next g l = l_next h l" "l_prev g l = l_prev h l"
    by (rule list_splice_between_ok [OF l'])
  have "is_node g l" using links_kept_node [OF g(3)] dlist_node [OF l, of l] by simp
  then obtain h' where h': "INIT_LIST_HEAD l g = Some h'" "dlist h' l []" "links_kept g h' {l}"
    by (rule INIT_LIST_HEAD_ok)
  have "dlist h' head (ys @ x # zs @ [])"
    by (rule dlist_frame [OF g(2) h'(3)]) (use l d Cons in \<open>auto simp: dlist_def\<close>)
  with g(1) h' l head Cons that [of h'] show thesis
    by (simp add: list_splice_tail_init_def list_empty_iff [OF l] dlist_prev_head [OF head]
        del: last.simps)
qed

lemma list_splice_ok:
  assumes l: "dlist h l xs" and head: "dlist h head ys"
    and d: "set (l # xs) \<inter> set (head # ys) = {}"
  obtains h' where "list_splice l head h = Some h'" "dlist h' head (xs @ ys)"
proof (cases xs)
  case Nil
  with l head that show thesis by (simp add: list_splice_def list_empty_iff)
next
  case (Cons x zs)
  have l': "dlist h l (x # zs)" "dlist h head ([] @ ys)"
    "set (l # x # zs) \<inter> set (head # [] @ ys) = {}" using l head d Cons by simp_all
  obtain g where "list_splice_between l (last (head # [])) (hd (ys @ [head])) h = Some g"
    "dlist g head ([] @ x # zs @ ys)"
    by (rule list_splice_between_ok [OF l'])
  with l head Cons that [of g] show thesis
    by (simp add: list_splice_def list_empty_iff [OF l] dlist_next_head [OF head])
qed

lemma list_replace_ok:
  assumes l: "dlist h head (ys @ old # zs)" and new: "is_node h new" "new \<notin> set (head # ys @ old # zs)"
  obtains h' where "list_replace old new h = Some h'" "dlist h' head (ys @ new # zs)"
    "l_next h' old = l_next h old" "l_prev h' old = l_prev h old"
    "links_kept h h' (set (new # head # ys @ zs))"
proof -
  let ?p = "last (head # ys)" and ?q = "hd (zs @ [head])"
  have in_list: "?p \<in> set (head # ys @ zs)" "?q \<in> set (head # ys @ zs)"
    using last_Cons_in [of head ys] hd_snoc_in [of zs head] by (auto simp del: last.simps hd_append2)
  have out: "old \<notin> set (head # ys @ zs)" "new \<notin> set (head # ys @ zs)" "new \<noteq> old"
    using l new(2) by (auto simp: dlist_def)
  have ne: "?p \<noteq> new" "?q \<noteq> new" "?p \<noteq> old" "?q \<noteq> old" "new \<noteq> old"
    using in_list out by blast+
  obtain g where g: "list_del_between ?p ?q h = Some g" "dlist g head (ys @ zs)"
    "links_kept h g (set (head # ys @ zs))" "l_next g old = l_next h old" "l_prev g old = l_prev h old"
    by (rule list_del_between_ok [OF l])
  have g_eq: "g = h\<lparr>l_next := (l_next h)(?p \<mapsto> ?q), l_prev := (l_prev h)(?q \<mapsto> ?p)\<rparr>"
    using g(1) by (auto simp: list_del_between_def set_next_def set_prev_def
        simp del: last.simps hd_append2 split: option.splits)
  have ng: "is_node g new" "new \<notin> set (head # ys @ zs)"
    using links_kept_node [OF g(3) new(1)] new(2) by auto
  obtain h' where h': "list_add_between new ?p ?q g = Some h'" "dlist h' head (ys @ new # zs)"
    "links_kept g h' (set (new # head # ys @ zs))"
    by (rule list_add_between_ok [OF g(2) ng])
  have h'_eq: "h' = h\<lparr>l_next := (l_next h)(new \<mapsto> ?q, ?p \<mapsto> new), l_prev := (l_prev h)(?q \<mapsto> new, new \<mapsto> ?p)\<rparr>"
    using h'(1) ne ng(1) by (auto simp: g_eq list_add_between_def set_next_def set_prev_def is_node_def
        simp del: last.simps hd_append2 split: option.splits if_splits intro!: ext)
  have "is_node h ?p" "is_node h ?q"
    using dlist_node [OF l, of ?p] dlist_node [OF l, of ?q] in_list by auto
  then have "list_replace old new h = Some h'"
    using dlist_mid [OF l] ne new(1)
    by (auto simp: list_replace_def h'_eq set_next_def set_prev_def is_node_def fun_upd_twist
        simp del: last.simps hd_append2)
  moreover have "l_next h' old = l_next h old" "l_prev h' old = l_prev h old"
    using ne by (auto simp: h'_eq simp del: last.simps hd_append2)
  moreover have "links_kept h h' (set (new # head # ys @ zs))"
    by (rule links_kept_trans [OF g(3) h'(3)]) auto
  ultimately show thesis using that h'(2) by blast
qed

lemma list_cut_at_ok:
  assumes xs: "dlist h head ((f # ws) @ zs)" and e: "e = last (f # ws)"
    and l: "is_node h l" "l \<notin> set (head # (f # ws) @ zs)"
  obtains h' where "list_cut_at l head e h = Some h'" "dlist h' l (f # ws)" "dlist h' head zs"
proof -
  let ?q = "hd (zs @ [head])"
  have path: "dpath h head ((f # ws) @ zs) head" and d: "distinct (head # (f # ws) @ zs)"
    using xs by (simp_all add: dlist_def)
  have ein: "e \<in> set (f # ws)" using last_Cons_in [of f ws] by (simp add: e)
  have qin: "?q \<in> set (head # zs)" using hd_snoc_in [of zs head] by auto
  have en: "l_next h e = Some ?q" using dpath_split(3) [OF path] by (simp add: e)
  have ne: "l \<noteq> e" "l \<noteq> head" "l \<noteq> f" "l \<noteq> ?q" "e \<noteq> head" "f \<noteq> ?q"
    using ein qin l(2) d by auto
  have nodes: "is_node h f" "is_node h head" "is_node h ?q" "is_node h e" "l_next h head = Some f"
    using dlist_node [OF xs] ein qin dlist_next_head [OF xs] by auto
  define h' where "h' = h\<lparr>l_next := (l_next h)(l \<mapsto> f, e \<mapsto> l, head \<mapsto> ?q),
      l_prev := (l_prev h)(f \<mapsto> l, l \<mapsto> e, ?q \<mapsto> head)\<rparr>"
  have eq: "list_cut_at l head e h = Some h'"
    using ne nodes en l(1)
    by (auto simp: list_cut_at_def h'_def set_next_def set_prev_def is_node_def simp del: hd_append2)
  have "dpath h' f ws l"
  proof (rule dpath_new_end)
    show "dpath h f ws ?q" using dpath_split(1) [OF path] by simp
    show dw: "distinct (f # ws)" using d by auto
    show "l_next h' y = l_next h y" if "y \<in> set (butlast (f # ws))" for y
      using in_butlast_not_last [OF dw that] in_set_butlastD [OF that] l(2) d by (auto simp: h'_def e)
    show "l_prev h' y = l_prev h y" if "y \<in> set ws" for y
      using that qin l(2) d by (auto simp: h'_def simp del: hd_append2)
  qed (use ne e in \<open>auto simp: h'_def simp del: last.simps hd_append2\<close>)
  then have "dlist h' l (f # ws)"
    using ne d l(2) by (auto simp: dlist_def h'_def simp del: hd_append2)
  moreover have "dpath h' head zs head"
  proof (rule dpath_new_start)
    show "dpath h e zs head"
      using dpath_rest [OF path] by (simp add: e)
    show "l_next h' y = l_next h y" if "y \<in> set zs" for y
      using that ein l(2) d by (auto simp: h'_def)
    have dz: "distinct (zs @ [head])" using d by auto
    show "l_prev h' y = l_prev h y" if "y \<in> set (tl (zs @ [head]))" for y
      using in_tl_not_hd [OF dz that] in_tl [OF that] l(2) d by (auto simp: h'_def simp del: hd_append2)
  qed (use ne in \<open>auto simp: h'_def simp del: hd_append2\<close>)
  then have "dlist h' head zs" using d by (simp add: dlist_def)
  ultimately show thesis using eq that by blast
qed

lemma list_cut_position_ok:
  assumes xs: "dlist h head (xs @ zs)" and xs': "xs \<noteq> []"
    and l: "is_node h l" "l \<notin> set (head # xs @ zs)"
  obtains h' where "list_cut_position l head (last xs) h = Some h'" "dlist h' l xs" "dlist h' head zs"
proof -
  obtain f ws where fw: "xs = f # ws" using xs' by (cases xs) auto
  have xs2: "dlist h head ((f # ws) @ zs)" "last xs = last (f # ws)" "l \<notin> set (head # (f # ws) @ zs)"
    using xs l(2) fw by simp_all
  obtain h' where h': "list_cut_at l head (last xs) h = Some h'" "dlist h' l (f # ws)" "dlist h' head zs"
    by (rule list_cut_at_ok [OF xs2(1,2) l(1) xs2(3)])
  have "last xs \<noteq> head" using last_in_set [OF xs'] dlist_head_notin [OF xs] by auto
  moreover have "last xs = f" if "\<exists>x. xs @ zs = [x]" using that fw by auto
  ultimately have "list_cut_position l head (last xs) h = list_cut_at l head (last xs) h"
    using fw by (auto simp: list_cut_position_def list_empty_iff [OF xs] list_is_singular_iff [OF xs]
        dlist_next_head [OF xs] simp del: last.simps)
  with h' fw that show thesis by simp
qed

text \<open>A loop over entries runs its body on the entries in order until it returns.\<close>

fun run_entries :: "(addr \<Rightarrow> 's \<Rightarrow> ('r + 's) option) \<Rightarrow> addr list \<Rightarrow> 's \<Rightarrow> ('r + 's) option" where
  "run_entries body [] s = Some (Inr s)"
| "run_entries body (p # ps) s =
     do { r \<leftarrow> body p s; case r of Inl v \<Rightarrow> Some (Inl v) | Inr s \<Rightarrow> run_entries body ps s }"

text \<open>A loop that searches.\<close>

lemma run_entries_find:
  assumes "\<forall>p \<in> set ps. body p u = Some (if Q p then Inl p else Inr u)"
  shows "run_entries body ps u = Some (case find Q ps of None \<Rightarrow> Inr u | Some p \<Rightarrow> Inl p)"
  using assms by (induction ps) auto

lemma list_entry_loop_path:
  assumes "dpath h a xs head" "head \<notin> set xs"
  shows "do { pos \<leftarrow> l_next h a; list_entry_loop body off (list_entry off pos) head h s } =
    run_entries body (map (list_entry off) xs) s"
  using assms
proof (induction xs arbitrary: a s)
  case Nil
  then show ?case by (simp add: list_entry_loop.simps list_entry_def)
next
  case (Cons x xs)
  have "list_entry_loop body off (list_entry off x) head h s =
    do { r \<leftarrow> body (list_entry off x) s;
         case r of Inl v \<Rightarrow> Some (Inl v)
         | Inr s \<Rightarrow> do { pos \<leftarrow> l_next h x; list_entry_loop body off (list_entry off pos) head h s } }"
    using Cons.prems by (subst list_entry_loop.simps)
      (auto simp: list_entry_def list_next_entry_def cong: sum.case_cong)
  moreover have "do { pos \<leftarrow> l_next h x; list_entry_loop body off (list_entry off pos) head h s } =
      run_entries body (map (list_entry off) xs) s" for s
    using Cons.prems by (intro Cons.IH) auto
  ultimately show ?case using Cons.prems
    by (auto simp: bind_eq_None_conv intro!: bind_option_cong split: sum.splits)
qed

lemma list_for_each_entry_do_nodes:
  assumes "dlist h head xs"
  shows "list_for_each_entry_do body off head h s = run_entries body (map (list_entry off) xs) s"
  using list_entry_loop_path [of h head xs head body off s] assms
  by (simp add: dlist_def list_for_each_entry_do_def list_first_entry_def)

section \<open>What the users of a list rely on\<close>

locale node_list =
  fixes lst :: "'h \<Rightarrow> addr \<Rightarrow> addr list \<Rightarrow> bool" and node :: "'h \<Rightarrow> addr \<Rightarrow> bool"
    and kept :: "'h \<Rightarrow> 'h \<Rightarrow> addr set \<Rightarrow> bool"
    and add :: "addr \<Rightarrow> addr \<Rightarrow> 'h \<Rightarrow> 'h option" and del :: "addr \<Rightarrow> 'h \<Rightarrow> 'h option"
    and entries :: "addr \<Rightarrow> addr \<Rightarrow> 'h \<Rightarrow> addr list option"
  assumes lst_distinct: "lst h head xs \<Longrightarrow> distinct (head # xs)"
    and lst_frame: "lst h head xs \<Longrightarrow> kept h h' A \<Longrightarrow> A \<inter> set (head # xs) = {} \<Longrightarrow> lst h' head xs"
    and add_result: "lst h head xs \<Longrightarrow> node h new \<Longrightarrow> new \<notin> set (head # xs) \<Longrightarrow>
      \<exists>h'. add new head h = Some h' \<and> lst h' head (new # xs) \<and> kept h h' (set (new # head # xs))"
    and del_result: "lst h head (ys @ e # zs) \<Longrightarrow>
      \<exists>h'. del e h = Some h' \<and> lst h' head (ys @ zs) \<and> kept h h' (set (e # head # ys @ zs))"
    and entries_result: "lst h head xs \<Longrightarrow> entries off head h = Some (map (list_entry off) xs)"
begin

text \<open>A second list is untouched by an addition to, or a removal from, a disjoint one.\<close>

lemma add_other:
  assumes "lst h head xs" "node h new" "new \<notin> set (head # xs)"
    and "lst h head' ys" "set (new # head # xs) \<inter> set (head' # ys) = {}"
  shows "\<exists>h'. add new head h = Some h' \<and> lst h' head (new # xs) \<and> lst h' head' ys"
  using add_result [OF assms(1-3)] lst_frame [OF assms(4) _ assms(5)] by blast

lemma entries_after_add:
  assumes "lst h head xs" "node h new" "new \<notin> set (head # xs)"
  shows "\<exists>h'. add new head h = Some h' \<and> lst h' head (new # xs) \<and>
    entries off head h' = Some (list_entry off new # map (list_entry off) xs)"
  using add_result [OF assms] entries_result by fastforce

lemma entries_after_del:
  assumes "lst h head xs" "e \<in> set xs"
  shows "\<exists>h'. del e h = Some h' \<and> lst h' head (remove1 e xs) \<and>
    entries off head h' = Some (map (list_entry off) (remove1 e xs))"
proof -
  obtain ys zs where xs: "xs = ys @ e # zs" using assms(2) by (meson split_list)
  moreover have "e \<notin> set ys" using lst_distinct [OF assms(1)] xs by auto
  ultimately have "remove1 e xs = ys @ zs" by (simp add: remove1_append)
  with del_result [of h head ys e zs] assms(1) xs entries_result show ?thesis by fastforce
qed

end

interpretation ll: node_list dlist is_node links_kept list_add list_del list_for_each_entry
proof
  show "distinct (head # xs)" if "dlist h head xs" for h head xs
    using that by (simp add: dlist_def)
  show "dlist h' head xs" if "dlist h head xs" "links_kept h h' A" "A \<inter> set (head # xs) = {}"
    for h head xs h' A using that by (rule dlist_frame)
  show "\<exists>h'. list_add new head h = Some h' \<and> dlist h' head (new # xs) \<and>
      links_kept h h' (set (new # head # xs))"
    if "dlist h head xs" "is_node h new" "new \<notin> set (head # xs)" for h head xs new
    using that by (rule list_add_ok) blast
  show "\<exists>h'. list_del e h = Some h' \<and> dlist h' head (ys @ zs) \<and>
      links_kept h h' (set (e # head # ys @ zs))"
    if "dlist h head (ys @ e # zs)" for h head ys e zs
    using that by (rule list_del_ok) blast
  show "list_for_each_entry off head h = Some (map (list_entry off) xs)"
    if "dlist h head xs" for h head xs off using that by (rule list_for_each_entry_nodes)
qed

section \<open>Properties\<close>

definition sample_list :: lheap where
  "sample_list =
     \<lparr>l_next = [0x10 \<mapsto> 0x20, 0x20 \<mapsto> 0x30, 0x30 \<mapsto> 0x10, 0x40 \<mapsto> 0, 0x50 \<mapsto> 0x60, 0x60 \<mapsto> 0x50],
      l_prev = [0x10 \<mapsto> 0x30, 0x20 \<mapsto> 0x10, 0x30 \<mapsto> 0x20, 0x40 \<mapsto> 0, 0x50 \<mapsto> 0x60, 0x60 \<mapsto> 0x50]\<rparr>"

lemma sample_list_facts:
  "dlist sample_list 0x10 [0x20, 0x30]" "dlist sample_list 0x50 [0x60]" "is_node sample_list 0x40"
  by (simp_all add: sample_list_def dlist_def is_node_def)

text \<open>
  C18. Adding a node to a list puts it first: a traversal visits it and then the old nodes, the
  backward traversal visits them in the opposite order, and deleting the node again gives
  back the list as it was, with the node's links poisoned.
\<close>

theorem list_add_del_roundtrip:
  assumes "dlist h head xs" "is_node h new" "new \<notin> set (head # xs)"
  shows "\<exists>h' h''. list_add new head h = Some h' \<and>
    list_for_each head h' = Some (new # xs) \<and> list_for_each_prev head h' = Some (rev (new # xs)) \<and>
    list_del new h' = Some h'' \<and> dlist h'' head xs \<and> list_for_each head h'' = Some xs \<and>
    l_next h'' new = Some LIST_POISON1 \<and> l_prev h'' new = Some LIST_POISON2"
proof -
  obtain h' where h': "list_add new head h = Some h'" "dlist h' head (new # xs)"
    by (rule list_add_ok [OF assms])
  have l: "dlist h' head ([] @ new # xs)" using h'(2) by simp
  obtain h'' where "list_del new h' = Some h''" "dlist h'' head ([] @ xs)"
    "l_next h'' new = Some LIST_POISON1" "l_prev h'' new = Some LIST_POISON2"
    by (rule list_del_ok [OF l])
  with h' show ?thesis
    using list_for_each_nodes list_for_each_prev_nodes by fastforce
qed

theorem list_add_del_roundtrip_witness:
  "\<exists>h'. list_add 0x40 0x10 sample_list = Some h' \<and>
    list_for_each 0x10 h' = Some [0x40, 0x20, 0x30]"
  using list_add_del_roundtrip [OF sample_list_facts(1,3)] by auto

text \<open>
  A traversal that is safe against removal terminates and removes all: deleting every visited
  node in \<open>list_for_each_safe\<close> returns with the empty list.
\<close>

theorem list_for_each_safe_clears:
  assumes "dlist h head xs"
  shows "\<exists>h'. list_for_each_safe list_del head h = Some h' \<and> dlist h' head [] \<and>
    list_empty head h' = Some True"
proof -
  obtain h' where "list_for_each_safe list_del head h = Some h'" "dlist h' head []"
    by (rule list_for_each_safe_del [OF assms])
  then show ?thesis by (auto simp: list_empty_iff)
qed

theorem list_for_each_safe_clears_witness:
  "\<exists>h'. list_for_each_safe list_del 0x10 sample_list = Some h' \<and> list_empty 0x10 h' = Some True"
  using list_for_each_safe_clears [OF sample_list_facts(1)] by auto

text \<open>
  Splitting and joining: cutting the front \<open>xs\<close> of a list off to another head leaves the two
  parts as two lists, and splicing the first part back in front gives the original list.
\<close>

theorem list_cut_splice_roundtrip:
  assumes "dlist h head (xs @ zs)" "xs \<noteq> []" "is_node h l" "l \<notin> set (head # xs @ zs)"
  shows "\<exists>h' h''. list_cut_position l head (last xs) h = Some h' \<and> dlist h' l xs \<and> dlist h' head zs \<and>
    list_splice l head h' = Some h'' \<and> dlist h'' head (xs @ zs)"
proof -
  obtain h' where h': "list_cut_position l head (last xs) h = Some h'" "dlist h' l xs" "dlist h' head zs"
    by (rule list_cut_position_ok [OF assms])
  have d: "set (l # xs) \<inter> set (head # zs) = {}" using assms(1,4) by (auto simp: dlist_def)
  obtain h'' where "list_splice l head h' = Some h''" "dlist h'' head (xs @ zs)"
    by (rule list_splice_ok [OF h'(2,3) d])
  with h' show ?thesis by blast
qed

theorem list_cut_splice_roundtrip_witness:
  "\<exists>h' h''. list_cut_position 0x40 0x10 0x20 sample_list = Some h' \<and> dlist h' 0x40 [0x20] \<and>
    dlist h' 0x10 [0x30] \<and> list_splice 0x40 0x10 h' = Some h'' \<and> dlist h'' 0x10 [0x20, 0x30]"
  using list_cut_splice_roundtrip [of sample_list "0x10" "[0x20]" "[0x30]" "0x40"] sample_list_facts
  by simp

end
