(* ===== verification/List_Safe.thy ===== *)
theory List_Safe
  imports Linked_List
begin

text \<open>
  The traversals of \<open>list.h\<close> whose body may take the visited entry off the list: the
  \<open>_safe\<close> variants, which fetch the following entry before the body runs, forwards and
  backwards, from the first entry or from a given one, with the macros that prepare and
  repair a position. A traversal that removes the entries of a predicate always ends, reaches
  every entry once, and leaves the others in their order.
\<close>

section \<open>Definitions\<close>

text \<open>The safe loops differ in the link they follow, which is the first argument. The node
  loop follows \<open>next\<close> or \<open>prev\<close> of a node, the entry loop that of the node embedded at
  offset \<open>off\<close>.\<close>

type_synonym list_body = "addr \<Rightarrow> lheap \<Rightarrow> lheap option"

partial_function (option) node_loop_safe ::
  "(lheap \<Rightarrow> addr \<rightharpoonup> addr) \<Rightarrow> list_body \<Rightarrow> addr \<Rightarrow> addr \<Rightarrow> addr \<Rightarrow> lheap \<Rightarrow> lheap option" where
  "node_loop_safe link body pos n head h =
     (if pos = head then Some h
      else do { h \<leftarrow> body pos h; n' \<leftarrow> link h n; node_loop_safe link body n n' head h })"

definition list_for_each_prev_safe :: "list_body \<Rightarrow> addr \<Rightarrow> lheap \<Rightarrow> lheap option" where
  "list_for_each_prev_safe body head h =
     do { pos \<leftarrow> l_prev h head; n \<leftarrow> l_prev h pos; node_loop_safe l_prev body pos n head h }"

partial_function (option) entry_loop_safe ::
  "(addr \<Rightarrow> lheap \<Rightarrow> addr option) \<Rightarrow> list_body \<Rightarrow> addr \<Rightarrow> addr \<Rightarrow> addr \<Rightarrow> addr \<Rightarrow> lheap \<Rightarrow> lheap option" where
  "entry_loop_safe step body off pos n head h =
     (if pos + off = head then Some h
      else do { h \<leftarrow> body pos h; n' \<leftarrow> step n h; entry_loop_safe step body off n n' head h })"

definition list_for_each_entry_safe :: "list_body \<Rightarrow> addr \<Rightarrow> addr \<Rightarrow> lheap \<Rightarrow> lheap option" where
  "list_for_each_entry_safe body off head h =
     do { pos \<leftarrow> list_first_entry off head h;
          n \<leftarrow> list_next_entry off pos h;
          entry_loop_safe (list_next_entry off) body off pos n head h }"

definition list_for_each_entry_safe_continue ::
  "list_body \<Rightarrow> addr \<Rightarrow> addr \<Rightarrow> addr \<Rightarrow> lheap \<Rightarrow> lheap option" where
  "list_for_each_entry_safe_continue body off pos head h =
     do { pos \<leftarrow> list_next_entry off pos h;
          n \<leftarrow> list_next_entry off pos h;
          entry_loop_safe (list_next_entry off) body off pos n head h }"

definition list_for_each_entry_safe_from ::
  "list_body \<Rightarrow> addr \<Rightarrow> addr \<Rightarrow> addr \<Rightarrow> lheap \<Rightarrow> lheap option" where
  "list_for_each_entry_safe_from body off pos head h =
     do { n \<leftarrow> list_next_entry off pos h;
          entry_loop_safe (list_next_entry off) body off pos n head h }"

definition list_for_each_entry_safe_reverse :: "list_body \<Rightarrow> addr \<Rightarrow> addr \<Rightarrow> lheap \<Rightarrow> lheap option" where
  "list_for_each_entry_safe_reverse body off head h =
     do { pos \<leftarrow> list_last_entry off head h;
          n \<leftarrow> list_prev_entry off pos h;
          entry_loop_safe (list_prev_entry off) body off pos n head h }"

definition list_safe_reset_next :: "addr \<Rightarrow> addr \<Rightarrow> lheap \<Rightarrow> addr option" where
  "list_safe_reset_next off pos h = list_next_entry off pos h"

definition list_prepare_entry :: "addr \<Rightarrow> addr \<Rightarrow> addr \<Rightarrow> addr" where
  "list_prepare_entry off pos head = (if pos \<noteq> 0 then pos else list_entry off head)"

definition list_for_each_entry_continue_reverse ::
  "addr \<Rightarrow> addr \<Rightarrow> addr \<Rightarrow> lheap \<Rightarrow> addr list option" where
  "list_for_each_entry_continue_reverse off pos head h =
     do { pos \<leftarrow> list_prev_entry off pos h;
          xs \<leftarrow> list_visit (l_prev h) (pos + off) head;
          Some (map (list_entry off) xs) }"

definition LIST_HEAD :: "addr \<Rightarrow> lheap \<Rightarrow> lheap" where
  "LIST_HEAD name h = h\<lparr> l_next := (l_next h)(name \<mapsto> name), l_prev := (l_prev h)(name \<mapsto> name) \<rparr>"

text \<open>The body of a traversal that removes the entries of a predicate.\<close>

definition del_if :: "(addr \<Rightarrow> bool) \<Rightarrow> addr \<Rightarrow> list_body" where
  "del_if P off pos h = (if P pos then list_del (pos + off) h else Some h)"

section \<open>Lemmas\<close>

lemma LIST_HEAD_empty: "dlist (LIST_HEAD name h) name []"
  by (simp add: LIST_HEAD_def dlist_def)

lemma entry_pos [simp]: "list_entry off p + off = p" "list_entry off p = list_entry off q \<longleftrightarrow> p = q"
  by (simp_all add: list_entry_def)

lemma entry_loop_end [simp]:
  "entry_loop_safe step body off (list_entry off head) n head h = Some h"
  by (subst entry_loop_safe.simps) simp

text \<open>One visit to a node in the middle of the list.\<close>

lemma del_if_visit:
  assumes "dlist h head (ys @ x # zs)"
  obtains h' where "del_if P off (list_entry off x) h = Some h'"
    "dlist h' head (ys @ filter (\<lambda>x. \<not> P (list_entry off x)) [x] @ zs)"
proof (cases "P (list_entry off x)")
  case True
  from list_del_ok [OF assms] obtain g where "list_del x h = Some g" "dlist g head (ys @ zs)" .
  with True show thesis by (intro that [of g]) (simp_all add: del_if_def)
next
  case False
  with assms show thesis by (intro that [of h]) (simp_all add: del_if_def)
qed

lemma dlist_next_at:
  assumes "dlist h head (ys @ zs)"
  obtains p where "l_next h (hd (zs @ [head])) = Some p" "zs \<noteq> [] \<Longrightarrow> p = hd (tl zs @ [head])"
proof (cases zs)
  case Nil
  with assms show thesis by (intro that [of "hd (ys @ [head])"]) (simp_all add: dlist_next_head)
next
  case (Cons z zs')
  with dlist_mid(2) [of h head ys z zs'] assms show thesis by (intro that) simp_all
qed

lemma dlist_prev_at:
  assumes "dlist h head (ys @ zs)"
  obtains p where "l_prev h (last (head # ys)) = Some p" "ys \<noteq> [] \<Longrightarrow> p = last (head # butlast ys)"
proof (cases ys rule: rev_cases)
  case Nil
  then show thesis using that dlist_prev_head [OF assms] by simp
next
  case (snoc ys' y)
  with dlist_mid(1) [of h head ys' y zs] assms show thesis
    by (intro that [of "last (head # ys')"]) simp_all
qed

text \<open>The loop forwards: the entries before the position are done, the loop filters the
  others.\<close>

lemma entry_loop_filters:
  assumes "dlist h head (ys @ zs)" "zs \<noteq> [] \<Longrightarrow> n = list_entry off (hd (tl zs @ [head]))"
  shows "\<exists>h'. entry_loop_safe (list_next_entry off) (del_if P off) off
      (list_entry off (hd (zs @ [head]))) n head h = Some h' \<and>
    dlist h' head (ys @ filter (\<lambda>x. \<not> P (list_entry off x)) zs)"
  using assms
proof (induction zs arbitrary: ys h n)
  case Nil
  then show ?case by simp
next
  case (Cons x zs)
  let ?keep = "filter (\<lambda>x. \<not> P (list_entry off x))"
  obtain g where g: "del_if P off (list_entry off x) h = Some g" "dlist g head (ys @ ?keep [x] @ zs)"
    using Cons.prems(1) by (rule del_if_visit)
  from g(2) have l: "dlist g head ((ys @ ?keep [x]) @ zs)" by simp
  obtain p where p: "l_next g (hd (zs @ [head])) = Some p" "zs \<noteq> [] \<Longrightarrow> p = hd (tl zs @ [head])"
    using dlist_next_at [OF l] by blast
  have "x \<noteq> head" using dlist_head_notin [OF Cons.prems(1)] by auto
  moreover have "\<exists>h'. entry_loop_safe (list_next_entry off) (del_if P off) off
      (list_entry off (hd (zs @ [head]))) (list_entry off p) head g = Some h' \<and>
      dlist h' head ((ys @ ?keep [x]) @ ?keep zs)"
    by (rule Cons.IH [OF l]) (simp add: p(2))
  moreover have "n = list_entry off (hd (zs @ [head]))" using Cons.prems(2) by simp
  ultimately show ?case
    using g(1) p(1) by (subst entry_loop_safe.simps) (auto simp: list_next_entry_def)
qed

text \<open>The loop backwards.\<close>

lemma entry_loop_filters_rev:
  assumes "dlist h head (ys @ zs)" "ys \<noteq> [] \<Longrightarrow> n = list_entry off (last (head # butlast ys))"
  shows "\<exists>h'. entry_loop_safe (list_prev_entry off) (del_if P off) off
      (list_entry off (last (head # ys))) n head h = Some h' \<and>
    dlist h' head (filter (\<lambda>x. \<not> P (list_entry off x)) ys @ zs)"
  using assms
proof (induction ys arbitrary: zs h n rule: rev_induct)
  case Nil
  then show ?case by simp
next
  case (snoc x ys)
  let ?keep = "filter (\<lambda>x. \<not> P (list_entry off x))"
  have at: "dlist h head (ys @ x # zs)" using snoc.prems(1) by simp
  obtain g where g: "del_if P off (list_entry off x) h = Some g" "dlist g head (ys @ ?keep [x] @ zs)"
    using at by (rule del_if_visit)
  obtain p where p: "l_prev g (last (head # ys)) = Some p" "ys \<noteq> [] \<Longrightarrow> p = last (head # butlast ys)"
    using dlist_prev_at [OF g(2)] by blast
  have lx: "last (head # ys @ [x]) = x" by simp
  have "x \<noteq> head" using dlist_head_notin [OF at] by auto
  moreover have "\<exists>h'. entry_loop_safe (list_prev_entry off) (del_if P off) off
      (list_entry off (last (head # ys))) (list_entry off p) head g = Some h' \<and>
      dlist h' head (?keep ys @ ?keep [x] @ zs)"
    by (rule snoc.IH [OF g(2)]) (use p(2) in blast)
  moreover have "n = list_entry off (last (head # ys))" using snoc.prems(2) by (simp del: last.simps)
  ultimately show ?case
    using g(1) p(1) by (subst entry_loop_safe.simps) (auto simp: list_prev_entry_def lx simp del: last.simps)
qed

text \<open>The loop over the nodes is the loop over the entries at offset zero.\<close>

lemma list_prev_entry_0: "list_prev_entry 0 = (\<lambda>pos h. l_prev h pos)"
  by (simp add: list_prev_entry_def list_entry_def fun_eq_iff)

lemma entry_loop_node_loop:
  assumes "entry_loop_safe (\<lambda>pos h. link h pos) body 0 pos n head h = Some r"
  shows "node_loop_safe link body pos n head h = Some r"
proof -
  define P where "P = (\<lambda>step body off pos n head h r. off = (0 :: addr) \<longrightarrow> step = (\<lambda>pos h. link h pos) \<longrightarrow>
    node_loop_safe link body pos n head h = Some r)"
  have "P (\<lambda>pos h. link h pos) body 0 pos n head h r"
  proof (rule entry_loop_safe.raw_induct [where P = P, OF _ assms])
    fix loop step body off pos n head h r
    assume IH: "\<And>step body off pos n head h r. loop step body off pos n head h = Some r \<Longrightarrow>
        P step body off pos n head h r"
      and r: "(if pos + off = head then Some h
        else do { h \<leftarrow> body pos h; n' \<leftarrow> step n h; loop step body off n n' head h }) = Some r"
    show "P step body off pos n head h r"
      unfolding P_def
    proof (intro impI)
      assume 0: "off = 0" and step: "step = (\<lambda>pos h. link h pos)"
      show "node_loop_safe link body pos n head h = Some r"
      proof (cases "pos = head")
        case False
        with r 0 step obtain g m where g: "body pos h = Some g" "link g n = Some m"
          "loop step body off n m head g = Some r"
          by (auto simp: bind_eq_Some_conv)
        with IH [OF g(3)] 0 step False show ?thesis
          by (subst node_loop_safe.simps) (simp add: P_def)
      qed (use r 0 in \<open>subst node_loop_safe.simps, simp\<close>)
    qed
  qed
  then show ?thesis by (simp add: P_def)
qed

text \<open>Every safe traversal filters the part of the list it walks over.\<close>

lemma list_for_each_entry_safe_from_filters:
  assumes "dlist h head (ys @ zs)"
  obtains h' where "list_for_each_entry_safe_from (del_if P off) off (list_entry off (hd (zs @ [head]))) head h = Some h'"
    "dlist h' head (ys @ filter (\<lambda>x. \<not> P (list_entry off x)) zs)"
proof -
  obtain p where p: "l_next h (hd (zs @ [head])) = Some p" "zs \<noteq> [] \<Longrightarrow> p = hd (tl zs @ [head])"
    using dlist_next_at [OF assms] by blast
  obtain h' where "entry_loop_safe (list_next_entry off) (del_if P off) off
      (list_entry off (hd (zs @ [head]))) (list_entry off p) head h = Some h'"
    "dlist h' head (ys @ filter (\<lambda>x. \<not> P (list_entry off x)) zs)"
    using entry_loop_filters [OF assms, of "list_entry off p"] p(2) by auto
  with p(1) show thesis
    by (intro that [of h']) (simp_all add: list_for_each_entry_safe_from_def list_next_entry_def)
qed

lemma list_for_each_entry_safe_filters:
  assumes "dlist h head xs"
  obtains h' where "list_for_each_entry_safe (del_if P off) off head h = Some h'"
    "dlist h' head (filter (\<lambda>x. \<not> P (list_entry off x)) xs)"
proof -
  have "list_for_each_entry_safe (del_if P off) off head h =
      list_for_each_entry_safe_from (del_if P off) off (list_entry off (hd (xs @ [head]))) head h"
    using dlist_next_head [OF assms]
    by (simp add: list_for_each_entry_safe_def list_for_each_entry_safe_from_def list_first_entry_def)
  with list_for_each_entry_safe_from_filters [of h head "[]" xs P off] assms that show thesis by auto
qed

lemma list_for_each_entry_safe_continue_filters:
  assumes "dlist h head (ys @ x # zs)"
  obtains h' where "list_for_each_entry_safe_continue (del_if P off) off (list_entry off x) head h = Some h'"
    "dlist h' head (ys @ x # filter (\<lambda>x. \<not> P (list_entry off x)) zs)"
proof -
  have "list_for_each_entry_safe_continue (del_if P off) off (list_entry off x) head h =
      list_for_each_entry_safe_from (del_if P off) off (list_entry off (hd (zs @ [head]))) head h"
    using dlist_mid(2) [OF assms]
    by (simp add: list_for_each_entry_safe_continue_def list_for_each_entry_safe_from_def list_next_entry_def)
  with list_for_each_entry_safe_from_filters [of h head "ys @ [x]" zs P off] assms that
  show thesis by auto
qed

lemma list_for_each_entry_safe_reverse_filters:
  assumes "dlist h head xs"
  obtains h' where "list_for_each_entry_safe_reverse (del_if P off) off head h = Some h'"
    "dlist h' head (filter (\<lambda>x. \<not> P (list_entry off x)) xs)"
proof -
  have l: "dlist h head (xs @ [])" using assms by simp
  obtain p where p: "l_prev h (last (head # xs)) = Some p" "xs \<noteq> [] \<Longrightarrow> p = last (head # butlast xs)"
    using dlist_prev_at [OF l] by blast
  have "list_for_each_entry_safe_reverse (del_if P off) off head h =
      entry_loop_safe (list_prev_entry off) (del_if P off) off
        (list_entry off (last (head # xs))) (list_entry off p) head h"
    using dlist_prev_head [OF assms] p(1)
    by (simp add: list_for_each_entry_safe_reverse_def list_last_entry_def list_prev_entry_def
        del: last.simps)
  with entry_loop_filters_rev [OF l, of "list_entry off p"] p(2) that show thesis by force
qed

lemma list_for_each_prev_safe_filters:
  assumes "dlist h head xs"
  obtains h' where "list_for_each_prev_safe (del_if P 0) head h = Some h'"
    "dlist h' head (filter (\<lambda>x. \<not> P x) xs)"
proof -
  obtain h' where h': "list_for_each_entry_safe_reverse (del_if P 0) 0 head h = Some h'"
    "dlist h' head (filter (\<lambda>x. \<not> P x) xs)"
    using list_for_each_entry_safe_reverse_filters [OF assms, of P 0] by (auto simp: list_entry_def)
  from h'(1) obtain pos n where p: "l_prev h head = Some pos" "l_prev h pos = Some n"
    "entry_loop_safe (list_prev_entry 0) (del_if P 0) 0 pos n head h = Some h'"
    by (auto simp: list_for_each_entry_safe_reverse_def list_last_entry_def list_prev_entry_0
        list_entry_def split: bind_splits)
  have "node_loop_safe l_prev (del_if P 0) pos n head h = Some h'"
    using p(3) unfolding list_prev_entry_0 by (rule entry_loop_node_loop)
  with p(1,2) h'(2) show thesis by (intro that [of h']) (simp_all add: list_for_each_prev_safe_def)
qed

text \<open>\<open>list_for_each_entry_continue_reverse\<close> visits the entries before the position, and from the
  position that \<open>list_prepare_entry\<close> makes of a null pointer, all of them.\<close>

lemma list_for_each_entry_continue_reverse_nodes:
  assumes "dlist h head (ys @ x # zs)"
  shows "list_for_each_entry_continue_reverse off (list_entry off x) head h =
    Some (map (list_entry off) (rev ys))"
proof -
  have "dpath h head ys x" using assms dpath_split(1) [of h head ys "x # zs" head] by (simp add: dlist_def)
  moreover have "head \<notin> set ys" using dlist_head_notin [OF assms] by auto
  ultimately show ?thesis
    using list_visit_path_rev [of h head ys x] dlist_mid(1) [OF assms]
    by (simp add: list_for_each_entry_continue_reverse_def list_prev_entry_def del: last.simps)
qed

lemma list_prepare_entry_head:
  assumes "dlist h head xs"
  shows "list_for_each_entry_continue off (list_prepare_entry off 0 head) head h =
    Some (map (list_entry off) xs)"
  using list_for_each_entry_nodes [OF assms, of off]
  by (simp add: list_for_each_entry_continue_def list_for_each_entry_def list_prepare_entry_def
      list_next_entry_def list_first_entry_def)

text \<open>After an insertion behind the position the repaired \<open>n\<close> is the inserted entry.\<close>

lemma list_safe_reset_next_entry:
  assumes "dlist h head (ys @ x # zs)"
  shows "list_safe_reset_next off (list_entry off x) h = Some (list_entry off (hd (zs @ [head])))"
  using dlist_mid(2) [OF assms] by (simp add: list_safe_reset_next_def list_next_entry_def)

section \<open>Properties\<close>

text \<open>
  C19. A traversal that is safe against removal returns, forwards and backwards, when its body
  takes the entries of a predicate off the list: a traversal of the result visits exactly the
  other entries, in their order. The traversal that continues after an entry leaves the
  entries up to it in place.
\<close>

lemma list_for_each_entry_safe_removes:
  assumes "dlist h head (ys @ x # zs)"
  shows "(\<exists>h'. list_for_each_entry_safe (del_if P off) off head h = Some h' \<and>
      list_for_each_entry off head h' =
        Some (filter (\<lambda>e. \<not> P e) (map (list_entry off) (ys @ x # zs)))) \<and>
    (\<exists>h'. list_for_each_entry_safe_reverse (del_if P off) off head h = Some h' \<and>
      list_for_each_entry off head h' =
        Some (filter (\<lambda>e. \<not> P e) (map (list_entry off) (ys @ x # zs)))) \<and>
    (\<exists>h'. list_for_each_entry_safe_continue (del_if P off) off (list_entry off x) head h = Some h' \<and>
      list_for_each_entry off head h' =
        Some (map (list_entry off) (ys @ [x]) @ filter (\<lambda>e. \<not> P e) (map (list_entry off) zs)))"
proof (intro conjI)
  note visit = list_for_each_entry_nodes filter_map o_def
  show "\<exists>h'. list_for_each_entry_safe (del_if P off) off head h = Some h' \<and>
      list_for_each_entry off head h' =
        Some (filter (\<lambda>e. \<not> P e) (map (list_entry off) (ys @ x # zs)))"
    by (rule list_for_each_entry_safe_filters [OF assms, of P off]) (simp add: visit)
  show "\<exists>h'. list_for_each_entry_safe_reverse (del_if P off) off head h = Some h' \<and>
      list_for_each_entry off head h' =
        Some (filter (\<lambda>e. \<not> P e) (map (list_entry off) (ys @ x # zs)))"
    by (rule list_for_each_entry_safe_reverse_filters [OF assms, of P off]) (simp add: visit)
  show "\<exists>h'. list_for_each_entry_safe_continue (del_if P off) off (list_entry off x) head h = Some h' \<and>
      list_for_each_entry off head h' =
        Some (map (list_entry off) (ys @ [x]) @ filter (\<lambda>e. \<not> P e) (map (list_entry off) zs))"
    by (rule list_for_each_entry_safe_continue_filters [OF assms, of P off]) (simp add: visit)
qed

lemma list_for_each_entry_safe_removes_witness:
  "dlist sample_list 0x10 ([] @ 0x20 # [0x30]) \<and>
   (\<exists>h'. list_for_each_entry_safe (del_if (\<lambda>e. e = 0x28) 8) 8 0x10 sample_list = Some h' \<and>
      list_for_each_entry 8 0x10 h' = Some [0x18]) \<and>
   (\<exists>h'. list_for_each_entry_safe_continue (del_if (\<lambda>e. e = 0x28) 8) 8 0x18 0x10 sample_list = Some h' \<and>
      list_for_each_entry 8 0x10 h' = Some [0x18])"
  using list_for_each_entry_safe_removes [of sample_list "0x10" "[]" "0x20" "[0x30]" "\<lambda>e. e = 0x28" 8]
  by (simp add: list_entry_def sample_list_facts(1))

end
