(* ===== verification/Hlist.thy ===== *)
theory Hlist
  imports Linked_List
begin

text \<open>
  The lists of \<open>linux/list.h\<close> with a single-pointer head (\<open>hlist\<close>). A node stores where the pointer to
  it is kept, so it can be removed without its head. The heap holds the cells of type
  \<open>struct hlist_node *\<close> (the \<open>first\<close> of a head and the \<open>next\<close> of a node, both at offset 0 of their
  structures) and the \<open>pprev\<close> field of every node; an access to an address that holds no such
  cell is a fault. \<open>hlist h head xs\<close> says that the list links exactly the nodes \<open>xs\<close>. Every
  operation does the corresponding operation on sequences, keeps every other list, and
  keeps the heap well typed.
\<close>

section \<open>Definitions\<close>

record hheap =
  hl_ptr :: "addr \<rightharpoonup> addr"
  hl_pprev :: "addr \<rightharpoonup> addr"

definition hset_ptr :: "addr \<Rightarrow> addr \<Rightarrow> hheap \<Rightarrow> hheap option" where
  "hset_ptr c v h = (case hl_ptr h c of None \<Rightarrow> None | Some _ \<Rightarrow> Some (h\<lparr>hl_ptr := (hl_ptr h)(c \<mapsto> v)\<rparr>))"

definition hset_pprev :: "addr \<Rightarrow> addr \<Rightarrow> hheap \<Rightarrow> hheap option" where
  "hset_pprev n v h = (case hl_pprev h n of None \<Rightarrow> None | Some _ \<Rightarrow> Some (h\<lparr>hl_pprev := (hl_pprev h)(n \<mapsto> v)\<rparr>))"

definition INIT_HLIST_HEAD :: "addr \<Rightarrow> hheap \<Rightarrow> hheap option" where
  "INIT_HLIST_HEAD head h = hset_ptr head 0 h"

definition INIT_HLIST_NODE :: "addr \<Rightarrow> hheap \<Rightarrow> hheap option" where
  "INIT_HLIST_NODE n h = do { h \<leftarrow> hset_ptr n 0 h; hset_pprev n 0 h }"

definition hlist_unhashed :: "addr \<Rightarrow> hheap \<Rightarrow> bool option" where
  "hlist_unhashed n h = do { p \<leftarrow> hl_pprev h n; Some (p = 0) }"

definition hlist_empty :: "addr \<Rightarrow> hheap \<Rightarrow> bool option" where
  "hlist_empty head h = do { p \<leftarrow> hl_ptr h head; Some (p = 0) }"

text \<open>\<open>__hlist_del\<close>.\<close>

definition hlist_del_node :: "addr \<Rightarrow> hheap \<Rightarrow> hheap option" where
  "hlist_del_node n h =
     do { next \<leftarrow> hl_ptr h n;
          pprev \<leftarrow> hl_pprev h n;
          h \<leftarrow> hset_ptr pprev next h;
          if next \<noteq> 0 then hset_pprev next pprev h else Some h }"

definition hlist_del :: "addr \<Rightarrow> hheap \<Rightarrow> hheap option" where
  "hlist_del n h =
     do { h \<leftarrow> hlist_del_node n h;
          h \<leftarrow> hset_ptr n LIST_POISON1 h;
          hset_pprev n LIST_POISON2 h }"

definition hlist_del_init :: "addr \<Rightarrow> hheap \<Rightarrow> hheap option" where
  "hlist_del_init n h =
     do { u \<leftarrow> hlist_unhashed n h;
          if \<not> u then do { h \<leftarrow> hlist_del_node n h; INIT_HLIST_NODE n h } else Some h }"

definition hlist_add_head :: "addr \<Rightarrow> addr \<Rightarrow> hheap \<Rightarrow> hheap option" where
  "hlist_add_head n head h =
     do { first \<leftarrow> hl_ptr h head;
          h \<leftarrow> hset_ptr n first h;
          h \<leftarrow> (if first \<noteq> 0 then hset_pprev first n h else Some h);
          h \<leftarrow> hset_ptr head n h;
          hset_pprev n head h }"

definition hlist_add_before :: "addr \<Rightarrow> addr \<Rightarrow> hheap \<Rightarrow> hheap option" where
  "hlist_add_before n next h =
     do { p \<leftarrow> hl_pprev h next;
          h \<leftarrow> hset_pprev n p h;
          h \<leftarrow> hset_ptr n next h;
          h \<leftarrow> hset_pprev next n h;
          p \<leftarrow> hl_pprev h n;
          hset_ptr p n h }"

definition hlist_add_behind :: "addr \<Rightarrow> addr \<Rightarrow> hheap \<Rightarrow> hheap option" where
  "hlist_add_behind n prev h =
     do { p \<leftarrow> hl_ptr h prev;
          h \<leftarrow> hset_ptr n p h;
          h \<leftarrow> hset_ptr prev n h;
          h \<leftarrow> hset_pprev n prev h;
          next \<leftarrow> hl_ptr h n;
          if next \<noteq> 0 then hset_pprev next n h else Some h }"

definition hlist_add_fake :: "addr \<Rightarrow> hheap \<Rightarrow> hheap option" where
  "hlist_add_fake n h = hset_pprev n n h"

definition hlist_fake :: "addr \<Rightarrow> hheap \<Rightarrow> bool option" where
  "hlist_fake n h = do { p \<leftarrow> hl_pprev h n; Some (p = n) }"

definition hlist_is_singular_node :: "addr \<Rightarrow> addr \<Rightarrow> hheap \<Rightarrow> bool option" where
  "hlist_is_singular_node n head h =
     do { next \<leftarrow> hl_ptr h n;
          if next = 0 then do { p \<leftarrow> hl_pprev h n; Some (p = head) } else Some False }"

definition hlist_move_list :: "addr \<Rightarrow> addr \<Rightarrow> hheap \<Rightarrow> hheap option" where
  "hlist_move_list old new h =
     do { first \<leftarrow> hl_ptr h old;
          h \<leftarrow> hset_ptr new first h;
          first \<leftarrow> hl_ptr h new;
          h \<leftarrow> (if first \<noteq> 0 then hset_pprev first new h else Some h);
          hset_ptr old 0 h }"

text \<open>Traversals give the nodes, or the entries at offset \<open>off\<close> before them, that they visit; the
  removal-safe ones run a body on them.\<close>

definition hlist_entry :: "addr \<Rightarrow> addr \<Rightarrow> addr" where
  "hlist_entry off ptr = ptr - off"

definition hlist_entry_safe :: "addr \<Rightarrow> addr \<Rightarrow> addr" where
  "hlist_entry_safe off ptr = (if ptr \<noteq> 0 then hlist_entry off ptr else 0)"

definition hlist_for_each :: "addr \<Rightarrow> hheap \<Rightarrow> addr list option" where
  "hlist_for_each head h = do { pos \<leftarrow> hl_ptr h head; list_visit (hl_ptr h) pos 0 }"

partial_function (option) hlist_loop_safe :: "(addr \<Rightarrow> hheap \<Rightarrow> hheap option) \<Rightarrow> addr \<Rightarrow> hheap \<Rightarrow> hheap option" where
  "hlist_loop_safe body pos h =
     (if pos = 0 then Some h
      else do { n \<leftarrow> hl_ptr h pos; h \<leftarrow> body pos h; hlist_loop_safe body n h })"

definition hlist_for_each_safe :: "(addr \<Rightarrow> hheap \<Rightarrow> hheap option) \<Rightarrow> addr \<Rightarrow> hheap \<Rightarrow> hheap option" where
  "hlist_for_each_safe body head h = do { pos \<leftarrow> hl_ptr h head; hlist_loop_safe body pos h }"

partial_function (option) hlist_for_each_entry_from :: "addr \<Rightarrow> addr \<Rightarrow> hheap \<Rightarrow> addr list option" where
  "hlist_for_each_entry_from off pos h =
     (if pos = 0 then Some []
      else do { n \<leftarrow> hl_ptr h (pos + off);
                xs \<leftarrow> hlist_for_each_entry_from off (hlist_entry_safe off n) h;
                Some (pos # xs) })"

definition hlist_for_each_entry :: "addr \<Rightarrow> addr \<Rightarrow> hheap \<Rightarrow> addr list option" where
  "hlist_for_each_entry off head h =
     do { first \<leftarrow> hl_ptr h head; hlist_for_each_entry_from off (hlist_entry_safe off first) h }"

definition hlist_for_each_entry_continue :: "addr \<Rightarrow> addr \<Rightarrow> hheap \<Rightarrow> addr list option" where
  "hlist_for_each_entry_continue off pos h =
     do { n \<leftarrow> hl_ptr h (pos + off); hlist_for_each_entry_from off (hlist_entry_safe off n) h }"

partial_function (option) hlist_entry_loop_safe :: "(addr \<Rightarrow> hheap \<Rightarrow> hheap option) \<Rightarrow> addr \<Rightarrow> addr \<Rightarrow> hheap \<Rightarrow> hheap option" where
  "hlist_entry_loop_safe body off pos h =
     (if pos = 0 then Some h
      else do { n \<leftarrow> hl_ptr h (pos + off);
                h \<leftarrow> body pos h;
                hlist_entry_loop_safe body off (hlist_entry_safe off n) h })"

definition hlist_for_each_entry_safe :: "(addr \<Rightarrow> hheap \<Rightarrow> hheap option) \<Rightarrow> addr \<Rightarrow> addr \<Rightarrow> hheap \<Rightarrow> hheap option" where
  "hlist_for_each_entry_safe body off head h =
     do { first \<leftarrow> hl_ptr h head; hlist_entry_loop_safe body off (hlist_entry_safe off first) h }"

section \<open>Lists as sequences\<close>

text \<open>The nodes \<open>xs\<close> follow the cell \<open>c\<close>, and the last of their cells points to \<open>e\<close>.\<close>

fun hseg :: "hheap \<Rightarrow> addr \<Rightarrow> addr list \<Rightarrow> addr \<Rightarrow> bool" where
  "hseg h c [] e \<longleftrightarrow> hl_ptr h c = Some e"
| "hseg h c (x # xs) e \<longleftrightarrow> hl_ptr h c = Some x \<and> x \<noteq> 0 \<and> hl_pprev h x = Some c \<and> hseg h x xs e"

definition hlist :: "hheap \<Rightarrow> addr \<Rightarrow> addr list \<Rightarrow> bool" where
  "hlist h head xs \<longleftrightarrow> hseg h head xs 0 \<and> distinct (head # xs)"

definition is_hnode :: "hheap \<Rightarrow> addr \<Rightarrow> bool" where
  "is_hnode h n \<longleftrightarrow> n \<noteq> 0 \<and> hl_ptr h n \<noteq> None \<and> hl_pprev h n \<noteq> None"

lemma hset_simps [simp]:
  "hl_ptr h c \<noteq> None \<Longrightarrow> hset_ptr c v h = Some (h\<lparr>hl_ptr := (hl_ptr h)(c \<mapsto> v)\<rparr>)"
  "hl_pprev h n \<noteq> None \<Longrightarrow> hset_pprev n v h = Some (h\<lparr>hl_pprev := (hl_pprev h)(n \<mapsto> v)\<rparr>)"
  by (auto simp: hset_ptr_def hset_pprev_def)

lemma hseg_cong:
  "\<forall>a \<in> set (c # xs). hl_ptr h' a = hl_ptr h a \<Longrightarrow> \<forall>a \<in> set xs. hl_pprev h' a = hl_pprev h a \<Longrightarrow> hseg h' c xs e = hseg h c xs e"
  by (induction xs arbitrary: c) auto

lemma hseg_keep:
  "hseg h c xs e \<Longrightarrow> (\<And>a. a \<in> set (c # xs) \<Longrightarrow> hl_ptr h' a = hl_ptr h a) \<Longrightarrow> (\<And>a. a \<in> set xs \<Longrightarrow> hl_pprev h' a = hl_pprev h a) \<Longrightarrow>
     hseg h' c xs e"
  using hseg_cong [of c xs h' h e] by blast

lemma hseg_append:
  "hseg h c (xs @ y # ys) e \<longleftrightarrow> hseg h c xs y \<and> y \<noteq> 0 \<and> hl_pprev h y = Some (last (c # xs)) \<and> hseg h y ys e"
  by (induction xs arbitrary: c) auto

lemma hseg_last: "hseg h c xs e \<Longrightarrow> hl_ptr h (last (c # xs)) = Some e"
  by (induction xs arbitrary: c) auto

text \<open>A store to the last cell moves the end.\<close>

lemma hseg_redirect:
  assumes "hseg h c xs e" "distinct (c # xs)" "hl_ptr h' = (hl_ptr h)(last (c # xs) \<mapsto> e')" "\<forall>a \<in> set xs. hl_pprev h' a = hl_pprev h a"
  shows "hseg h' c xs e'"
  using assms
proof (induction xs arbitrary: c)
  case (Cons x xs)
  then have "hseg h' x xs e'" by (intro Cons.IH) auto
  moreover have "last (c # x # xs) \<noteq> c" using Cons.prems(2) last_in_set [of "x # xs"] by (metis distinct.simps(2) last_ConsR list.discI)
  ultimately show ?case using Cons.prems by auto
qed simp

lemma hseg_nodes: "hseg h c xs e \<Longrightarrow> x \<in> set xs \<Longrightarrow> is_hnode h x"
  by (induction xs arbitrary: c) (auto simp: is_hnode_def dest: hseg_last elim: hseg.elims)

lemma hseg_head: "hseg h c xs e \<Longrightarrow> hl_ptr h c = Some (hd (xs @ [e]))"
  by (cases xs) auto

text \<open>The fields outside \<open>A\<close> are the same, and with them the lists that do not meet \<open>A\<close>.\<close>

definition hkept :: "addr set \<Rightarrow> hheap \<Rightarrow> hheap \<Rightarrow> bool" where
  "hkept A h h' \<longleftrightarrow> (\<forall>a. a \<notin> A \<longrightarrow> hl_ptr h' a = hl_ptr h a \<and> hl_pprev h' a = hl_pprev h a)"

lemma hlist_kept: "hkept A h h' \<Longrightarrow> set (head # xs) \<inter> A = {} \<Longrightarrow> hlist h head xs \<Longrightarrow> hlist h' head xs"
  unfolding hlist_def using hseg_cong [of head xs h' h 0] by (auto simp: hkept_def)

lemma hkept_trans: "hkept A h h' \<Longrightarrow> hkept B h' h'' \<Longrightarrow> B \<subseteq> A \<Longrightarrow> hkept A h h''"
  unfolding hkept_def by (metis subsetD)

lemma hlist_at:
  assumes "hlist h head (xs @ y # ys)"
  shows "hseg h head xs y" "y \<noteq> 0" "hl_pprev h y = Some (last (head # xs))" "hl_ptr h y = Some (hd (ys @ [0]))" "hseg h y ys 0"
    "hl_ptr h (last (head # xs)) = Some y" "distinct (head # xs)" "y \<notin> set (head # xs @ ys)" "last (head # xs) \<in> set (head # xs)"
    "last (head # xs) \<noteq> y" "last (head # xs) \<notin> set ys" "set ys \<inter> set (head # xs) = {}" "distinct ys" "0 \<notin> set ys"
proof -
  have s: "hseg h head xs y" "y \<noteq> 0" "hl_pprev h y = Some (last (head # xs))" "hseg h y ys 0" and d: "distinct (head # xs @ y # ys)"
    using assms by (simp_all add: hlist_def hseg_append)
  have l: "last (head # xs) \<in> set (head # xs)" by (rule last_in_set) simp
  have n: "0 \<notin> set ys" using hseg_nodes [OF s(4)] by (auto simp: is_hnode_def)
  show "hseg h head xs y" "y \<noteq> 0" "hl_pprev h y = Some (last (head # xs))" "hl_ptr h y = Some (hd (ys @ [0]))" "hseg h y ys 0"
    "hl_ptr h (last (head # xs)) = Some y" "distinct (head # xs)" "y \<notin> set (head # xs @ ys)" "last (head # xs) \<in> set (head # xs)"
    "last (head # xs) \<noteq> y" "last (head # xs) \<notin> set ys" "set ys \<inter> set (head # xs) = {}" "distinct ys" "0 \<notin> set ys"
    using s d l n hseg_head [OF s(4)] hseg_last [OF s(1)] by (auto simp del: last.simps)
qed

text \<open>To show a list, show its two parts.\<close>

lemma hlist_join:
  assumes "hseg h head xs (hd (ys @ [0]))" "distinct (head # xs @ ys)"
    and "\<And>z zs. ys = z # zs \<Longrightarrow> z \<noteq> 0 \<and> hl_pprev h z = Some (last (head # xs)) \<and> hseg h z zs 0"
  shows "hlist h head (xs @ ys)"
  using assms by (cases ys) (auto simp: hlist_def hseg_append)

section \<open>The operations on sequences\<close>

lemma hlist_del_node_list:
  assumes "hlist h head (xs @ y # ys)"
  obtains h' where "hlist_del_node y h = Some h'" "hlist h' head (xs @ ys)" "hkept (set (head # xs @ ys)) h h'" "is_hnode h' y"
proof -
  note a = hlist_at [OF assms]
  let ?l = "last (head # xs)" and ?e = "hd (ys @ [0])"
  define h1 where "h1 = h\<lparr>hl_ptr := (hl_ptr h)(?l \<mapsto> ?e)\<rparr>"
  define h' where "h' = (if ?e \<noteq> 0 then h1\<lparr>hl_pprev := (hl_pprev h)(?e \<mapsto> ?l)\<rparr> else h1)"
  have e: "?e \<noteq> 0 \<longleftrightarrow> ys \<noteq> []" using a(14) by (cases ys) auto
  have "hl_pprev h ?e \<noteq> None" if "?e \<noteq> 0" using that a(5) e by (cases ys) auto
  then have r: "hlist_del_node y h = Some h'"
    using a(3,4,6) by (auto simp: hlist_del_node_def h1_def h'_def)
  have f: "hl_ptr h' = (hl_ptr h)(?l \<mapsto> ?e)" "hl_pprev h' = (if ys = [] then hl_pprev h else (hl_pprev h)(?e \<mapsto> ?l))"
    using e by (auto simp: h'_def h1_def)
  have "hlist h' head (xs @ ys)"
  proof (rule hlist_join)
    show "hseg h' head xs ?e"
      by (rule hseg_redirect [OF a(1,7) f(1)]) (use a(12) f(2) in \<open>cases ys; auto\<close>)
    show "distinct (head # xs @ ys)" using a(7,12,13) by auto
    show "z \<noteq> 0 \<and> hl_pprev h' z = Some ?l \<and> hseg h' z zs 0" if "ys = z # zs" for z zs
      using that a(5,11,13) f hseg_cong [of z zs h' h 0] by (auto simp del: last.simps)
  qed
  moreover have "hkept (set (head # xs @ ys)) h h'" using f a(9) by (cases ys) (auto simp: hkept_def)
  moreover have "is_hnode h' y" using a(2,3,4,8,10) f by (cases ys) (auto simp: is_hnode_def)
  ultimately show thesis using that r by blast
qed

lemma hlist_del_list:
  assumes "hlist h head (xs @ y # ys)"
  obtains h' where "hlist_del y h = Some h'" "hlist h' head (xs @ ys)" "hkept (set (head # xs @ y # ys)) h h'"
    "hl_ptr h' y = Some LIST_POISON1" "hl_pprev h' y = Some LIST_POISON2"
proof -
  obtain h1 where h1: "hlist_del_node y h = Some h1" "hlist h1 head (xs @ ys)" "hkept (set (head # xs @ ys)) h h1" "is_hnode h1 y"
    by (rule hlist_del_node_list [OF assms])
  define h' where "h' = h1\<lparr>hl_ptr := (hl_ptr h1)(y \<mapsto> LIST_POISON1), hl_pprev := (hl_pprev h1)(y \<mapsto> LIST_POISON2)\<rparr>"
  have r: "hlist_del y h = Some h'" using h1(1,4) by (auto simp: hlist_del_def h'_def is_hnode_def)
  have "hkept {y} h1 h'" by (simp add: hkept_def h'_def)
  then have "hlist h' head (xs @ ys)" using hlist_kept h1(2) hlist_at(8) [OF assms] by fastforce
  moreover have "hkept (set (head # xs @ y # ys)) h h'" using h1(3) by (auto simp: hkept_def h'_def)
  ultimately show thesis using that r by (simp add: h'_def)
qed

lemma hlist_del_init_list:
  assumes "hlist h head (xs @ y # ys)" "head \<noteq> 0"
  obtains h' where "hlist_del_init y h = Some h'" "hlist h' head (xs @ ys)" "hkept (set (head # xs @ y # ys)) h h'"
    "hlist_unhashed y h' = Some True" "hlist_del_init y h' = Some h'" "is_hnode h' y"
proof -
  obtain h1 where h1: "hlist_del_node y h = Some h1" "hlist h1 head (xs @ ys)" "hkept (set (head # xs @ ys)) h h1" "is_hnode h1 y"
    by (rule hlist_del_node_list [OF assms(1)])
  define h' where "h' = h1\<lparr>hl_ptr := (hl_ptr h1)(y \<mapsto> 0), hl_pprev := (hl_pprev h1)(y \<mapsto> 0)\<rparr>"
  have "last (head # xs) \<noteq> 0" using hlist_at(1) [OF assms(1)] assms(2) hseg_nodes [of h head xs y "last xs"]
    by (cases xs) (auto simp: is_hnode_def)
  then have r: "hlist_del_init y h = Some h'"
    using h1(1,4) hlist_at(3) [OF assms(1)] by (auto simp: hlist_del_init_def hlist_unhashed_def INIT_HLIST_NODE_def h'_def is_hnode_def)
  have "hkept {y} h1 h'" by (simp add: hkept_def h'_def)
  then have "hlist h' head (xs @ ys)" using hlist_kept h1(2) hlist_at(8) [OF assms(1)] by fastforce
  moreover have "hkept (set (head # xs @ y # ys)) h h'" using h1(3) by (auto simp: hkept_def h'_def)
  moreover have "hlist_unhashed y h' = Some True" "is_hnode h' y" using hlist_at(2) [OF assms(1)] by (simp_all add: hlist_unhashed_def h'_def is_hnode_def)
  ultimately show thesis using that r by (simp add: hlist_del_init_def)
qed

text \<open>The links after an insertion behind a cell, whichever operation made them.\<close>

lemma hlist_cut:
  assumes "hlist h head (xs @ ys)"
  shows "hseg h head xs (hd (ys @ [0]))" "distinct (head # xs @ ys)" "hl_ptr h (last (head # xs)) = Some (hd (ys @ [0]))" "0 \<notin> set ys"
    "\<And>z zs. ys = z # zs \<Longrightarrow> z \<noteq> 0 \<and> hl_pprev h z = Some (last (head # xs)) \<and> hseg h z zs 0"
proof -
  show 1: "hseg h head xs (hd (ys @ [0]))" using assms by (cases ys) (auto simp: hlist_def hseg_append)
  show "distinct (head # xs @ ys)" using assms by (simp add: hlist_def)
  show "hl_ptr h (last (head # xs)) = Some (hd (ys @ [0]))" by (rule hseg_last [OF 1])
  show "0 \<notin> set ys" using assms hseg_nodes [of h head "xs @ ys" 0 0] by (auto simp: hlist_def is_hnode_def)
  show "z \<noteq> 0 \<and> hl_pprev h z = Some (last (head # xs)) \<and> hseg h z zs 0" if "ys = z # zs" for z zs
    using assms that by (simp add: hlist_def hseg_append)
qed

lemma hlist_inserted:
  assumes "hlist h head (xs @ ys)" "n \<notin> set (head # xs @ ys)" "n \<noteq> 0"
    and f: "hl_ptr h' = (hl_ptr h)(n \<mapsto> hd (ys @ [0]), last (head # xs) \<mapsto> n)"
      "hl_pprev h' = (if ys = [] then hl_pprev h else (hl_pprev h)(hd ys \<mapsto> n))(n \<mapsto> last (head # xs))"
  shows "hlist h' head (xs @ n # ys)" "hkept (set (head # n # xs @ ys)) h h'"
proof -
  note c = hlist_cut [OF assms(1)]
  have l: "last (head # xs) \<in> set (head # xs)" by (rule last_in_set) simp
  define h1 where "h1 = h\<lparr>hl_ptr := (hl_ptr h)(last (head # xs) \<mapsto> n)\<rparr>"
  have "hseg h1 head xs n" by (rule hseg_redirect [OF c(1)]) (use c(2) in \<open>auto simp: h1_def\<close>)
  then have 1: "hseg h' head xs n"
    by (rule hseg_keep) (use assms(2) f c(2) in \<open>cases ys; auto simp: h1_def simp del: last.simps\<close>)+
  have "hlist h' n ([] @ ys)"
  proof (rule hlist_join)
    show "hseg h' n [] (hd (ys @ [0]))" using f(1) l assms(2) by (auto simp del: last.simps)
    show "distinct (n # [] @ ys)" using assms(2) c(2) by auto
    show "z \<noteq> 0 \<and> hl_pprev h' z = Some (last [n]) \<and> hseg h' z zs 0" if ys: "ys = z # zs" for z zs
    proof -
      have "hseg h' z zs 0"
        by (rule hseg_keep [of h]) (use ys c(2) c(5) [OF ys] f l assms(2) in \<open>auto simp del: last.simps\<close>)
      then show ?thesis using ys c(5) [OF ys] f(2) assms(2) by auto
    qed
  qed
  then show "hlist h' head (xs @ n # ys)" using 1 assms(2,3) c(2) f(2) by (auto simp: hlist_def hseg_append)
  show "hkept (set (head # n # xs @ ys)) h h'" using f l by (cases ys) (auto simp: hkept_def simp del: last.simps)
qed

lemma hlist_add_head_list:
  assumes "hlist h head xs" "is_hnode h n" "n \<notin> set (head # xs)"
  obtains h' where "hlist_add_head n head h = Some h'" "hlist h' head (n # xs)" "hkept (set (head # n # xs)) h h'"
proof -
  note c = hlist_cut [of h head "[]" xs]
  define h' where "h' = h\<lparr>hl_ptr := (hl_ptr h)(n \<mapsto> hd (xs @ [0]), head \<mapsto> n),
    hl_pprev := (if xs = [] then hl_pprev h else (hl_pprev h)(hd xs \<mapsto> n))(n \<mapsto> head)\<rparr>"
  have "hlist_add_head n head h = Some h'"
    using c(3-5) assms by (cases xs) (auto simp: hlist_add_head_def h'_def is_hnode_def)
  moreover have "hlist h' head ([] @ n # xs)" "hkept (set (head # n # [] @ xs)) h h'"
    by (rule hlist_inserted [of h head "[]" xs]; use assms in \<open>simp add: h'_def is_hnode_def\<close>)+
  ultimately show thesis using that by simp
qed

lemma hlist_add_behind_list:
  assumes "hlist h head (xs @ y # ys)" "is_hnode h n" "n \<notin> set (head # xs @ y # ys)"
  obtains h' where "hlist_add_behind n y h = Some h'" "hlist h' head (xs @ y # n # ys)" "hkept (set (head # n # xs @ y # ys)) h h'"
proof -
  note c = hlist_cut [of h head "xs @ [y]" ys]
  define h' where "h' = h\<lparr>hl_ptr := (hl_ptr h)(n \<mapsto> hd (ys @ [0]), y \<mapsto> n),
    hl_pprev := (if ys = [] then hl_pprev h else (hl_pprev h)(hd ys \<mapsto> n))(n \<mapsto> y)\<rparr>"
  have "hlist_add_behind n y h = Some h'"
    using c(2-5) assms by (cases ys) (auto simp: hlist_add_behind_def h'_def is_hnode_def fun_upd_twist)
  moreover have "hlist h' head ((xs @ [y]) @ n # ys)" "hkept (set (head # n # (xs @ [y]) @ ys)) h h'"
    by (rule hlist_inserted [of h head "xs @ [y]" ys]; use assms in \<open>simp add: h'_def is_hnode_def\<close>)+
  ultimately show thesis using that by simp
qed

lemma hlist_add_before_list:
  assumes "hlist h head (xs @ y # ys)" "is_hnode h n" "n \<notin> set (head # xs @ y # ys)"
  obtains h' where "hlist_add_before n y h = Some h'" "hlist h' head (xs @ n # y # ys)" "hkept (set (head # n # xs @ y # ys)) h h'"
proof -
  note a = hlist_at [OF assms(1)]
  define h' where "h' = h\<lparr>hl_ptr := (hl_ptr h)(n \<mapsto> y, last (head # xs) \<mapsto> n),
    hl_pprev := ((hl_pprev h)(y \<mapsto> n))(n \<mapsto> last (head # xs))\<rparr>"
  have "hlist_add_before n y h = Some h'"
    using a(3,6) assms(2,3) by (auto simp: hlist_add_before_def h'_def is_hnode_def fun_upd_twist simp del: last.simps)
  moreover have "hlist h' head (xs @ n # y # ys)" "hkept (set (head # n # xs @ y # ys)) h h'"
    by (rule hlist_inserted [of h head xs "y # ys"]; use assms in \<open>simp add: h'_def is_hnode_def\<close>)+
  ultimately show thesis using that by simp
qed

lemma hlist_move_list_list:
  assumes "hlist h old xs" "hl_ptr h new \<noteq> None" "new \<notin> set (old # xs)"
  obtains h' where "hlist_move_list old new h = Some h'" "hlist h' new xs" "hlist h' old []" "hkept (set (old # new # xs)) h h'"
proof -
  note c = hlist_cut [of h old "[]" xs]
  define h' where "h' = h\<lparr>hl_ptr := (hl_ptr h)(new \<mapsto> hd (xs @ [0]), old \<mapsto> 0),
    hl_pprev := (if xs = [] then hl_pprev h else (hl_pprev h)(hd xs \<mapsto> new))\<rparr>"
  have r: "hlist_move_list old new h = Some h'"
    using c(3-5) assms by (cases xs) (auto simp: hlist_move_list_def h'_def)
  have "hlist h' new ([] @ xs)"
  proof (rule hlist_join)
    show "hseg h' new [] (hd (xs @ [0]))" "distinct (new # [] @ xs)" using assms c(2) by (auto simp: h'_def)
    show "z \<noteq> 0 \<and> hl_pprev h' z = Some (last [new]) \<and> hseg h' z zs 0" if xs: "xs = z # zs" for z zs
    proof -
      have z: "z \<noteq> 0" "hseg h z zs 0" "distinct (old # z # zs)" using xs c(2,5) assms(1) by auto
      have "hseg h' z zs 0" by (rule hseg_keep [OF z(2)]) (use xs z(3) assms(3) in \<open>auto simp: h'_def\<close>)
      then show ?thesis using xs z(1) by (simp add: h'_def)
    qed
  qed
  moreover have "hlist h' old []" by (simp add: hlist_def h'_def)
  moreover have "hkept (set (old # new # xs)) h h'" by (cases xs) (auto simp: hkept_def h'_def)
  ultimately show thesis using that r by simp
qed

section \<open>Traversals\<close>

lemma hseg_visit: "hseg h c xs 0 \<Longrightarrow> hl_ptr h c = Some p \<Longrightarrow> list_visit (hl_ptr h) p 0 = Some xs"
proof (induction xs arbitrary: c p)
  case Nil
  then show ?case by (subst list_visit.simps) simp
next
  case (Cons x xs)
  then obtain q where "hl_ptr h x = Some q" using hseg_head [of h x xs 0] by auto
  with Cons show ?case by (subst list_visit.simps) auto
qed

lemma hlist_for_each_nodes: "hlist h head xs \<Longrightarrow> hlist_for_each head h = Some xs"
  using hseg_head [of h head xs 0] hseg_visit [of h head xs] by (simp add: hlist_def hlist_for_each_def)

lemma hseg_visit_entries:
  "hseg h c xs 0 \<Longrightarrow> off \<notin> set xs \<Longrightarrow> hl_ptr h c = Some p \<Longrightarrow>
     hlist_for_each_entry_from off (hlist_entry_safe off p) h = Some (map (hlist_entry off) xs)"
proof (induction xs arbitrary: c p)
  case Nil
  then show ?case by (subst hlist_for_each_entry_from.simps) (simp add: hlist_entry_safe_def)
next
  case (Cons x xs)
  then obtain q where "hl_ptr h x = Some q" using hseg_head [of h x xs 0] by auto
  then have "hlist_for_each_entry_from off (hlist_entry_safe off q) h = Some (map (hlist_entry off) xs)" using Cons by auto
  moreover have "hlist_entry_safe off p = hlist_entry off x" "hlist_entry off x \<noteq> 0" "hlist_entry off x + off = x"
    using Cons.prems by (auto simp: hlist_entry_safe_def hlist_entry_def)
  ultimately show ?case using \<open>hl_ptr h x = Some q\<close> by (subst hlist_for_each_entry_from.simps) simp
qed

lemma hlist_for_each_entry_nodes:
  "hlist h head xs \<Longrightarrow> off \<notin> set xs \<Longrightarrow> hlist_for_each_entry off head h = Some (map (hlist_entry off) xs)"
  using hseg_head [of h head xs 0] hseg_visit_entries [of h head xs] by (simp add: hlist_def hlist_for_each_entry_def)

lemma hlist_for_each_entry_continue_nodes:
  assumes "hlist h head (xs @ y # ys)" "off \<notin> set ys"
  shows "hlist_for_each_entry_continue off (hlist_entry off y) h = Some (map (hlist_entry off) ys)"
  using hlist_at(4,5) [OF assms(1)] hseg_visit_entries [OF _ assms(2)]
  by (simp add: hlist_for_each_entry_continue_def hlist_entry_def)

lemma hlist_is_singular_node_iff: "hlist h head (y # ys) \<Longrightarrow> hlist_is_singular_node y head h = Some (ys = [])"
  using hlist_at [of h head "[]" y ys] by (cases ys) (auto simp: hlist_is_singular_node_def)

text \<open>The removal-safe loops, with a body that removes each node.\<close>

lemma hlist_first:
  assumes "hlist h head (x # xs)"
  shows "x \<noteq> 0" "hl_ptr h head = Some x" "hl_ptr h x = Some (hd (xs @ [0]))"
proof -
  have a: "hlist h head ([] @ x # xs)" using assms by simp
  show "x \<noteq> 0" "hl_ptr h head = Some x" "hl_ptr h x = Some (hd (xs @ [0]))" using hlist_at(2,4,6) [OF a] by simp_all
qed

lemma hlist_del_first:
  assumes "hlist h head (x # xs)"
  shows "\<exists>h'. hlist_del x h = Some h' \<and> hlist h' head xs \<and> hkept (set (head # x # xs)) h h'"
proof -
  have "hlist h head ([] @ x # xs)" using assms by simp
  then obtain h' where "hlist_del x h = Some h'" "hlist h' head ([] @ xs)" "hkept (set (head # [] @ x # xs)) h h'" by (rule hlist_del_list)
  then show ?thesis by simp
qed

lemma hlist_loop_safe_del:
  "hlist h head xs \<Longrightarrow> hl_ptr h head = Some p \<Longrightarrow> \<exists>h'. hlist_loop_safe hlist_del p h = Some h' \<and> hlist h' head [] \<and> hkept (set (head # xs)) h h'"
proof (induction xs arbitrary: h p)
  case Nil
  then show ?case by (subst hlist_loop_safe.simps) (simp add: hlist_def hkept_def)
next
  case (Cons x xs)
  have x: "p = x" "x \<noteq> 0" "hl_ptr h x = Some (hd (xs @ [0]))" using Cons.prems(2) hlist_first [OF Cons.prems(1)] by simp_all
  obtain h1 where h1: "hlist_del x h = Some h1" "hlist h1 head xs" "hkept (set (head # x # xs)) h h1"
    using hlist_del_first [OF Cons.prems(1)] by blast
  have "hl_ptr h1 head = Some (hd (xs @ [0]))" using hseg_head [of h1 head xs 0] h1(2) by (simp add: hlist_def)
  then obtain h' where h': "hlist_loop_safe hlist_del (hd (xs @ [0])) h1 = Some h'" "hlist h' head []" "hkept (set (head # xs)) h1 h'"
    using Cons.IH [OF h1(2)] by blast
  have "hlist_loop_safe hlist_del p h = hlist_loop_safe hlist_del (hd (xs @ [0])) h1"
    using x h1(1) by (subst hlist_loop_safe.simps) (simp only: if_False bind.bind_lunit)
  moreover have "hkept (set (head # x # xs)) h h'" by (rule hkept_trans [OF h1(3) h'(3)]) auto
  ultimately show ?case using h'(1,2) by metis
qed

lemma hlist_entry_loop_safe_eq:
  assumes "hlist h head xs" "hl_ptr h head = Some p" "off \<notin> set xs"
  shows "hlist_entry_loop_safe (\<lambda>e. hlist_del (e + off)) off (hlist_entry_safe off p) h = hlist_loop_safe hlist_del p h"
  using assms
proof (induction xs arbitrary: h p)
  case Nil
  then show ?case by (subst hlist_loop_safe.simps, subst hlist_entry_loop_safe.simps) (simp add: hlist_def hlist_entry_safe_def)
next
  case (Cons x xs)
  have x: "p = x" "x \<noteq> 0" "hl_ptr h x = Some (hd (xs @ [0]))" using Cons.prems(2) hlist_first [OF Cons.prems(1)] by simp_all
  obtain h1 where h1: "hlist_del x h = Some h1" "hlist h1 head xs"
    using hlist_del_first [OF Cons.prems(1)] by blast
  have "hl_ptr h1 head = Some (hd (xs @ [0]))" using hseg_head [of h1 head xs 0] h1(2) by (simp add: hlist_def)
  then have "hlist_entry_loop_safe (\<lambda>e. hlist_del (e + off)) off (hlist_entry_safe off (hd (xs @ [0]))) h1 = hlist_loop_safe hlist_del (hd (xs @ [0])) h1"
    using Cons.IH [OF h1(2)] Cons.prems(3) by simp
  moreover have "hlist_entry_safe off p = hlist_entry off x" "hlist_entry off x \<noteq> 0" "hlist_entry off x + off = x"
    using x Cons.prems(3) by (auto simp: hlist_entry_safe_def hlist_entry_def)
  ultimately show ?case
    using x h1(1) by (subst hlist_loop_safe.simps, subst hlist_entry_loop_safe.simps) simp
qed

section \<open>Typing\<close>

text \<open>A cell holds null, the address of a node, or one of the values \<open>ps\<close>; a \<open>pprev\<close> field holds null,
  the address of a cell, or one of \<open>ps\<close>.\<close>

definition hwt :: "addr set \<Rightarrow> hheap \<Rightarrow> bool" where
  "hwt ps h \<longleftrightarrow> (\<forall>c v. hl_ptr h c = Some v \<longrightarrow> v \<in> insert 0 ps \<or> is_hnode h v) \<and>
     (\<forall>n v. hl_pprev h n = Some v \<longrightarrow> v \<in> insert 0 ps \<or> hl_ptr h v \<noteq> None)"

datatype hop = Init_Head addr | Init_Node addr | Add_Head addr addr | Add_Before addr addr | Add_Behind addr addr | Add_Fake addr
  | Del addr | Del_Init addr | Move_List addr addr

fun hexec :: "hop \<Rightarrow> hheap \<Rightarrow> hheap option" where
  "hexec (Init_Head a) = INIT_HLIST_HEAD a"
| "hexec (Init_Node n) = INIT_HLIST_NODE n"
| "hexec (Add_Head n a) = hlist_add_head n a"
| "hexec (Add_Before n m) = hlist_add_before n m"
| "hexec (Add_Behind n m) = hlist_add_behind n m"
| "hexec (Add_Fake n) = hlist_add_fake n"
| "hexec (Del n) = hlist_del n"
| "hexec (Del_Init n) = hlist_del_init n"
| "hexec (Move_List a b) = hlist_move_list a b"

fun hrun :: "hop list \<Rightarrow> hheap \<Rightarrow> hheap option" where
  "hrun [] h = Some h"
| "hrun (op # ops) h = do { h \<leftarrow> hexec op h; hrun ops h }"

fun hargs :: "hheap \<Rightarrow> hop \<Rightarrow> bool" where
  "hargs h (Init_Head a) \<longleftrightarrow> hl_ptr h a \<noteq> None"
| "hargs h (Add_Head n a) \<longleftrightarrow> is_hnode h n \<and> hl_ptr h a \<noteq> None"
| "hargs h (Add_Before n m) \<longleftrightarrow> is_hnode h n \<and> is_hnode h m"
| "hargs h (Add_Behind n m) \<longleftrightarrow> is_hnode h n \<and> is_hnode h m"
| "hargs h (Move_List a b) \<longleftrightarrow> hl_ptr h a \<noteq> None \<and> hl_ptr h b \<noteq> None"
| "hargs h (Init_Node n) \<longleftrightarrow> is_hnode h n"
| "hargs h (Add_Fake n) \<longleftrightarrow> is_hnode h n"
| "hargs h (Del n) \<longleftrightarrow> is_hnode h n"
| "hargs h (Del_Init n) \<longleftrightarrow> is_hnode h n"

fun hpoison :: "hop \<Rightarrow> addr set" where
  "hpoison (Del n) = {LIST_POISON1, LIST_POISON2}"
| "hpoison _ = {}"

text \<open>The same cells and nodes exist.\<close>

definition same_cells :: "hheap \<Rightarrow> hheap \<Rightarrow> bool" where
  "same_cells h h' \<longleftrightarrow> (\<forall>a. (hl_ptr h' a = None) = (hl_ptr h a = None) \<and> (hl_pprev h' a = None) = (hl_pprev h a = None))"

lemma same_cells_trans: "same_cells h h' \<Longrightarrow> same_cells h' h'' \<Longrightarrow> same_cells h h''"
  by (simp add: same_cells_def)

lemma same_cells_args: "same_cells h h' \<Longrightarrow> is_hnode h' n = is_hnode h n" "same_cells h h' \<Longrightarrow> hargs h' op = hargs h op"
proof -
  show n: "is_hnode h' n = is_hnode h n" if "same_cells h h'" for n using that by (simp add: same_cells_def is_hnode_def)
  show "hargs h' op = hargs h op" if "same_cells h h'" using that n by (cases op) (simp_all add: same_cells_def)
qed

lemma hwt_update:
  assumes "hwt ps h" "same_cells h h'"
    and "\<And>c v. hl_ptr h' c = Some v \<Longrightarrow> hl_ptr h c = Some v \<or> v \<in> insert 0 ps \<or> is_hnode h v"
    and "\<And>n v. hl_pprev h' n = Some v \<Longrightarrow> hl_pprev h n = Some v \<or> v \<in> insert 0 ps \<or> hl_ptr h v \<noteq> None"
  shows "hwt ps h'"
  using assms same_cells_args(1) [OF assms(2)] unfolding hwt_def same_cells_def by metis

text \<open>A sound computation returns, and leaves a well-typed heap with the same cells.\<close>

definition sound :: "addr set \<Rightarrow> hheap \<Rightarrow> hheap option \<Rightarrow> bool" where
  "sound ps h r \<longleftrightarrow> (\<exists>h'. r = Some h' \<and> hwt ps h' \<and> same_cells h h')"

named_theorems sound_rules \<open>typing rules of list computations\<close>

lemma sound_return [sound_rules]: "hwt ps h \<Longrightarrow> sound ps h (Some h)"
  by (simp add: sound_def same_cells_def)

lemma sound_set_ptr [sound_rules]:
  assumes "hwt ps h" "hl_ptr h c \<noteq> None" "v \<in> insert 0 ps \<or> is_hnode h v"
  shows "sound ps h (hset_ptr c v h)"
proof -
  have c: "same_cells h (h\<lparr>hl_ptr := (hl_ptr h)(c \<mapsto> v)\<rparr>)" using assms(2) by (simp add: same_cells_def)
  have "hwt ps (h\<lparr>hl_ptr := (hl_ptr h)(c \<mapsto> v)\<rparr>)" by (rule hwt_update [OF assms(1) c]) (use assms(3) in \<open>auto split: if_splits\<close>)
  then show ?thesis using c assms(2) by (simp add: sound_def)
qed

lemma sound_set_pprev [sound_rules]:
  assumes "hwt ps h" "hl_pprev h n \<noteq> None" "v \<in> insert 0 ps \<or> hl_ptr h v \<noteq> None"
  shows "sound ps h (hset_pprev n v h)"
proof -
  have c: "same_cells h (h\<lparr>hl_pprev := (hl_pprev h)(n \<mapsto> v)\<rparr>)" using assms(2) by (simp add: same_cells_def)
  have "hwt ps (h\<lparr>hl_pprev := (hl_pprev h)(n \<mapsto> v)\<rparr>)" by (rule hwt_update [OF assms(1) c]) (use assms(3) in \<open>auto split: if_splits\<close>)
  then show ?thesis using c assms(2) by (simp add: sound_def)
qed

lemma sound_bind [sound_rules]:
  assumes "sound ps h r" "\<And>h'. hwt ps h' \<Longrightarrow> same_cells h h' \<Longrightarrow> sound ps h' (f h')"
  shows "sound ps h (r \<bind> f)"
proof -
  obtain h1 where h1: "r = Some h1" "hwt ps h1" "same_cells h h1" using assms(1) unfolding sound_def by blast
  then obtain h2 where "f h1 = Some h2" "hwt ps h2" "same_cells h1 h2" using assms(2) unfolding sound_def by blast
  then show ?thesis using h1 same_cells_trans unfolding sound_def by simp
qed

lemma sound_read_ptr [sound_rules]:
  assumes "hwt ps h" "hl_ptr h c \<noteq> None" "\<And>v. hl_ptr h c = Some v \<Longrightarrow> v \<in> insert 0 ps \<or> is_hnode h v \<Longrightarrow> sound ps h (f v)"
  shows "sound ps h (hl_ptr h c \<bind> f)"
  using assms unfolding hwt_def by fastforce

lemma sound_read_pprev [sound_rules]:
  assumes "hwt ps h" "hl_pprev h n \<noteq> None" "\<And>v. hl_pprev h n = Some v \<Longrightarrow> v \<in> insert 0 ps \<or> hl_ptr h v \<noteq> None \<Longrightarrow> sound ps h (f v)"
  shows "sound ps h (hl_pprev h n \<bind> f)"
  using assms unfolding hwt_def by fastforce

lemma sound_if [sound_rules]: "(b \<Longrightarrow> sound ps h r) \<Longrightarrow> (\<not> b \<Longrightarrow> sound ps h r') \<Longrightarrow> sound ps h (if b then r else r')"
  by simp

lemma hwt_mono: "hwt ps h \<Longrightarrow> ps \<subseteq> qs \<Longrightarrow> hwt qs h"
  unfolding hwt_def by blast

lemma same_cells_keep:
  "same_cells h h' \<Longrightarrow> hl_ptr h a \<noteq> None \<Longrightarrow> hl_ptr h' a \<noteq> None" "same_cells h h' \<Longrightarrow> hl_pprev h a \<noteq> None \<Longrightarrow> hl_pprev h' a \<noteq> None"
  "same_cells h h' \<Longrightarrow> is_hnode h a \<Longrightarrow> is_hnode h' a" "is_hnode h a \<Longrightarrow> hl_ptr h a \<noteq> None" "is_hnode h a \<Longrightarrow> hl_pprev h a \<noteq> None"
  by (simp_all only: same_cells_args(1)) (simp_all add: same_cells_def is_hnode_def)

text \<open>The fields an operation follows hold neither null nor poison.\<close>

definition follows :: "addr option \<Rightarrow> addr set \<Rightarrow> bool" where
  "follows v ps \<longleftrightarrow> (\<forall>p \<in> ps. v \<noteq> Some p)"

fun hready :: "addr set \<Rightarrow> hheap \<Rightarrow> hop \<Rightarrow> bool" where
  "hready ps h (Add_Head n a) \<longleftrightarrow> follows (hl_ptr h a) ps"
| "hready ps h (Add_Before n m) \<longleftrightarrow> follows (hl_pprev h m) (insert 0 ps)"
| "hready ps h (Add_Behind n m) \<longleftrightarrow> follows (hl_ptr h m) ps"
| "hready ps h (Del n) \<longleftrightarrow> follows (hl_ptr h n) ps \<and> follows (hl_pprev h n) (insert 0 ps)"
| "hready ps h (Del_Init n) \<longleftrightarrow> follows (hl_ptr h n) ps \<and> follows (hl_pprev h n) ps"
| "hready ps h (Move_List a b) \<longleftrightarrow> follows (hl_ptr h a) ps"
| "hready ps h _ \<longleftrightarrow> True"

lemma del_node_sound:
  assumes "hwt ps h" "is_hnode h n" "follows (hl_ptr h n) ps" "follows (hl_pprev h n) (insert 0 ps)"
  shows "sound ps h (hlist_del_node n h)"
  unfolding hlist_del_node_def
proof (rule sound_read_ptr [OF assms(1)])
  fix next' assume n: "hl_ptr h n = Some next'" "next' \<in> insert 0 ps \<or> is_hnode h next'"
  show "sound ps h (hl_pprev h n \<bind> (\<lambda>p. hset_ptr p next' h \<bind> (\<lambda>h. if next' \<noteq> 0 then hset_pprev next' p h else Some h)))"
  proof (rule sound_read_pprev [OF assms(1)])
    fix p assume p: "hl_pprev h n = Some p" "p \<in> insert 0 ps \<or> hl_ptr h p \<noteq> None"
    have c: "hl_ptr h p \<noteq> None" "next' \<noteq> 0 \<Longrightarrow> hl_pprev h next' \<noteq> None"
      using p n assms(3,4) by (auto simp: follows_def is_hnode_def)
    show "sound ps h (hset_ptr p next' h \<bind> (\<lambda>h. if next' \<noteq> 0 then hset_pprev next' p h else Some h))"
      by (intro sound_rules) (use assms(1) n(2) c in \<open>auto dest: same_cells_keep\<close>)
  qed (rule same_cells_keep(5) [OF assms(2)])
qed (rule same_cells_keep(4) [OF assms(2)])

lemma add_head_sound:
  assumes "hwt ps h" "is_hnode h n" "hl_ptr h a \<noteq> None" "follows (hl_ptr h a) ps"
  shows "sound ps h (hlist_add_head n a h)"
  unfolding hlist_add_head_def
proof (rule sound_read_ptr [OF assms(1,3)])
  fix f assume f: "hl_ptr h a = Some f" "f \<in> insert 0 ps \<or> is_hnode h f"
  have c: "f \<noteq> 0 \<Longrightarrow> hl_pprev h f \<noteq> None" using f assms(4) by (auto simp: follows_def is_hnode_def)
  show "sound ps h (hset_ptr n f h \<bind> (\<lambda>h. (if f \<noteq> 0 then hset_pprev f n h else Some h) \<bind> (\<lambda>h. hset_ptr a n h \<bind> hset_pprev n a)))"
    using assms(1) f(2) c same_cells_keep(4,5) [OF assms(2)] assms(2,3)
    by (intro sound_rules) (auto simp: same_cells_def is_hnode_def)
qed

lemma add_before_sound:
  assumes "hwt ps h" "is_hnode h n" "is_hnode h m" "follows (hl_pprev h m) (insert 0 ps)"
  shows "sound ps h (hlist_add_before n m h)"
proof -
  obtain p where p: "hl_pprev h m = Some p" "hl_ptr h p \<noteq> None"
    using assms(1,3,4) unfolding hwt_def is_hnode_def follows_def by blast
  let ?q = "if n = m then n else p"
  have e: "hlist_add_before n m h =
      hset_pprev n p h \<bind> (\<lambda>h. hset_ptr n m h \<bind> (\<lambda>h. hset_pprev m n h \<bind> (\<lambda>h. hset_ptr ?q n h)))"
    using p assms(2,3) by (auto simp: hlist_add_before_def is_hnode_def)
  have q: "hl_ptr h ?q \<noteq> None" using p(2) assms(2) by (auto simp: is_hnode_def)
  show ?thesis
    unfolding e using assms(1-3) p(2) q same_cells_keep(4,5) [OF assms(2)] same_cells_keep(5) [OF assms(3)]
    by (intro sound_rules) (auto simp: same_cells_def is_hnode_def)
qed

lemma add_behind_sound:
  assumes "hwt ps h" "is_hnode h n" "is_hnode h m" "follows (hl_ptr h m) ps"
  shows "sound ps h (hlist_add_behind n m h)"
proof -
  obtain f where f: "hl_ptr h m = Some f" "f = 0 \<or> is_hnode h f"
    using assms(1,3,4) unfolding hwt_def is_hnode_def follows_def by blast
  let ?f = "if n = m then n else f"
  have e: "hlist_add_behind n m h =
      hset_ptr n f h \<bind> (\<lambda>h. hset_ptr m n h \<bind> (\<lambda>h. hset_pprev n m h \<bind> (\<lambda>h. if ?f \<noteq> 0 then hset_pprev ?f n h else Some h)))"
    using f(1) assms(2,3) by (auto simp: hlist_add_behind_def is_hnode_def)
  have c: "?f \<noteq> 0 \<Longrightarrow> hl_pprev h ?f \<noteq> None" using f(2) assms(2) by (auto simp: is_hnode_def)
  show ?thesis
    unfolding e using assms(1-3) f(2) c same_cells_keep(4,5) [OF assms(2)] same_cells_keep(4) [OF assms(3)]
    by (intro sound_rules) (auto simp: same_cells_def is_hnode_def)
qed

lemma move_list_sound:
  assumes "hwt ps h" "hl_ptr h a \<noteq> None" "hl_ptr h b \<noteq> None" "follows (hl_ptr h a) ps"
  shows "sound ps h (hlist_move_list a b h)"
proof -
  obtain f where f: "hl_ptr h a = Some f" "f = 0 \<or> is_hnode h f"
    using assms(1,2,4) unfolding hwt_def follows_def by blast
  have e: "hlist_move_list a b h = hset_ptr b f h \<bind> (\<lambda>h. (if f \<noteq> 0 then hset_pprev f b h else Some h) \<bind> hset_ptr a 0)"
    using f(1) assms(3) by (auto simp: hlist_move_list_def)
  have c: "f \<noteq> 0 \<Longrightarrow> hl_pprev h f \<noteq> None" using f(2) by (auto simp: is_hnode_def)
  show ?thesis
    unfolding e using assms(1-3) f(2) c by (intro sound_rules) (auto simp: same_cells_def is_hnode_def)
qed

lemma hexec_sound:
  assumes "hwt ps h" "hargs h op" "hready ps h op"
  shows "sound (ps \<union> hpoison op) h (hexec op h)"
proof (cases op)
  case (Init_Node n)
  then show ?thesis using assms same_cells_keep(4,5) [of h n]
    by simp (unfold INIT_HLIST_NODE_def, intro sound_rules; auto simp: same_cells_def)
next
  case (Del n)
  let ?ps = "ps \<union> hpoison op"
  have n: "is_hnode h n" "sound ps h (hlist_del_node n h)" using Del assms del_node_sound by simp_all
  then obtain h1 where h1: "hlist_del_node n h = Some h1" "hwt ps h1" "same_cells h h1" unfolding sound_def by blast
  have "sound ?ps h1 (hset_ptr n LIST_POISON1 h1 \<bind> hset_pprev n LIST_POISON2)"
    using hwt_mono [OF h1(2), of ?ps] n(1) h1(3) Del by (intro sound_rules) (auto simp: same_cells_def is_hnode_def)
  then show ?thesis using Del h1(1,3) same_cells_trans unfolding sound_def by (auto simp: hlist_del_def)
next
  case (Del_Init n)
  obtain p where p: "hl_pprev h n = Some p" using Del_Init assms by (auto simp: is_hnode_def)
  have "sound ps h (hlist_del_node n h \<bind> INIT_HLIST_NODE n)" if "p \<noteq> 0"
  proof (rule sound_bind [OF del_node_sound])
    show "sound ps h' (INIT_HLIST_NODE n h')" if "hwt ps h'" "same_cells h h'" for h'
      unfolding INIT_HLIST_NODE_def using that Del_Init assms(2) by (intro sound_rules) (auto simp: same_cells_def is_hnode_def)
  qed (use Del_Init assms p that in \<open>auto simp: follows_def\<close>)
  then show ?thesis using Del_Init p assms(1) by (auto simp: hlist_del_init_def hlist_unhashed_def intro: sound_return)
next
  case (Init_Head a)
  then show ?thesis using assms sound_set_ptr [of ps h a 0] by (simp add: INIT_HLIST_HEAD_def)
next
  case (Add_Fake n)
  then show ?thesis using assms sound_set_pprev [of ps h n n] same_cells_keep(4,5) [of h n] by (simp add: hlist_add_fake_def)
qed (use assms in \<open>auto intro!: add_head_sound add_before_sound add_behind_sound move_list_sound\<close>)

text \<open>No operation makes a cell or a node disappear.\<close>

lemma hset_cells: "hset_ptr c v h = Some h' \<Longrightarrow> same_cells h h'" "hset_pprev n v h = Some h' \<Longrightarrow> same_cells h h'"
  by (auto simp: hset_ptr_def hset_pprev_def same_cells_def split: option.splits if_splits)

definition keeps :: "hheap \<Rightarrow> hheap option \<Rightarrow> bool" where
  "keeps h r \<longleftrightarrow> (\<forall>h'. r = Some h' \<longrightarrow> same_cells h h')"

lemma keeps_rules:
  "keeps h (Some h)" "keeps h (hset_ptr c v h)" "keeps h (hset_pprev n v h)"
  "(b \<Longrightarrow> keeps h r) \<Longrightarrow> (\<not> b \<Longrightarrow> keeps h r') \<Longrightarrow> keeps h (if b then r else r')"
  by (simp_all add: keeps_def hset_cells) (simp add: same_cells_def)

lemma keeps_read:
  fixes m :: "addr option" and u :: "bool option"
  shows "(\<And>v. keeps h (f v)) \<Longrightarrow> keeps h (m \<bind> f)" "(\<And>v. keeps h (g v)) \<Longrightarrow> keeps h (u \<bind> g)"
  unfolding keeps_def by (cases m; auto) (cases u; auto)

lemma keeps_bind:
  assumes "keeps h r" "\<And>h'. keeps h' (f h')"
  shows "keeps h (r \<bind> f)"
  unfolding keeps_def
proof (intro allI impI)
  fix h2 assume "r \<bind> f = Some h2"
  then obtain h1 where "r = Some h1" "f h1 = Some h2" by (auto simp: bind_eq_Some_conv)
  then show "same_cells h h2" using assms same_cells_trans unfolding keeps_def by blast
qed

lemma hexec_cells: "hexec op h = Some h' \<Longrightarrow> same_cells h h'"
proof -
  have d: "keeps h (hlist_del_node n h)" "keeps h (INIT_HLIST_NODE n h)" for n h
    unfolding hlist_del_node_def INIT_HLIST_NODE_def by (intro keeps_read keeps_bind keeps_rules)+
  have "keeps h (hexec op h)"
    by (cases op; simp only: hexec.simps INIT_HLIST_HEAD_def hlist_add_head_def hlist_add_before_def hlist_add_behind_def hlist_add_fake_def
        hlist_del_def hlist_del_init_def hlist_move_list_def; intro d keeps_read keeps_bind keeps_rules)
  then show "hexec op h = Some h' \<Longrightarrow> same_cells h h'" by (simp add: keeps_def)
qed

section \<open>Refinement\<close>

text \<open>The abstract state: the sequence of every head, and the free nodes. An operation is allowed on
  the nodes of a list, or with a free node as the new one.\<close>

type_synonym hlists = "(addr \<rightharpoonup> addr list) \<times> addr set"

inductive hspec :: "hop \<Rightarrow> hlists \<Rightarrow> hlists \<Rightarrow> bool" where
  Spec_Add_Head: "ls a = Some xs \<Longrightarrow> n \<in> N \<Longrightarrow> hspec (Add_Head n a) (ls, N) (ls(a \<mapsto> n # xs), N - {n})"
| Spec_Add_Before: "ls a = Some (xs @ y # ys) \<Longrightarrow> n \<in> N \<Longrightarrow> hspec (Add_Before n y) (ls, N) (ls(a \<mapsto> xs @ n # y # ys), N - {n})"
| Spec_Add_Behind: "ls a = Some (xs @ y # ys) \<Longrightarrow> n \<in> N \<Longrightarrow> hspec (Add_Behind n y) (ls, N) (ls(a \<mapsto> xs @ y # n # ys), N - {n})"
| Spec_Del: "ls a = Some (xs @ y # ys) \<Longrightarrow> hspec (Del y) (ls, N) (ls(a \<mapsto> xs @ ys), insert y N)"
| Spec_Del_Init: "ls a = Some (xs @ y # ys) \<Longrightarrow> hspec (Del_Init y) (ls, N) (ls(a \<mapsto> xs @ ys), insert y N)"
| Spec_Move_List: "ls a = Some xs \<Longrightarrow> ls b = Some [] \<Longrightarrow> a \<noteq> b \<Longrightarrow> hspec (Move_List a b) (ls, N) (ls(a \<mapsto> [], b \<mapsto> xs), N)"

inductive hspecs :: "hop list \<Rightarrow> hlists \<Rightarrow> hlists \<Rightarrow> bool" where
  Specs_Nil: "hspecs [] s s"
| Specs_Cons: "hspec op s s' \<Longrightarrow> hspecs ops s' s'' \<Longrightarrow> hspecs (op # ops) s s''"

definition habs :: "hheap \<Rightarrow> hlists \<Rightarrow> bool" where
  "habs h s \<longleftrightarrow> (\<forall>a xs. fst s a = Some xs \<longrightarrow> a \<noteq> 0 \<and> hlist h a xs \<and> set (a # xs) \<inter> snd s = {}) \<and>
     (\<forall>a b xs ys. fst s a = Some xs \<longrightarrow> fst s b = Some ys \<longrightarrow> a \<noteq> b \<longrightarrow> set (a # xs) \<inter> set (b # ys) = {}) \<and>
     (\<forall>n \<in> snd s. is_hnode h n)"

lemma habsD:
  assumes "habs h (ls, N)"
  shows "ls a = Some xs \<Longrightarrow> a \<noteq> 0" "ls a = Some xs \<Longrightarrow> hlist h a xs" "ls a = Some xs \<Longrightarrow> set (a # xs) \<inter> N = {}"
    "ls a = Some xs \<Longrightarrow> ls b = Some ys \<Longrightarrow> a \<noteq> b \<Longrightarrow> set (a # xs) \<inter> set (b # ys) = {}" "n \<in> N \<Longrightarrow> is_hnode h n"
  using assms by (simp_all add: habs_def)

text \<open>One list has changed, within its own nodes and the free ones.\<close>

lemma habs_update:
  assumes s: "habs h (ls, N)" and a: "ls a = Some xs" and l: "hlist h' a ys" and k: "hkept A h h'" "A \<subseteq> set (a # xs) \<union> N" "same_cells h h'"
    and n: "set ys \<union> N' \<subseteq> set xs \<union> N" "set ys \<inter> N' = {}"
  shows "habs h' (ls(a \<mapsto> ys), N')"
proof -
  note d = habsD [OF s]
  have aN: "a \<notin> set xs \<union> N" using d(2,3) [OF a] by (auto simp: hlist_def)
  have other: "set (b # zs) \<inter> (set (a # xs) \<union> N) = {}" if "ls b = Some zs" "b \<noteq> a" for b zs
    using d(3) [OF that(1)] d(4) [OF that(1) a that(2)] by blast
  have "is_hnode h m" if "m \<in> N'" for m
  proof -
    have "m \<in> set xs \<or> m \<in> N" using that n(1) by blast
    then show ?thesis using d(5) hseg_nodes [of h a xs 0 m] d(2) [OF a] by (auto simp: hlist_def)
  qed
  then have nodes: "is_hnode h' m" if "m \<in> N'" for m using that same_cells_keep(3) [OF k(3)] by blast
  have new: "set (a # ys) \<inter> N' = {}" using n aN by auto
  have b: "hlist h' b zs" "set (b # zs) \<inter> N' = {}" "set (b # zs) \<inter> set (a # ys) = {}" if "ls b = Some zs" "b \<noteq> a" for b zs
  proof -
    show "hlist h' b zs" by (rule hlist_kept [OF k(1) _ d(2) [OF that(1)]]) (use other [OF that] k(2) in blast)
    show "set (b # zs) \<inter> N' = {}" using other [OF that] n(1) by auto
    show "set (b # zs) \<inter> set (a # ys) = {}" using other [OF that] n(1) by auto
  qed
  have one: "c \<noteq> 0 \<and> hlist h' c zs \<and> set (c # zs) \<inter> N' = {}" if "(ls(a \<mapsto> ys)) c = Some zs" for c zs
    using that d(1) a l new b(1,2) by (cases "c = a") auto
  have two: "set (c # xs') \<inter> set (c' # ys') = {}" if "(ls(a \<mapsto> ys)) c = Some xs'" "(ls(a \<mapsto> ys)) c' = Some ys'" "c \<noteq> c'" for c c' xs' ys'
  proof (cases "c = a")
    case True
    then show ?thesis using that b(3) [of c' ys'] by auto
  next
    case False
    then show ?thesis using that b(3) [of c xs'] d(4) [of c xs' c' ys'] by (cases "c' = a") auto
  qed
  show ?thesis
    unfolding habs_def fst_conv snd_conv using one two nodes by blast
qed

lemma hspec_move:
  assumes s: "habs h (ls, N)" and a: "ls a = Some xs" "ls b = Some []" "a \<noteq> b"
  shows "\<exists>h'. hlist_move_list a b h = Some h' \<and> habs h' (ls(a \<mapsto> [], b \<mapsto> xs), N)"
proof -
  note d = habsD [OF s]
  have b: "b \<notin> set (a # xs)" "hl_ptr h b \<noteq> None" using d(4) [OF a] d(2) [OF a(2)] by (auto simp: hlist_def)
  obtain h' where h': "hlist_move_list a b h = Some h'" "hlist h' b xs" "hlist h' a []" "hkept (set (a # b # xs)) h h'"
    by (rule hlist_move_list_list [OF d(2) [OF a(1)] b(2,1)])
  have nodes: "is_hnode h' m" if "m \<in> N" for m
    using d(5) [OF that] same_cells_keep(3) [of h h'] h'(1) hexec_cells [of "Move_List a b" h h'] by simp
  let ?ls = "ls(a \<mapsto> [], b \<mapsto> xs)"
  have o': "set (c # zs) \<inter> set (a # b # xs) = {}" if "ls c = Some zs" "c \<noteq> a" "c \<noteq> b" for c zs
    using d(4) [OF that(1) a(1) that(2)] d(4) [OF that(1) a(2) that(3)] by auto
  have one: "c \<noteq> 0 \<and> hlist h' c zs \<and> set (c # zs) \<inter> N = {}" if "?ls c = Some zs" for c zs
  proof (cases "c = a \<or> c = b")
    case True
    then show ?thesis using that a(3) h'(2,3) d(1,3) [OF a(1)] d(1,3) [OF a(2)] by auto
  next
    case False
    then have c: "ls c = Some zs" "c \<noteq> a" "c \<noteq> b" using that by auto
    then show ?thesis using d(1,3) [OF c(1)] hlist_kept [OF h'(4) o' [OF c] d(2) [OF c(1)]] by simp
  qed
  have two: "set (c # xs') \<inter> set (c' # ys') = {}" if "?ls c = Some xs'" "?ls c' = Some ys'" "c \<noteq> c'" for c c' xs' ys'
  proof -
    have "ls c = Some xs' \<and> c \<noteq> a \<and> c \<noteq> b \<or> c = a \<and> xs' = [] \<or> c = b \<and> xs' = xs"
      "ls c' = Some ys' \<and> c' \<noteq> a \<and> c' \<noteq> b \<or> c' = a \<and> ys' = [] \<or> c' = b \<and> ys' = xs"
      using that(1,2) by (auto split: if_splits)
    then show ?thesis using that(3) o' [of c xs'] o' [of c' ys'] d(4) [of c xs' c' ys'] d(2) [OF a(1)] b(1) by (auto simp: hlist_def)
  qed
  have "habs h' (?ls, N)" unfolding habs_def fst_conv snd_conv using one two nodes by blast
  with h'(1) show ?thesis by blast
qed

lemma habs_free: "habs h (ls, N) \<Longrightarrow> n \<in> N \<Longrightarrow> ls a = Some xs \<Longrightarrow> n \<notin> set (a # xs)"
  using habsD(3) [of h ls N a xs] by blast

lemma habs_insert:
  assumes "habs h (ls, N)" "ls a = Some xs" "n \<in> N" "hexec op h = Some h'" "hlist h' a zs" "hkept (set (a # n # xs)) h h'"
    and "set zs = insert n (set xs)"
  shows "\<exists>h'. hexec op h = Some h' \<and> habs h' (ls(a \<mapsto> zs), N - {n})"
  using habs_update [OF assms(1,2,5,6) _ hexec_cells [OF assms(4)], of "N - {n}"] habsD(3) [OF assms(1,2)] assms(3,4,7) by auto

lemma habs_remove:
  assumes "habs h (ls, N)" "ls a = Some (xs @ y # ys)" "hexec op h = Some h'" "hlist h' a (xs @ ys)" "hkept (set (a # xs @ y # ys)) h h'"
  shows "\<exists>h'. hexec op h = Some h' \<and> habs h' (ls(a \<mapsto> xs @ ys), insert y N)"
proof -
  have "y \<notin> set (xs @ ys)" using habsD(2) [OF assms(1,2)] by (auto simp: hlist_def)
  then show ?thesis
    using habs_update [OF assms(1,2,4,5) _ hexec_cells [OF assms(3)], of "insert y N"] habsD(3) [OF assms(1,2)] assms(3) by auto
qed

lemma hspec_step:
  assumes "hspec op s s'" "habs h s"
  shows "\<exists>h'. hexec op h = Some h' \<and> habs h' s'"
  using assms
proof (induction rule: hspec.induct)
  case (Spec_Add_Head ls a xs n N)
  note l = habsD(2) [OF Spec_Add_Head(3,1)] habsD(5) [OF Spec_Add_Head(3,2)] habs_free [OF Spec_Add_Head(3,2,1)]
  show ?case by (rule hlist_add_head_list [OF l], rule habs_insert [OF Spec_Add_Head(3,1,2)]) simp_all
next
  case (Spec_Add_Before ls a xs y ys n N)
  note l = habsD(2) [OF Spec_Add_Before(3,1)] habsD(5) [OF Spec_Add_Before(3,2)] habs_free [OF Spec_Add_Before(3,2,1)]
  show ?case by (rule hlist_add_before_list [OF l], rule habs_insert [OF Spec_Add_Before(3,1,2)]) auto
next
  case (Spec_Add_Behind ls a xs y ys n N)
  note l = habsD(2) [OF Spec_Add_Behind(3,1)] habsD(5) [OF Spec_Add_Behind(3,2)] habs_free [OF Spec_Add_Behind(3,2,1)]
  show ?case by (rule hlist_add_behind_list [OF l], rule habs_insert [OF Spec_Add_Behind(3,1,2)]) auto
next
  case (Spec_Del ls a xs y ys N)
  show ?case by (rule hlist_del_list [OF habsD(2) [OF Spec_Del(2,1)]], rule habs_remove [OF Spec_Del(2,1)]) simp_all
next
  case (Spec_Del_Init ls a xs y ys N)
  show ?case
    by (rule hlist_del_init_list [OF habsD(2,1) [OF Spec_Del_Init(2,1)]], rule habs_remove [OF Spec_Del_Init(2,1)]) simp_all
next
  case (Spec_Move_List ls a xs b N)
  then show ?case by (simp add: hspec_move)
qed

lemma hspecs_run: "hspecs ops s s' \<Longrightarrow> habs h s \<Longrightarrow> \<exists>h'. hrun ops h = Some h' \<and> habs h' s'"
proof (induction arbitrary: h rule: hspecs.induct)
  case (Specs_Cons op s s' ops s'')
  obtain h1 where "hexec op h = Some h1" "habs h1 s'" using hspec_step [OF Specs_Cons(1,4)] by blast
  with Specs_Cons(3) show ?case by fastforce
qed simp

section \<open>The common contract of the lists\<close>

interpretation hl: node_list hlist is_hnode "\<lambda>h h' A. hkept A h h'" hlist_add_head hlist_del
  "\<lambda>off head h. map_option (map (hlist_entry off)) (hlist_for_each head h)"
proof
  show "distinct (head # xs)" if "hlist h head xs" for h head xs using that by (simp add: hlist_def)
  show "hlist h' head xs" if "hlist h head xs" "hkept A h h'" "A \<inter> set (head # xs) = {}" for h head xs h' A
    using hlist_kept that by blast
  show "\<exists>h'. hlist_add_head new head h = Some h' \<and> hlist h' head (new # xs) \<and> hkept (set (new # head # xs)) h h'"
    if "hlist h head xs" "is_hnode h new" "new \<notin> set (head # xs)" for h head xs new
    by (rule hlist_add_head_list [OF that]) (simp add: insert_commute)
  show "\<exists>h'. hlist_del e h = Some h' \<and> hlist h' head (ys @ zs) \<and> hkept (set (e # head # ys @ zs)) h h'"
    if "hlist h head (ys @ e # zs)" for h head ys e zs
    by (rule hlist_del_list [OF that]) (simp add: insert_commute)
  show "map_option (map (hlist_entry off)) (hlist_for_each head h) = Some (map (list_entry off) xs)" if "hlist h head xs" for h head xs off
    using hlist_for_each_nodes [OF that] by (simp add: hlist_entry_def list_entry_def)
qed

section \<open>Properties\<close>

lemma hlist_for_each_entry_safe_clears:
  assumes "hlist h head xs" "off \<notin> set xs"
  shows "\<exists>h'. hlist_for_each_entry_safe (\<lambda>e. hlist_del (e + off)) off head h = Some h' \<and> hlist_for_each_safe hlist_del head h = Some h' \<and>
    hlist h' head [] \<and> hlist_empty head h' = Some True"
proof -
  obtain p where p: "hl_ptr h head = Some p" using hseg_head [of h head xs 0] assms(1) by (auto simp: hlist_def)
  obtain h' where "hlist_loop_safe hlist_del p h = Some h'" "hlist h' head []"
    using hlist_loop_safe_del [OF assms(1) p] by blast
  then show ?thesis
    using p hlist_entry_loop_safe_eq [OF assms(1) p assms(2)]
    by (simp add: hlist_for_each_entry_safe_def hlist_for_each_safe_def hlist_def hlist_empty_def)
qed

text \<open>Operations that neither leave poison behind nor need a node that is in a list.\<close>

fun hsafe :: "hop \<Rightarrow> bool" where
  "hsafe (Del n) = False"
| "hsafe (Add_Before n m) = False"
| "hsafe _ = True"

lemma hsafe_sound: "hsafe op \<Longrightarrow> hwt {} h \<Longrightarrow> hargs h op \<Longrightarrow> sound {} h (hexec op h)"
  using hexec_sound [of "{}" h op] by (cases op) (auto simp: follows_def)

lemma hsafe_run:
  "\<forall>op \<in> set ops. hargs h op \<and> hsafe op \<Longrightarrow> hwt {} h \<Longrightarrow> sound {} h (hrun ops h)"
proof (induction ops arbitrary: h)
  case (Cons op ops)
  show ?case
    unfolding hrun.simps
  proof (rule sound_bind)
    show "sound {} h (hexec op h)" using Cons.prems hsafe_sound by simp
    show "sound {} h' (hrun ops h')" if "hwt {} h'" "same_cells h h'" for h'
      using that Cons.prems same_cells_args(2) [OF that(2)] by (intro Cons.IH) auto
  qed
qed (simp add: sound_return)

text \<open>
  C31. Typing of the heap of \<open>hlist\<close> nodes: every operation with arguments of the right kind keeps each
  pointer field at null, poison or an object of its type, and it does not fault as long as the
  fields it follows hold neither poison nor, where a node has to be in a list, null. From a
  heap without poison every sequence of initialisations, insertions at the head or behind a
  node, safe removals and moves runs without a fault.
\<close>

theorem hlist_type_sound:
  assumes "hwt ps h" "hargs h op"
  shows "(hready ps h op \<longrightarrow> (\<exists>h'. hexec op h = Some h' \<and> hwt (ps \<union> hpoison op) h' \<and> same_cells h h')) \<and>
    (ps = {} \<and> (\<forall>op \<in> set ops. hargs h op \<and> hsafe op) \<longrightarrow> (\<exists>h'. hrun ops h = Some h' \<and> hwt {} h' \<and> same_cells h h'))"
  using hexec_sound [OF assms] hsafe_run [of ops h] assms(1) by (auto simp: sound_def)

definition sample_hheap :: hheap where
  "sample_hheap = \<lparr>hl_ptr = [0x10 \<mapsto> 0x20, 0x20 \<mapsto> 0x30, 0x30 \<mapsto> 0, 0x40 \<mapsto> 0, 0x50 \<mapsto> 0],
     hl_pprev = [0x20 \<mapsto> 0x10, 0x30 \<mapsto> 0x20, 0x40 \<mapsto> 0]\<rparr>"

lemma sample_hheap_typed: "hwt {} sample_hheap"
  by (auto simp: hwt_def sample_hheap_def is_hnode_def split: if_splits)

theorem hlist_type_sound_witness:
  "(\<exists>h'. hexec (Del 0x20) sample_hheap = Some h' \<and> hwt {LIST_POISON1, LIST_POISON2} h') \<and>
    (\<exists>h'. hrun [Add_Behind 0x40 0x20, Del_Init 0x20, Move_List 0x10 0x50] sample_hheap = Some h' \<and> hwt {} h')"
  using hlist_type_sound [OF sample_hheap_typed, of "Del 0x20" "[Add_Behind 0x40 0x20, Del_Init 0x20, Move_List 0x10 0x50]"]
  by (auto simp: sample_hheap_def is_hnode_def follows_def)

text \<open>
  C30. The \<open>hlist\<close> operations refine operations on sequences: for every family of disjoint lists and free
  nodes, a run of insertions, removals and moves that the sequences allow runs on the heap
  without a fault, ends in lists that link exactly the resulting sequences, and a traversal of
  any of them visits its sequence.
\<close>

theorem hlist_runs_refine:
  assumes "habs h s" "hspecs ops s s'"
  shows "\<exists>h'. hrun ops h = Some h' \<and> habs h' s' \<and> (\<forall>a xs. fst s' a = Some xs \<longrightarrow> hlist_for_each a h' = Some xs)"
  using hspecs_run [OF assms(2,1)] hlist_for_each_nodes unfolding habs_def by blast

definition sample_hlists :: hlists where
  "sample_hlists = ([0x10 \<mapsto> [0x20, 0x30], 0x50 \<mapsto> []], {0x40})"

lemma sample_hlists_ok: "habs sample_hheap sample_hlists"
  by (auto simp: habs_def sample_hlists_def sample_hheap_def hlist_def is_hnode_def split: if_splits)

theorem hlist_runs_refine_witness:
  "\<exists>h'. hrun [Add_Behind 0x40 0x20, Del 0x20, Move_List 0x10 0x50] sample_hheap = Some h' \<and> hlist_for_each 0x50 h' = Some [0x40, 0x30]"
proof -
  have "hspec (Add_Behind 0x40 0x20) sample_hlists ([0x10 \<mapsto> [0x20, 0x40, 0x30], 0x50 \<mapsto> []], {})"
    using Spec_Add_Behind [of "fst sample_hlists" "0x10" "[]" "0x20" "[0x30]" "0x40" "{0x40}"]
    by (simp add: sample_hlists_def fun_upd_twist)
  moreover have "hspec (Del 0x20) ([0x10 \<mapsto> [0x20, 0x40, 0x30], 0x50 \<mapsto> []], {}) ([0x10 \<mapsto> [0x40, 0x30], 0x50 \<mapsto> []], {0x20})"
    using Spec_Del [of "[0x10 \<mapsto> [0x20, 0x40, 0x30], 0x50 \<mapsto> []]" "0x10" "[]" "0x20" "[0x40, 0x30]" "{}"] by (simp add: fun_upd_twist)
  moreover have "hspec (Move_List 0x10 0x50) ([0x10 \<mapsto> [0x40, 0x30], 0x50 \<mapsto> []], {0x20}) ([0x10 \<mapsto> [], 0x50 \<mapsto> [0x40, 0x30]], {0x20})"
    using Spec_Move_List [of "[0x10 \<mapsto> [0x40, 0x30], 0x50 \<mapsto> []]" "0x10" "[0x40, 0x30]" "0x50" "{0x20}"] by simp
  ultimately have "hspecs [Add_Behind 0x40 0x20, Del 0x20, Move_List 0x10 0x50] sample_hlists ([0x10 \<mapsto> [], 0x50 \<mapsto> [0x40, 0x30]], {0x20})"
    by (intro Specs_Cons [OF _ Specs_Cons [OF _ Specs_Cons [OF _ Specs_Nil]]])
  from hlist_runs_refine [OF sample_hlists_ok this] show ?thesis by auto
qed

end
