(* ===== verification/Heap.thy ===== *)
theory Heap
  imports Kmalloc Linked_List
begin

text \<open>
  Objects on the heap that are linked into lists. The C library's allocator is described by the
  blocks it has handed out; a new block is disjoint from all others. From this follows that a
  list node inside a new object is none of the nodes in use, so that objects of different
  kinds can be added to and taken from their lists independently. Static objects count as
  blocks that are never freed.
\<close>

section \<open>Blocks\<close>

definition span :: "addr \<Rightarrow> nat \<Rightarrow> addr set" where
  "span p n = (\<lambda>i. p + of_nat i) ` {..<n}"

definition blocks_apart :: "(addr \<rightharpoonup> nat) \<Rightarrow> bool" where
  "blocks_apart B \<longleftrightarrow>
     (\<forall>p q m n. B p = Some m \<and> B q = Some n \<and> p \<noteq> q \<longrightarrow> span p m \<inter> span q n = {})"

definition new_block :: "(addr \<rightharpoonup> nat) \<Rightarrow> (addr \<rightharpoonup> nat) \<Rightarrow> addr \<Rightarrow> nat \<Rightarrow> bool" where
  "new_block B B' p n \<longleftrightarrow> p \<noteq> 0 \<and> B p = None \<and> B' = B(p \<mapsto> n) \<and>
     (\<forall>q m. B q = Some m \<longrightarrow> span p n \<inter> span q m = {})"

text \<open>
  The documented behaviour of the allocator: a successful call hands out a new block of the
  requested size, a failed one none, and \<open>free\<close> takes back exactly the given block.
\<close>

definition alloc_law :: "('h \<Rightarrow> addr \<rightharpoonup> nat) \<Rightarrow> u32 \<Rightarrow> 'h \<Rightarrow> block option \<times> 'h \<Rightarrow> bool" where
  "alloc_law blocks n h r \<longleftrightarrow>
     (case r of (None, h') \<Rightarrow> blocks h' = blocks h
      | (Some (p, bs), h') \<Rightarrow> length bs = unat n \<and> new_block (blocks h) (blocks h') p (unat n))"

definition heap_ok :: "'h libc \<Rightarrow> ('h \<Rightarrow> addr \<rightharpoonup> nat) \<Rightarrow> bool" where
  "heap_ok L blocks \<longleftrightarrow>
     (\<forall>n h. alloc_law blocks n h (ext_malloc L n h)) \<and>
     (\<forall>n g h. alloc_law blocks n h (ext_kmalloc_order L n g h)) \<and>
     (\<forall>m n h. alloc_law blocks (m * n) h (ext_calloc L m n h)) \<and>
     (\<forall>p h. blocks (ext_free L p h) = (blocks h)(p := None))"

lemma span_mem: "i < n \<Longrightarrow> p + of_nat i \<in> span p n"
  by (auto simp: span_def)

lemma span_mem_word: "unat i < n \<Longrightarrow> p + i \<in> span p n" for i :: u32
  using span_mem [of "unat i" n p] by simp

lemma blocks_apartD:
  "blocks_apart B \<Longrightarrow> B p = Some m \<Longrightarrow> B q = Some n \<Longrightarrow> p \<noteq> q \<Longrightarrow> unat i < m \<Longrightarrow> unat j < n \<Longrightarrow>
     p + i \<noteq> q + j" for i j :: u32
  unfolding blocks_apart_def by (metis disjoint_iff span_mem_word)

lemma new_block_apart: "new_block B B' p n \<Longrightarrow> blocks_apart B \<Longrightarrow> blocks_apart B'"
  unfolding blocks_apart_def new_block_def
  by (simp add: disjoint_iff) metis

lemma blocks_apart_free: "blocks_apart B \<Longrightarrow> blocks_apart (B(p := None))"
  by (simp add: blocks_apart_def)

lemma new_block_other: "new_block B B' p n \<Longrightarrow> B q = Some m \<Longrightarrow> B' q = Some m \<and> q \<noteq> p"
  by (auto simp: new_block_def)

lemma heap_ok_malloc: "heap_ok L blocks \<Longrightarrow> alloc_law blocks n h (ext_malloc L n h)"
  and heap_ok_order: "heap_ok L blocks \<Longrightarrow> alloc_law blocks n h (ext_kmalloc_order L n g h)"
  and heap_ok_calloc: "heap_ok L blocks \<Longrightarrow> alloc_law blocks (m * n) h (ext_calloc L m n h)"
  and heap_ok_free: "heap_ok L blocks \<Longrightarrow> blocks (ext_free L p h) = (blocks h)(p := None)"
  by (simp_all add: heap_ok_def)

lemma alloc_law_Some:
  "alloc_law blocks n h (Some (p, bs), h') \<longleftrightarrow>
     length bs = unat n \<and> new_block (blocks h) (blocks h') p (unat n)"
  by (simp add: alloc_law_def)

lemma alloc_law_None: "alloc_law blocks n h (None, h') \<longleftrightarrow> blocks h' = blocks h"
  by (simp add: alloc_law_def)

text \<open>The wrappers of the library keep the law.\<close>

lemma kmalloc_rt_law: "heap_ok L blocks \<Longrightarrow> alloc_law blocks n h (kmalloc_rt L n flags h)"
  using heap_ok_malloc [of L blocks n h]
  by (auto simp: kmalloc_rt_def alloc_law_def split: prod.splits option.splits)

lemma kmalloc_law: "heap_ok L blocks \<Longrightarrow> alloc_law blocks n h (kmalloc L c n flags h)"
  by (simp add: kmalloc_def kmalloc_rt_law heap_ok_order)

lemma kcalloc_law: "heap_ok L blocks \<Longrightarrow> alloc_law blocks (m * n) h (kcalloc L c m n flags h)"
  by (simp add: kcalloc_def kmalloc_array_def alloc_law_None kmalloc_law kmalloc_rt_law)

lemma alloc_law_cases:
  assumes "alloc_law blocks n h r"
  obtains h' where "r = (None, h')" "blocks h' = blocks h"
  | p bs h' where "r = (Some (p, bs), h')" "length bs = unat n" "new_block (blocks h) (blocks h') p (unat n)"
  using assms by (cases r; cases "fst r") (auto simp: alloc_law_def split: option.splits)

subsection \<open>Sequences of requests\<close>

text \<open>The requests an operation makes in order, all granted, and the memory after them.\<close>

datatype request = Malloc u32 | Calloc u32 u32 | Kmalloc bool u32 u32 | Kcalloc bool u32 u32 u32

fun serve :: "'h libc \<Rightarrow> request \<Rightarrow> 'h \<Rightarrow> block option \<times> 'h" where
  "serve L (Malloc n) h = ext_malloc L n h"
| "serve L (Calloc m n) h = ext_calloc L m n h"
| "serve L (Kmalloc c n g) h = kmalloc L c n g h"
| "serve L (Kcalloc c m n g) h = kcalloc L c m n g h"

fun grants :: "'h libc \<Rightarrow> request list \<Rightarrow> 'h \<Rightarrow> bool" where
  "grants L [] h \<longleftrightarrow> True"
| "grants L (q # qs) h \<longleftrightarrow> fst (serve L q h) \<noteq> None \<and> grants L qs (snd (serve L q h))"

fun granted :: "'h libc \<Rightarrow> request list \<Rightarrow> 'h \<Rightarrow> 'h" where
  "granted L [] h = h"
| "granted L (q # qs) h = granted L qs (snd (serve L q h))"

lemma grantsE:
  assumes "grants L (q # qs) h"
  obtains p bs h' where "serve L q h = (Some (p, bs), h')" "grants L qs h'" "granted L (q # qs) h = granted L qs h'"
  using assms by (cases "serve L q h") auto

lemma grants_append: "grants L (qs @ rs) h \<longleftrightarrow> grants L qs h \<and> grants L rs (granted L qs h)"
  by (induction qs arbitrary: h) auto

lemma granted_append: "granted L (qs @ rs) h = granted L rs (granted L qs h)"
  by (induction qs arbitrary: h) auto

lemma serve_law: "heap_ok L blocks \<Longrightarrow> serve L q h = (Some (p, bs), h') \<Longrightarrow> \<exists>n. new_block (blocks h) (blocks h') p n"
  using kmalloc_law [of L blocks] kcalloc_law [of L blocks] heap_ok_malloc [of L blocks] heap_ok_calloc [of L blocks]
  by (cases q) (metis alloc_law_Some serve.simps)+

text \<open>Blocks stay while requests are granted.\<close>

lemma granted_keeps:
  assumes "heap_ok L blocks" "grants L qs h" "blocks h p = Some n"
  shows "blocks (granted L qs h) p = Some n"
  using assms(2,3)
proof (induction qs arbitrary: h)
  case (Cons q qs)
  from Cons.prems(1) show ?case
  proof (cases rule: grantsE)
    case (1 a bs h')
    then have "blocks h' p = Some n" using serve_law [OF assms(1)] new_block_other Cons.prems(2) by blast
    with Cons.IH [OF 1(2)] 1(3) show ?thesis by simp
  qed
qed simp

section \<open>List nodes inside objects\<close>

text \<open>The four bytes at an offset of an object, little-endian; and the \<open>list_head\<close> inside a new
  object, whose links are the bytes it was handed out with.\<close>

definition word_at :: "u8 list \<Rightarrow> nat \<Rightarrow> u32" where
  "word_at bs off = word_rcat (rev (take 4 (drop off bs)))"

definition map_list_head :: "addr \<Rightarrow> u8 list \<Rightarrow> addr \<Rightarrow> lheap \<Rightarrow> lheap" where
  "map_list_head p bs off h =
     h\<lparr>l_next := (l_next h)(p + off \<mapsto> word_at bs (unat off)),
       l_prev := (l_prev h)(p + off \<mapsto> word_at bs (unat off + 4))\<rparr>"

text \<open>When the object is freed its \<open>list_head\<close> is gone.\<close>

definition unmap_list_head :: "addr \<Rightarrow> addr \<Rightarrow> lheap \<Rightarrow> lheap" where
  "unmap_list_head p off h =
     h\<lparr>l_next := (l_next h)(p + off := None), l_prev := (l_prev h)(p + off := None)\<rparr>"

lemma is_node_map: "is_node (map_list_head p bs off h) (p + off)"
  by (simp add: is_node_def map_list_head_def)

lemma links_kept_map: "links_kept h (map_list_head p bs off h) {p + off}"
  by (auto simp: links_kept_def map_list_head_def is_node_def)

lemma dlist_unmap:
  assumes "dlist h head xs" "p + off \<notin> set (head # xs)"
  shows "dlist (unmap_list_head p off h) head xs"
proof -
  have "dpath (unmap_list_head p off h) head xs head = dpath h head xs head"
    using assms(2) by (intro dpath_cong) (auto simp: unmap_list_head_def)
  with assms(1) show ?thesis by (simp add: dlist_def)
qed

section \<open>Lists of objects\<close>

text \<open>
  \<open>objs B h off sz head ps\<close>: the object \<open>head\<close> heads a list of the objects \<open>ps\<close>; all are blocks
  of the size \<open>sz\<close> with their \<open>list_head\<close> at the offset \<open>off\<close>.
\<close>

definition objs :: "(addr \<rightharpoonup> nat) \<Rightarrow> lheap \<Rightarrow> addr \<Rightarrow> nat \<Rightarrow> addr \<Rightarrow> addr list \<Rightarrow> bool" where
  "objs B h off sz head ps \<longleftrightarrow>
     unat off < sz \<and> dlist h (head + off) (map (\<lambda>p. p + off) ps) \<and> (\<forall>p \<in> set (head # ps). B p = Some sz)"

lemma objs_distinct: "objs B h off sz head ps \<Longrightarrow> distinct (head # ps)"
  unfolding objs_def by (auto simp: dlist_def distinct_map image_iff)

lemma objs_entries: "objs B h off sz head ps \<Longrightarrow> list_for_each_entry off (head + off) h = Some ps"
  unfolding objs_def using ll.entries_result [of h "head + off" _ off]
  by (auto simp: list_entry_def comp_def)

lemma objs_loop:
  "objs B h off sz head ps \<Longrightarrow> list_for_each_entry_do body off (head + off) h s = run_entries body ps s"
  unfolding objs_def using list_for_each_entry_do_nodes [of h "head + off" _ body off s]
  by (auto simp: list_entry_def comp_def)

lemma objs_frame:
  assumes "objs B h off sz head ps" "links_kept h h' A"
    and "\<forall>p \<in> set (head # ps). p + off \<notin> A \<and> B' p = Some sz"
  shows "objs B' h' off sz head ps"
  using assms ll.lst_frame [of h "head + off" "map (\<lambda>p. p + off) ps" h' A]
  unfolding objs_def by (auto simp: disjoint_iff)

text \<open>Objects of two kinds occupy different addresses.\<close>

lemma objs_apart:
  assumes "blocks_apart B" "objs B h off sz head ps" "objs B h' off' sz' head' ps'" "sz \<noteq> sz'"
    and "p \<in> set (head # ps)" "q \<in> set (head' # ps')"
  shows "p + off \<noteq> q + off'"
proof -
  have "B p = Some sz" "B q = Some sz'" "unat off < sz" "unat off' < sz'"
    using assms unfolding objs_def by auto
  with assms show ?thesis by (intro blocks_apartD [of B p sz q sz']) auto
qed

text \<open>A new object: its \<open>list_head\<close> is none of those in use.\<close>

lemma objs_new:
  assumes "objs B h off sz head ps" "new_block B B' p n" "unat o' < n"
  shows "objs B' (map_list_head p bs o' h) off sz head ps"
proof (rule objs_frame [OF assms(1) links_kept_map], intro ballI)
  fix q assume "q \<in> set (head # ps)"
  then have q: "B q = Some sz" "unat off < sz" using assms(1) unfolding objs_def by auto
  then have "span p n \<inter> span q sz = {}" using assms(2) unfolding new_block_def by blast
  with span_mem_word [OF assms(3), of p] span_mem_word [OF q(2), of q] have "q + off \<noteq> p + o'" by auto
  then show "q + off \<notin> {p + o'} \<and> B' q = Some sz" using new_block_other [OF assms(2) q(1)] by simp
qed

lemma objs_new_plain:
  "objs B h off sz head ps \<Longrightarrow> new_block B B' p n \<Longrightarrow> objs B' h off sz head ps"
  using new_block_other [of B B' p n _ sz] unfolding objs_def by auto

text \<open>Linking an object that has a \<open>list_head\<close> and is in no list.\<close>

lemma objs_link:
  assumes "objs B h off sz head ps" "is_node h (p + off)" "B p = Some sz" "p \<notin> set (head # ps)"
  shows "\<exists>h'. list_add (p + off) (head + off) h = Some h' \<and> objs B h' off sz head (p # ps) \<and>
    links_kept h h' (set (map (\<lambda>p. p + off) (head # p # ps)))"
proof -
  have n: "p + off \<notin> set ((head + off) # map (\<lambda>p. p + off) ps)" using assms(4) by auto
  have d: "dlist h (head + off) (map (\<lambda>p. p + off) ps)" using assms(1) by (simp add: objs_def)
  from ll.add_result [OF d assms(2) n] obtain h' where
    h': "list_add (p + off) (head + off) h = Some h'" "dlist h' (head + off) ((p + off) # map (\<lambda>p. p + off) ps)"
    "links_kept h h' (set ((p + off) # (head + off) # map (\<lambda>p. p + off) ps))" by blast
  moreover from h'(3) have "links_kept h h' (set (map (\<lambda>p. p + off) (head # p # ps)))"
    by (simp add: insert_commute)
  ultimately show ?thesis using assms(1,3) by (auto simp: objs_def)
qed

lemma objs_add:
  assumes "objs B h off sz head ps" "new_block B B' p sz"
  shows "\<exists>h'. list_add (p + off) (head + off) (map_list_head p bs off h) = Some h' \<and>
    objs B' h' off sz head (p # ps) \<and>
    links_kept (map_list_head p bs off h) h' (set (map (\<lambda>p. p + off) (head # p # ps)))"
proof (rule objs_link [OF _ is_node_map])
  show "objs B' (map_list_head p bs off h) off sz head ps"
    using assms(1) by (intro objs_new [OF assms]) (simp add: objs_def)
  show "B' p = Some sz" using assms(2) by (simp add: new_block_def)
  show "p \<notin> set (head # ps)" using assms new_block_other unfolding objs_def by blast
qed

lemma objs_del:
  assumes "objs B h off sz head ps" "p \<in> set ps"
  shows "\<exists>h'. list_del (p + off) h = Some h' \<and> objs B h' off sz head (remove1 p ps) \<and>
    links_kept h h' (set (map (\<lambda>p. p + off) (head # ps)))"
proof -
  obtain ys zs where ps: "ps = ys @ p # zs" using assms(2) by (meson split_list)
  have "p \<notin> set ys" using objs_distinct [OF assms(1)] ps by auto
  then have r: "remove1 p ps = ys @ zs" using ps by (simp add: remove1_append)
  have "dlist h (head + off) (map (\<lambda>p. p + off) ys @ (p + off) # map (\<lambda>p. p + off) zs)"
    using assms(1) ps by (simp add: objs_def)
  from ll.del_result [OF this] obtain h' where "list_del (p + off) h = Some h'"
    "dlist h' (head + off) (map (\<lambda>p. p + off) ys @ map (\<lambda>p. p + off) zs)"
    "links_kept h h' (set ((p + off) # (head + off) # map (\<lambda>p. p + off) ys @ map (\<lambda>p. p + off) zs))"
    by blast
  moreover from this have "links_kept h h' (set (map (\<lambda>p. p + off) (head # ps)))"
    using ps by (simp add: insert_commute)
  ultimately show ?thesis using assms(1) ps r by (auto simp: objs_def)
qed

text \<open>Lists of another kind do not notice a change inside one list.\<close>

lemma objs_other:
  assumes "objs B h off sz head ps" "blocks_apart B" "objs B g off' sz' head' ps'" "sz \<noteq> sz'"
    and "links_kept h h' (set (map (\<lambda>p. p + off') (head' # ps')))"
  shows "objs B h' off sz head ps"
proof (rule objs_frame [OF assms(1,5)], intro ballI)
  fix q assume q: "q \<in> set (head # ps)"
  then have "B q = Some sz" using assms(1) unfolding objs_def by auto
  moreover have "q + off \<noteq> r + off'" if "r \<in> set (head' # ps')" for r
    using objs_apart [OF assms(2,1,3,4) q that] .
  ultimately show "q + off \<notin> set (map (\<lambda>p. p + off') (head' # ps')) \<and> B q = Some sz" by auto
qed

text \<open>Freeing an object that is in no list.\<close>

lemma objs_free:
  assumes "objs B h off sz head ps" "p \<notin> set (head # ps)"
  shows "objs (B(p := None)) h off sz head ps"
  using assms unfolding objs_def by auto

lemma objs_free_unmap:
  assumes "objs B h off sz head ps" "blocks_apart B" "B p = Some n" "unat o' < n" "p \<notin> set (head # ps)"
  shows "objs (B(p := None)) (unmap_list_head p o' h) off sz head ps"
proof -
  have "q + off \<noteq> p + o'" if "q \<in> set (head # ps)" for q
  proof -
    have b: "B q = Some sz" "unat off < sz" "q \<noteq> p" using assms(1,5) that unfolding objs_def by auto
    show ?thesis by (rule blocks_apartD [OF assms(2) b(1) assms(3) b(3,2) assms(4)])
  qed
  then have "p + o' \<notin> set ((head + off) # map (\<lambda>p. p + off) ps)" by fastforce
  with assms(1,5) show ?thesis unfolding objs_def by (auto intro: dlist_unmap)
qed

section \<open>A concrete allocator\<close>

text \<open>An allocator whose state lists its blocks; it places a new block above all others. The
  witnesses of the development use it.\<close>

fun next_free :: "(addr \<times> nat) list \<Rightarrow> nat" where
  "next_free [] = 0x1000"
| "next_free ((p, n) # h) = max (unat p + n + 1) (next_free h)"

definition log_alloc :: "u8 \<Rightarrow> u32 \<Rightarrow> (addr \<times> nat) list \<Rightarrow> block option \<times> (addr \<times> nat) list" where
  "log_alloc fill n h =
     (if next_free h + unat n < 2 ^ 32
      then (Some (of_nat (next_free h), replicate (unat n) fill), (of_nat (next_free h), unat n) # h)
      else (None, h))"

definition log_libc :: "(addr \<times> nat) list libc" where
  "log_libc = \<lparr>ext_malloc = log_alloc 0xAA, ext_calloc = (\<lambda>m n. log_alloc 0 (m * n)),
     ext_free = (\<lambda>p h. filter (\<lambda>b. fst b \<noteq> p) h), ext_kmalloc_order = (\<lambda>n _. log_alloc 0xAA n)\<rparr>"

lemma next_free_above: "(q, m) \<in> set h \<Longrightarrow> unat q + m < next_free h"
  by (induction h rule: next_free.induct) auto

lemma next_free_min: "0x1000 \<le> next_free h"
  by (induction h rule: next_free.induct) auto

lemma span_unat:
  "x \<in> span p n \<Longrightarrow> unat p + n \<le> 2 ^ 32 \<Longrightarrow> unat p \<le> unat x \<and> unat x < unat p + n"
  by (auto simp: span_def unat_add_no_wrap unat_of_nat)

lemma log_alloc_law: "alloc_law map_of n h (log_alloc fill n h)"
proof (cases "next_free h + unat n < 2 ^ 32")
  case True
  let ?p = "of_nat (next_free h) :: u32"
  have p: "unat ?p = next_free h" using True by (simp add: unat_of_nat)
  have above: "unat q + m < unat ?p" if "map_of h q = Some m" for q m
    using next_free_above [OF map_of_SomeD [OF that]] p by simp
  have "span ?p (unat n) \<inter> span q m = {}" if "map_of h q = Some m" for q m
    using span_unat [of _ ?p "unat n"] span_unat [of _ q m] above [OF that] True p by fastforce
  moreover have "map_of h ?p = None" using above [of ?p] by fastforce
  moreover have "?p \<noteq> 0" using p next_free_min [of h] by auto
  ultimately show ?thesis using True by (simp add: log_alloc_def alloc_law_def new_block_def)
next
  case False
  then show ?thesis by (simp add: log_alloc_def alloc_law_def)
qed

lemma map_of_filter_fst: "map_of (filter (\<lambda>b. fst b \<noteq> p) h) = (map_of h)(p := None)"
  by (induction h) auto

lemma log_libc_ok: "heap_ok log_libc map_of"
  by (simp add: heap_ok_def log_libc_def log_alloc_law map_of_filter_fst)

text \<open>Blocks listed upwards without overlap are apart.\<close>

fun stacked :: "nat \<Rightarrow> (addr \<times> nat) list \<Rightarrow> bool" where
  "stacked lo [] \<longleftrightarrow> True"
| "stacked lo ((p, n) # h) \<longleftrightarrow> lo \<le> unat p \<and> unat p + n \<le> 2 ^ 32 \<and> stacked (unat p + n) h"

lemma span_apart: "unat p + m \<le> unat q \<Longrightarrow> unat q + n \<le> 2 ^ 32 \<Longrightarrow> span p m \<inter> span q n = {}"
  using span_unat [of _ p m] span_unat [of _ q n] by fastforce

lemma stacked_above: "stacked lo h \<Longrightarrow> (q, m) \<in> set h \<Longrightarrow> lo \<le> unat q \<and> unat q + m \<le> 2 ^ 32"
  by (induction lo h rule: stacked.induct) auto

lemma stacked_apart: "stacked lo h \<Longrightarrow> blocks_apart (map_of h)"
proof (induction lo h rule: stacked.induct)
  case (2 lo p n h)
  have a: "span p n \<inter> span q m = {}" if "map_of h q = Some m" for q m
    using stacked_above [OF _ map_of_SomeD [OF that]] 2(2) by (intro span_apart) auto
  have "blocks_apart (map_of h)" using 2 by simp
  with a show ?case unfolding blocks_apart_def by (auto split: if_splits)
qed (simp add: blocks_apart_def)

end
