(* ===== verification/Kdev.thy ===== *)
theory Kdev
  imports Prelude
begin

text \<open>
  Device numbers (\<open>linux/kdev_t.h\<close>): a 32-bit \<open>dev_t\<close> holds 12 bits of major and 20 bits
  of minor number. The encodings for file systems and system calls are shown to be inverse
  to their decodings on the device numbers they accept.
\<close>

section \<open>Definitions\<close>

type_synonym dev_t = "32 word"

definition MINORBITS :: nat where "MINORBITS = 20"
definition MINORMASK :: u32 where "MINORMASK = push_bit MINORBITS 1 - 1"

definition MAJOR :: "dev_t \<Rightarrow> u32" where "MAJOR dev = drop_bit MINORBITS dev"
definition MINOR :: "dev_t \<Rightarrow> u32" where "MINOR dev = dev AND MINORMASK"
definition MKDEV :: "u32 \<Rightarrow> u32 \<Rightarrow> dev_t" where "MKDEV ma mi = push_bit MINORBITS ma OR mi"

definition old_valid_dev :: "dev_t \<Rightarrow> bool" where
  "old_valid_dev dev \<longleftrightarrow> MAJOR dev < 256 \<and> MINOR dev < 256"

definition old_encode_dev :: "dev_t \<Rightarrow> u16" where
  "old_encode_dev dev = ucast (push_bit 8 (MAJOR dev) OR MINOR dev)"

definition old_decode_dev :: "u16 \<Rightarrow> dev_t" where
  "old_decode_dev val = MKDEV (drop_bit 8 (ucast val) AND 255) (ucast val AND 255)"

definition new_encode_dev :: "dev_t \<Rightarrow> u32" where
  "new_encode_dev dev =
     (let major = MAJOR dev; minor = MINOR dev
      in (minor AND 0xff) OR push_bit 8 major OR push_bit 12 (minor AND NOT 0xff))"

definition new_decode_dev :: "u32 \<Rightarrow> dev_t" where
  "new_decode_dev dev =
     (let major = drop_bit 8 (dev AND 0xfff00);
          minor = (dev AND 0xff) OR (drop_bit 12 dev AND 0xfff00)
      in MKDEV major minor)"

definition huge_encode_dev :: "dev_t \<Rightarrow> u64" where
  "huge_encode_dev dev = ucast (new_encode_dev dev)"

definition huge_decode_dev :: "u64 \<Rightarrow> dev_t" where
  "huge_decode_dev dev = new_decode_dev (ucast dev)"

definition sysv_valid_dev :: "dev_t \<Rightarrow> bool" where
  "sysv_valid_dev dev \<longleftrightarrow> MAJOR dev < push_bit 14 1 \<and> MINOR dev < push_bit 18 1"

definition sysv_encode_dev :: "dev_t \<Rightarrow> u32" where
  "sysv_encode_dev dev = MINOR dev OR push_bit 18 (MAJOR dev)"

definition sysv_major :: "u32 \<Rightarrow> u32" where
  "sysv_major dev = drop_bit 18 dev AND 0x3fff"

definition sysv_minor :: "u32 \<Rightarrow> u32" where
  "sysv_minor dev = dev AND 0x3ffff"

section \<open>Bits of the parts\<close>

text \<open>The literal masks as bit ranges.\<close>

lemma kdev_masks:
  "MINORMASK = mask 20" "(255 :: u32) = mask 8" "(0xfff00 :: u32) = push_bit 8 (mask 12)"
  "(0x3fff :: u32) = mask 14" "(0x3ffff :: u32) = mask 18"
  by (simp_all add: MINORMASK_def MINORBITS_def mask_eq_exp_minus_1 push_bit_eq_mult)

lemmas kdev_bits = bit_simps kdev_masks MAJOR_def MINOR_def MKDEV_def MINORBITS_def

lemma bit_u32_less: "bit (x :: u32) n \<Longrightarrow> n < 32"
  using bit_imp_le_length [of x n] by simp

lemma bit_word_beyond: "LENGTH('a) \<le> n \<Longrightarrow> \<not> bit (x :: 'a::len word) n"
  using bit_imp_le_length [of x n] by auto

lemma less_exp_bits: "unat (x :: u32) < 2 ^ k \<longleftrightarrow> (\<forall>n. bit x n \<longrightarrow> n < k)"
proof
  assume "unat x < 2 ^ k"
  then have e: "take_bit k x = x" by (simp only: take_bit_self_iff)
  show "\<forall>n. bit x n \<longrightarrow> n < k" by (subst e [symmetric]) (simp add: bit_simps)
next
  assume a: "\<forall>n. bit x n \<longrightarrow> n < k"
  have "take_bit k x = x" by (rule bit_word_eqI) (use a in \<open>auto simp: bit_simps\<close>)
  then show "unat x < 2 ^ k" by (simp only: take_bit_self_iff)
qed

lemma word_less_bits:
  "x < 256 \<longleftrightarrow> (\<forall>n. bit x n \<longrightarrow> n < 8)"
  "x < 4096 \<longleftrightarrow> (\<forall>n. bit x n \<longrightarrow> n < 12)"
  "x < 16384 \<longleftrightarrow> (\<forall>n. bit x n \<longrightarrow> n < 14)"
  "x < 262144 \<longleftrightarrow> (\<forall>n. bit x n \<longrightarrow> n < 18)"
  "x < 1048576 \<longleftrightarrow> (\<forall>n. bit x n \<longrightarrow> n < 20)" for x :: u32
  using less_exp_bits [of x 8] less_exp_bits [of x 12] less_exp_bits [of x 14]
    less_exp_bits [of x 18] less_exp_bits [of x 20]
  by (simp_all add: word_less_nat_alt)

lemma MKDEV_MAJOR_MINOR: "MKDEV (MAJOR dev) (MINOR dev) = dev"
  by (rule bit_word_eqI) (auto simp: kdev_bits)

lemma MAJOR_MKDEV: "ma < 4096 \<Longrightarrow> mi < 1048576 \<Longrightarrow> MAJOR (MKDEV ma mi) = ma"
  by (rule bit_word_eqI) (auto simp: kdev_bits word_less_bits dest: bit_u32_less)

lemma MINOR_MKDEV: "mi < 1048576 \<Longrightarrow> MINOR (MKDEV ma mi) = mi"
  by (rule bit_word_eqI) (auto simp: kdev_bits word_less_bits)

text \<open>A major number beyond 12 bits loses its upper bits.\<close>

lemma MAJOR_MKDEV_wrap: "mi < 1048576 \<Longrightarrow> MAJOR (MKDEV ma mi) = take_bit 12 ma"
  by (rule bit_word_eqI) (auto simp: kdev_bits word_less_bits)

text \<open>The encodings permute bit positions; they are compared position by position.\<close>

lemma u32_bits_eqI: "list_all (\<lambda>n. bit a n = bit b n) [0..<32] \<Longrightarrow> a = b" for a b :: u32
  by (rule bit_word_eqI) (simp add: list_all_iff)

lemma u16_bits_eqI: "list_all (\<lambda>n. bit a n = bit b n) [0..<16] \<Longrightarrow> a = b" for a b :: u16
  by (rule bit_word_eqI) (simp add: list_all_iff)

lemma upt_16: "[0..<16] = [0, 1, 2, 3, 4, 5, 6, 7, 8, 9, 10, 11, 12, 13, 14, 15]"
  by (simp add: upt_rec)

lemma upt_32: "[0..<32] = [0..<16] @ [16, 17, 18, 19, 20, 21, 22, 23, 24, 25, 26, 27, 28, 29, 30, 31]"
  by (simp add: upt_rec)

lemma new_decode_encode: "new_decode_dev (new_encode_dev dev) = dev"
  by (rule u32_bits_eqI)
    (simp add: upt_32 upt_16 kdev_bits bit_word_beyond new_decode_dev_def new_encode_dev_def Let_def)

lemma new_encode_decode: "new_encode_dev (new_decode_dev v) = v"
  by (rule u32_bits_eqI)
    (simp add: upt_32 upt_16 kdev_bits bit_word_beyond new_decode_dev_def new_encode_dev_def Let_def)

lemma ucast_ucast_u32: "(ucast (ucast (x :: u32) :: u64) :: u32) = x"
  by (rule bit_word_eqI) (auto simp: bit_simps)

lemma old_decode_encode: "old_valid_dev dev \<Longrightarrow> old_decode_dev (old_encode_dev dev) = dev"
proof -
  assume "old_valid_dev dev"
  then have b: "\<forall>n. bit (MAJOR dev) n \<longrightarrow> n < 8" "\<forall>n. bit (MINOR dev) n \<longrightarrow> n < 8"
    by (simp_all add: old_valid_dev_def word_less_bits)
  have "\<not> bit dev n" if "8 \<le> n" "n < 20" for n
    using b(2) that by (auto simp: kdev_bits)
  moreover have "\<not> bit dev n" if "28 \<le> n" for n
    using spec [OF b(1), of "n - 20"] that by (auto simp: kdev_bits)
  ultimately show ?thesis
    unfolding old_decode_dev_def old_encode_dev_def
    by (intro u32_bits_eqI) (simp add: upt_32 upt_16 kdev_bits)
qed

lemma old_encode_decode: "old_encode_dev (old_decode_dev v) = v"
  unfolding old_decode_dev_def old_encode_dev_def
  by (rule u16_bits_eqI) (simp add: upt_16 kdev_bits bit_word_beyond)

lemma sysv_parts:
  assumes "sysv_valid_dev dev"
  shows "sysv_major (sysv_encode_dev dev) = MAJOR dev" "sysv_minor (sysv_encode_dev dev) = MINOR dev"
proof -
  have b: "\<forall>n. bit (MAJOR dev) n \<longrightarrow> n < 14" "\<forall>n. bit (MINOR dev) n \<longrightarrow> n < 18"
    using assms by (simp_all add: sysv_valid_dev_def push_bit_eq_mult word_less_bits)
  show "sysv_major (sysv_encode_dev dev) = MAJOR dev"
    unfolding sysv_major_def sysv_encode_dev_def kdev_masks
    by (rule bit_word_eqI) (use b in \<open>auto simp: bit_simps dest: bit_u32_less\<close>)
  show "sysv_minor (sysv_encode_dev dev) = MINOR dev"
    unfolding sysv_minor_def sysv_encode_dev_def kdev_masks
    by (rule bit_word_eqI) (use b in \<open>auto simp: bit_simps\<close>)
qed

section \<open>Properties\<close>

text \<open>
  C20. Device numbers survive every encoding: the new (and 64-bit) encoding is a bijection on all
  device numbers, the 16-bit one is exact on the device numbers \<open>old_valid_dev\<close> accepts, and
  the SysV one gives back major and minor of what \<open>sysv_valid_dev\<close> accepts.
\<close>

theorem kdev_encodings_roundtrip:
  "new_decode_dev (new_encode_dev dev) = dev \<and> new_encode_dev (new_decode_dev v) = v \<and>
   huge_decode_dev (huge_encode_dev dev) = dev \<and>
   (old_valid_dev dev \<longrightarrow> old_decode_dev (old_encode_dev dev) = dev) \<and>
   old_encode_dev (old_decode_dev w) = w \<and>
   (sysv_valid_dev dev \<longrightarrow> MKDEV (sysv_major (sysv_encode_dev dev)) (sysv_minor (sysv_encode_dev dev)) = dev)"
  by (simp add: new_decode_encode new_encode_decode old_decode_encode old_encode_decode
      sysv_parts MKDEV_MAJOR_MINOR huge_encode_dev_def huge_decode_dev_def ucast_ucast_u32)

theorem kdev_encodings_roundtrip_witness:
  "old_decode_dev (old_encode_dev (MKDEV 42 1)) = MKDEV 42 1 \<and>
   MKDEV (sysv_major (sysv_encode_dev (MKDEV 42 1))) (sysv_minor (sysv_encode_dev (MKDEV 42 1))) = MKDEV 42 1"
  using kdev_encodings_roundtrip [of "MKDEV 42 1"]
  by (simp add: old_valid_dev_def sysv_valid_dev_def MAJOR_MKDEV MINOR_MKDEV push_bit_eq_mult)

text \<open>
  \<open>MKDEV\<close> keeps its two parts apart exactly when they fit: for a minor number below
  $2^{20}$ the major number read back is the given one modulo $2^{12}$, so two different
  drivers' majors can collide once one of them exceeds 4095.
\<close>

theorem MKDEV_parts:
  assumes "mi < 1048576"
  shows "MINOR (MKDEV ma mi) = mi \<and> (MAJOR (MKDEV ma mi) = ma \<longleftrightarrow> ma < 4096) \<and>
    MKDEV (ma + 4096) mi = MKDEV ma mi"
proof -
  have "MAJOR (MKDEV ma mi) = ma \<longleftrightarrow> ma < 4096"
    by (simp add: MAJOR_MKDEV_wrap [OF assms] take_bit_self_iff word_less_nat_alt)
  moreover have p: "push_bit 20 (ma + 4096) = push_bit 20 ma"
    by (simp only: push_bit_eq_mult distrib_right) simp
  moreover have "MKDEV (ma + 4096) mi = MKDEV ma mi" using p by (simp add: MKDEV_def MINORBITS_def)
  ultimately show ?thesis using MINOR_MKDEV [OF assms] by blast
qed

theorem MKDEV_parts_witness: "MAJOR (MKDEV 8191 1) \<noteq> 8191 \<and> MKDEV 8191 1 = MKDEV 4095 1"
  using MKDEV_parts [of 1 8191] MKDEV_parts [of 1 4095] by simp

end
