(* ===== verification/Err.thy ===== *)
theory Err
  imports Prelude
begin

text \<open>
  Error pointers (\<open>linux/err.h\<close>): the last \<open>MAX_ERRNO\<close> addresses of the address space
  stand for error numbers. A \<open>long\<close> has 32 bits; an error argument is the \<^typ>\<open>int\<close> it denotes.
\<close>

section \<open>Definitions\<close>

definition MAX_ERRNO :: u32 where "MAX_ERRNO = 4095"

definition IS_ERR_VALUE :: "u32 \<Rightarrow> bool" where
  "IS_ERR_VALUE x \<longleftrightarrow> x \<ge> - MAX_ERRNO"

definition ERR_PTR :: "int \<Rightarrow> addr" where
  "ERR_PTR error = word_of_int error"

definition PTR_ERR :: "addr \<Rightarrow> int" where
  "PTR_ERR ptr = sint ptr"

definition IS_ERR :: "addr \<Rightarrow> bool" where
  "IS_ERR ptr \<longleftrightarrow> IS_ERR_VALUE ptr"

definition IS_ERR_OR_NULL :: "addr \<Rightarrow> bool" where
  "IS_ERR_OR_NULL ptr \<longleftrightarrow> ptr = 0 \<or> IS_ERR_VALUE ptr"

definition ERR_CAST :: "addr \<Rightarrow> addr" where
  "ERR_CAST ptr = ptr"

definition PTR_ERR_OR_ZERO :: "addr \<Rightarrow> int" where
  "PTR_ERR_OR_ZERO ptr = (if IS_ERR ptr then PTR_ERR ptr else 0)"

lemmas err_defs = IS_ERR_VALUE_def ERR_PTR_def PTR_ERR_def IS_ERR_def IS_ERR_OR_NULL_def
  ERR_CAST_def PTR_ERR_OR_ZERO_def MAX_ERRNO_def

section \<open>Error pointers and addresses\<close>

lemma PTR_ERR_ERR_PTR: "- (2 ^ 31) \<le> e \<Longrightarrow> e < 2 ^ 31 \<Longrightarrow> PTR_ERR (ERR_PTR e) = e"
  by (simp add: err_defs int_word_sint)

lemma ERR_PTR_PTR_ERR: "ERR_PTR (PTR_ERR p) = p"
  by (simp add: err_defs)

lemma uint_ERR_PTR_neg:
  assumes "- 4095 \<le> e" "e < 0"
  shows "uint (ERR_PTR e) = e + 4294967296"
proof -
  have "e mod 4294967296 = (e + 4294967296) mod 4294967296" by simp
  also have "\<dots> = e + 4294967296" using assms by (intro mod_pos_pos_trivial) auto
  finally show ?thesis by (simp add: err_defs uint_word_of_int take_bit_eq_mod)
qed

lemma IS_ERR_iff_uint: "IS_ERR p \<longleftrightarrow> 4294963201 \<le> uint p"
  by (simp add: err_defs word_le_def)

lemma IS_ERR_ERR_PTR: "- 4095 \<le> e \<Longrightarrow> e < 0 \<Longrightarrow> IS_ERR (ERR_PTR e)"
  using uint_ERR_PTR_neg [of e] by (simp add: IS_ERR_iff_uint)

text \<open>A null pointer is not an error pointer: a function that returns it for a failure passes
  an \<open>IS_ERR\<close> check.\<close>

lemma IS_ERR_null: "\<not> IS_ERR 0"
  by (simp add: err_defs)

section \<open>Properties\<close>

text \<open>
  A pointer value is an error exactly when it is \<open>ERR_PTR\<close> of a negated error number up to
  \<open>MAX_ERRNO\<close>; \<open>PTR_ERR\<close> then gives that number back, and for every other value, null
  included, \<open>PTR_ERR_OR_ZERO\<close> reports success.
\<close>

theorem IS_ERR_iff:
  "(IS_ERR p \<longleftrightarrow> (\<exists>e. - 4095 \<le> e \<and> e < 0 \<and> p = ERR_PTR e \<and> PTR_ERR_OR_ZERO p = e)) \<and>
   (PTR_ERR_OR_ZERO p = 0 \<longleftrightarrow> \<not> IS_ERR p) \<and> \<not> IS_ERR 0"
proof -
  have e: "- 4095 \<le> PTR_ERR p \<and> PTR_ERR p < 0" if "IS_ERR p"
  proof -
    have u: "4294963201 \<le> uint p" "uint p < 4294967296"
      using that uint_lt2p [of p] by (simp_all add: IS_ERR_iff_uint)
    have "ERR_PTR (uint p - 4294967296) = ERR_PTR (uint p)"
      unfolding ERR_PTR_def word_of_int_eq_iff by (simp add: take_bit_eq_mod)
    also have "\<dots> = p" by (simp add: ERR_PTR_def)
    finally have "PTR_ERR p = PTR_ERR (ERR_PTR (uint p - 4294967296))" by (simp only:)
    also have "\<dots> = uint p - 4294967296" by (rule PTR_ERR_ERR_PTR) (use u in simp_all)
    finally show ?thesis using u by simp
  qed
  then show ?thesis
    using IS_ERR_ERR_PTR IS_ERR_null ERR_PTR_PTR_ERR [of p]
    by (auto simp: PTR_ERR_OR_ZERO_def intro: exI [of _ "PTR_ERR p"])
qed

end
