(* ===== verification/Cdev.thy ===== *)
theory Cdev
  imports Heap Kdev Err
begin

text \<open>
  Registration of character devices (\<open>cdev.c\<close>). The state holds the objects the file works on,
  each kind in a map from addresses; the list links live in the link heap. \<open>dev_ok\<close> is its
  invariant: the registered classes and the devices form two well-formed lists of live
  blocks. The effects of the operations on the list of registered classes are stated on the
  sequence \<open>registry\<close>. A message printed by \<open>debug\<close> is the constant text \<open>DEBUG\<close>: the macro
  passes its arguments as surplus arguments of \<open>printf\<close>, so only their evaluation matters.
\<close>

section \<open>Definitions\<close>

text \<open>The fields of \<open>struct cdev\<close> the library uses; \<open>None\<close> is a field that was never written.\<close>

record cdev =
  cd_dev :: "dev_t option"
  cd_ops :: "addr option"

record seL4_Class =
  sc_cdev :: addr
  sc_name :: string
  sc_dev :: dev_t

text \<open>Sizes and addresses fixed by the compiler and the linker: the sizes of the kernel structures
  (their fields depend on the kernel configuration) and the two static list heads.\<close>

record dev_layout =
  sz_cdev :: u32
  sz_device :: u32
  sz_class :: u32
  all_devs :: addr
  seL4_RegisteredClasses :: addr

text \<open>
  The state: the C library's own, the list links, the tables of operations, the \<open>cdev\<close>s,
  \<open>all_devs.cur\<close>, the \<open>device_list\<close> nodes, the registered classes, the \<open>struct class\<close> and
  \<open>struct device\<close> objects (each with the address of its name) and the name buffers.
\<close>

record ('h, 'o) dev_state =
  ds_mem :: 'h
  ds_links :: lheap
  ds_ops :: "addr \<rightharpoonup> 'o"
  ds_cdevs :: "addr \<rightharpoonup> cdev"
  ds_cur :: addr
  ds_nodes :: "addr \<rightharpoonup> addr"
  ds_regs :: "addr \<rightharpoonup> seL4_Class"
  ds_classes :: "addr \<rightharpoonup> addr"
  ds_devices :: "addr \<rightharpoonup> addr"
  ds_bufs :: "addr \<rightharpoonup> u8 list"

definition sz_device_list :: u32 where "sz_device_list = 12"
definition siblings_off :: addr where "siblings_off = 4"
definition sz_seL4_Class :: u32 where "sz_seL4_Class = 272"
definition others_off :: addr where "others_off = 264"

subsection \<open>Strings\<close>

text \<open>A C string is the list of its characters before the terminating null character.\<close>

definition bytes_of :: "string \<Rightarrow> u8 list" where "bytes_of s = map (\<lambda>c. of_nat (of_char c)) s"

definition strlen :: "string \<Rightarrow> u32" where "strlen s = of_nat (length s)"

definition strncmp_eq :: "string \<Rightarrow> string \<Rightarrow> nat \<Rightarrow> bool" where
  "strncmp_eq a b n \<longleftrightarrow> take n a = take n b"

definition strncpy :: "u8 list \<Rightarrow> string \<Rightarrow> u32 \<Rightarrow> u8 list option" where
  "strncpy dst src n = mem_store dst 0 (take (unat n) (bytes_of src @ replicate (unat n) 0))"

text \<open>Reading a buffer as a string runs out of it when it holds no null byte.\<close>

definition c_string :: "u8 list \<Rightarrow> u8 list option" where
  "c_string bs = (if 0 \<in> set bs then Some (takeWhile (\<lambda>b. b \<noteq> 0) bs) else None)"

subsection \<open>Operations\<close>

definition cdev_init :: "addr \<Rightarrow> addr \<Rightarrow> ('h, 'o) dev_state \<Rightarrow> ('h, 'o) dev_state option" where
  "cdev_init dev ops s =
     do { c \<leftarrow> ds_cdevs s dev;
          Some (s\<lparr>ds_cdevs := (ds_cdevs s)(dev \<mapsto> c\<lparr>cd_ops := Some ops\<rparr>)\<rparr>) }"

definition cdev_alloc :: "'h libc \<Rightarrow> dev_layout \<Rightarrow> ('h, 'o) dev_state \<Rightarrow> addr \<times> ('h, 'o) dev_state" where
  "cdev_alloc L ly s =
     (case kmalloc L True (sz_cdev ly) GFP_KERNEL (ds_mem s) of
        (None, m) \<Rightarrow> (0, s\<lparr>ds_mem := m\<rparr>)
      | (Some (p, bs), m) \<Rightarrow>
          (p, s\<lparr>ds_mem := m, ds_cdevs := (ds_cdevs s)(p \<mapsto> \<lparr>cd_dev = None, cd_ops = None\<rparr>)\<rparr>))"

definition cdev_put :: "'h libc \<Rightarrow> dev_layout \<Rightarrow> addr \<Rightarrow> ('h, 'o) dev_state \<Rightarrow> ('h, 'o) dev_state option" where
  "cdev_put L ly p s =
     do { _ \<leftarrow> ds_cdevs s p;
          if p = 0 then None
          else if ds_cur s = 0 then Some (s\<lparr>ds_cur := p\<rparr>)
          else (case kmalloc L True sz_device_list GFP_KERNEL (ds_mem s) of
                  (None, m) \<Rightarrow> None
                | (Some (l, bs), m) \<Rightarrow>
                    do { k \<leftarrow> list_add (l + siblings_off) (all_devs ly + siblings_off)
                                (map_list_head l bs siblings_off (ds_links s));
                         Some (s\<lparr>ds_mem := m, ds_nodes := (ds_nodes s)(l \<mapsto> p), ds_links := k\<rparr>) }) }"

text \<open>What \<open>debug_device_status\<close> prints of every class: name, device number, table of operations.\<close>

definition debug_device_status :: "dev_layout \<Rightarrow> ('h, 'o) dev_state \<Rightarrow> (string \<times> dev_t \<times> 'o) list option" where
  "debug_device_status ly s =
     do { r \<leftarrow> list_for_each_entry_do (\<lambda>cur out.
                 do { c \<leftarrow> ds_regs s cur; d \<leftarrow> ds_cdevs s (sc_cdev c); p \<leftarrow> cd_ops d; ops \<leftarrow> ds_ops s p;
                      Some (Inr (out @ [(sc_name c, sc_dev c, ops)]) :: unit + _) })
               others_off (seL4_RegisteredClasses ly + others_off) (ds_links s) [];
          case r of Inl _ \<Rightarrow> None | Inr out \<Rightarrow> Some out }"

definition device_by_name :: "dev_layout \<Rightarrow> string \<Rightarrow> ('h, 'o) dev_state \<Rightarrow> addr option" where
  "device_by_name ly name s =
     do { r \<leftarrow> list_for_each_entry_do (\<lambda>cls u.
                 do { c \<leftarrow> ds_regs s cls;
                      Some (if strncmp_eq (sc_name c) name 256 then Inl cls else Inr u) })
               others_off (seL4_RegisteredClasses ly + others_off) (ds_links s) ();
          Some (case r of Inl cls \<Rightarrow> cls | Inr _ \<Rightarrow> 0) }"

definition cdev_add_body :: "addr \<Rightarrow> dev_t \<Rightarrow> addr \<Rightarrow> ('h, 'o) dev_state \<Rightarrow>
    ((int \<times> ('h, 'o) dev_state) + ('h, 'o) dev_state) option" where
  "cdev_add_body parent dev cur s =
     do { c \<leftarrow> ds_regs s cur;
          if sc_dev c = dev
          then if sc_cdev c \<noteq> 0 then Some (Inl (- EINVAL, s))
               else Some (Inr (s\<lparr>ds_regs := (ds_regs s)(cur \<mapsto> c\<lparr>sc_cdev := parent\<rparr>)\<rparr>))
          else Some (Inr s) }"

definition cdev_add :: "dev_layout \<Rightarrow> addr \<Rightarrow> dev_t \<Rightarrow> u32 \<Rightarrow> ('h, 'o) dev_state \<Rightarrow>
    (int \<times> ('h, 'o) dev_state) option" where
  "cdev_add ly parent dev x s =
     do { r \<leftarrow> list_for_each_entry_do (cdev_add_body parent dev)
               others_off (seL4_RegisteredClasses ly + others_off) (ds_links s) s;
          Some (case r of Inl v \<Rightarrow> v | Inr s \<Rightarrow> (0, s)) }"

definition cdev_del :: "'h libc \<Rightarrow> dev_layout \<Rightarrow> addr \<Rightarrow> ('h, 'o) dev_state \<Rightarrow> ('h, 'o) dev_state option" where
  "cdev_del L ly dev s =
     (if dev = 0 then None
      else do {
        r \<leftarrow> list_for_each_entry_do (\<lambda>cur u.
               do { c \<leftarrow> ds_nodes s cur; Some (if c = dev then Inl cur else Inr u) })
             siblings_off (all_devs ly + siblings_off) (ds_links s) ();
        k \<leftarrow> (case r of Inl cur \<Rightarrow> list_del (cur + siblings_off) (ds_links s) | Inr _ \<Rightarrow> Some (ds_links s));
        Some (s\<lparr>ds_links := k, ds_mem := kfree L (Some (dev, [])) (ds_mem s),
                ds_cdevs := (ds_cdevs s)(dev := None)\<rparr>) })"

definition cd_forget :: "addr \<Rightarrow> ('h, 'o) dev_state \<Rightarrow> ('h, 'o) dev_state" where
  "cd_forget node s = s"

definition device_destroy :: "addr \<Rightarrow> dev_t \<Rightarrow> ('h, 'o) dev_state \<Rightarrow> ('h, 'o) dev_state option" where
  "device_destroy cls dev s = do { name \<leftarrow> ds_classes s cls; Some s }"

text \<open>The copy of a name that \<open>device_create\<close> and \<open>__class_create\<close> make: \<open>calloc\<close> of the string's
  length, then \<open>strncpy\<close>.\<close>

definition dup_name :: "'h libc \<Rightarrow> string \<Rightarrow> ('h, 'o) dev_state \<Rightarrow> (addr \<times> ('h, 'o) dev_state) option" where
  "dup_name L name s =
     (case ext_calloc L 1 (strlen name) (ds_mem s) of
        (None, m) \<Rightarrow> if strlen name = 0 then Some (0, s\<lparr>ds_mem := m\<rparr>) else None
      | (Some (p, bs), m) \<Rightarrow>
          do { bs \<leftarrow> strncpy bs name (strlen name);
               Some (p, s\<lparr>ds_mem := m, ds_bufs := (ds_bufs s)(p \<mapsto> bs)\<rparr>) })"

definition device_create :: "'h libc \<Rightarrow> dev_layout \<Rightarrow> addr \<Rightarrow> addr \<Rightarrow> dev_t \<Rightarrow> addr \<Rightarrow> string \<Rightarrow>
    ('h, 'o) dev_state \<Rightarrow> (addr \<times> ('h, 'o) dev_state) option" where
  "device_create L ly cls parent dev drvdata fmt s =
     do { _ \<leftarrow> ds_classes s cls;
          case ext_malloc L (sz_device ly) (ds_mem s) of
            (None, m) \<Rightarrow> None
          | (Some (device, db), m) \<Rightarrow>
              do { (name, s) \<leftarrow> dup_name L fmt (s\<lparr>ds_mem := m\<rparr>);
                   let s = s\<lparr>ds_devices := (ds_devices s)(device \<mapsto> name)\<rparr>
                   in case ext_malloc L sz_seL4_Class (ds_mem s) of
                        (None, m) \<Rightarrow> Some (0, s\<lparr>ds_mem := m\<rparr>)
                      | (Some (new, nb), m) \<Rightarrow>
                          do { k \<leftarrow> list_add (new + others_off) (seL4_RegisteredClasses ly + others_off)
                                      (map_list_head new nb others_off (ds_links s));
                               Some (device,
                                 s\<lparr>ds_mem := m, ds_links := k,
                                   ds_regs := (ds_regs s)(new \<mapsto>
                                     \<lparr>sc_cdev = 0, sc_name = take 255 (''/dev/'' @ fmt), sc_dev = dev\<rparr>)\<rparr>) } } }"

text \<open>\<open>__class_create\<close>.\<close>

definition class_create :: "'h libc \<Rightarrow> dev_layout \<Rightarrow> addr \<Rightarrow> string \<Rightarrow> addr \<Rightarrow> ('h, 'o) dev_state \<Rightarrow>
    (addr \<times> ('h, 'o) dev_state) option" where
  "class_create L ly owner name k s =
     (case ext_malloc L (sz_class ly) (ds_mem s) of
        (None, m) \<Rightarrow> Some (0, s\<lparr>ds_mem := m\<rparr>)
      | (Some (cls, cb), m) \<Rightarrow>
          do { (p, s) \<leftarrow> dup_name L name (s\<lparr>ds_mem := m\<rparr>);
               Some (cls, s\<lparr>ds_classes := (ds_classes s)(cls \<mapsto> p)\<rparr>) })"

definition class_destroy :: "'h libc \<Rightarrow> addr \<Rightarrow> ('h, 'o) dev_state \<Rightarrow> ('h, 'o) dev_state option" where
  "class_destroy L cls s =
     (let s = (if cls = 0 then s
               else s\<lparr>ds_mem := kfree L (Some (cls, [])) (ds_mem s), ds_classes := (ds_classes s)(cls := None)\<rparr>)
      in do { name \<leftarrow> ds_classes s cls; Some s })"

definition class_unregister :: "addr \<Rightarrow> ('h, 'o) dev_state \<Rightarrow> ('h, 'o) dev_state option" where
  "class_unregister cls s = do { name \<leftarrow> ds_classes s cls; Some s }"

text \<open>\<open>__release_region\<close> and the region functions do nothing but print.\<close>

definition release_region :: "addr \<Rightarrow> u32 \<Rightarrow> u32 \<Rightarrow> ('h, 'o) dev_state \<Rightarrow> ('h, 'o) dev_state" where
  "release_region res start n s = s"

definition unregister_chrdev_region :: "dev_t \<Rightarrow> u32 \<Rightarrow> ('h, 'o) dev_state \<Rightarrow> ('h, 'o) dev_state" where
  "unregister_chrdev_region d x s = s"

definition register_chrdev_region :: "dev_t \<Rightarrow> u32 \<Rightarrow> string option \<Rightarrow> ('h, 'o) dev_state \<Rightarrow> int \<times> ('h, 'o) dev_state" where
  "register_chrdev_region dev start name s = (0, s)"

section \<open>Invariant\<close>

definition dev_ok :: "dev_layout \<Rightarrow> ('h \<Rightarrow> addr \<rightharpoonup> nat) \<Rightarrow> ('h, 'o) dev_state \<Rightarrow> addr list \<Rightarrow> addr list \<Rightarrow> bool" where
  "dev_ok ly blocks s cs ds \<longleftrightarrow>
     blocks_apart (blocks (ds_mem s)) \<and>
     objs (blocks (ds_mem s)) (ds_links s) others_off 272 (seL4_RegisteredClasses ly) cs \<and>
     objs (blocks (ds_mem s)) (ds_links s) siblings_off 12 (all_devs ly) ds \<and>
     (\<forall>p \<in> set cs. ds_regs s p \<noteq> None) \<and> (\<forall>p \<in> set ds. ds_nodes s p \<noteq> None)"

text \<open>The registered classes and the devices after the first, as sequences.\<close>

definition registry :: "('h, 'o) dev_state \<Rightarrow> addr list \<Rightarrow> seL4_Class list" where
  "registry s cs = map (\<lambda>p. the (ds_regs s p)) cs"

definition others_of :: "('h, 'o) dev_state \<Rightarrow> addr list \<Rightarrow> addr list" where
  "others_of s ds = map (\<lambda>p. the (ds_nodes s p)) ds"

lemma dev_okD:
  assumes "dev_ok ly blocks s cs ds"
  shows "blocks_apart (blocks (ds_mem s))"
    and "objs (blocks (ds_mem s)) (ds_links s) others_off 272 (seL4_RegisteredClasses ly) cs"
    and "objs (blocks (ds_mem s)) (ds_links s) siblings_off 12 (all_devs ly) ds"
    and "p \<in> set cs \<Longrightarrow> ds_regs s p = Some (the (ds_regs s p))"
    and "q \<in> set ds \<Longrightarrow> ds_nodes s q = Some (the (ds_nodes s q))"
  using assms unfolding dev_ok_def by auto

text \<open>A new block of any kind, and the stores that leave both lists alone.\<close>

lemma dev_ok_new:
  assumes "dev_ok ly blocks s cs ds" "new_block (blocks (ds_mem s)) (blocks m) p n"
  shows "dev_ok ly blocks (s\<lparr>ds_mem := m\<rparr>) cs ds"
  using assms(1) new_block_apart [OF assms(2)] objs_new_plain [OF _ assms(2)] by (simp add: dev_ok_def)

text \<open>The invariant only looks at the blocks, the links and which objects exist.\<close>

lemma dev_ok_cong:
  assumes "dev_ok ly blocks s cs ds" "blocks (ds_mem s') = blocks (ds_mem s)" "ds_links s' = ds_links s"
    and "dom (ds_regs s') = dom (ds_regs s)" "dom (ds_nodes s') = dom (ds_nodes s)"
  shows "dev_ok ly blocks s' cs ds"
  using assms unfolding dev_ok_def by (metis domIff)

lemma dev_ok_map:
  assumes ok: "dev_ok ly blocks s cs ds" and new: "new_block (blocks (ds_mem s)) (blocks (ds_mem s')) p n" "unat o' < n"
    and "ds_links s' = map_list_head p bs o' (ds_links s)"
    and "dom (ds_regs s') = dom (ds_regs s)" "dom (ds_nodes s') = dom (ds_nodes s)"
  shows "dev_ok ly blocks s' cs ds"
  using ok assms(4-) objs_new [OF dev_okD(2) [OF ok] new] objs_new [OF dev_okD(3) [OF ok] new]
    new_block_apart [OF new(1) dev_okD(1) [OF ok]]
  unfolding dev_ok_def by (metis domIff)

lemma dev_ok_fail:
  "dev_ok ly blocks s cs ds \<Longrightarrow> blocks m = blocks (ds_mem s) \<Longrightarrow> dev_ok ly blocks (s\<lparr>ds_mem := m\<rparr>) cs ds"
  by (simp add: dev_ok_def)

lemma dev_ok_frame [simp]:
  "dev_ok ly blocks (s\<lparr>ds_bufs := a\<rparr>) cs ds = dev_ok ly blocks s cs ds"
  "dev_ok ly blocks (s\<lparr>ds_devices := b\<rparr>) cs ds = dev_ok ly blocks s cs ds"
  "dev_ok ly blocks (s\<lparr>ds_classes := b\<rparr>) cs ds = dev_ok ly blocks s cs ds"
  "dev_ok ly blocks (s\<lparr>ds_cdevs := c\<rparr>) cs ds = dev_ok ly blocks s cs ds"
  "dev_ok ly blocks (s\<lparr>ds_cur := d\<rparr>) cs ds = dev_ok ly blocks s cs ds"
  by (simp_all add: dev_ok_def)

lemma registry_frame [simp]:
  "registry (s\<lparr>ds_mem := m\<rparr>) cs = registry s cs" "registry (s\<lparr>ds_bufs := a\<rparr>) cs = registry s cs"
  "registry (s\<lparr>ds_devices := b\<rparr>) cs = registry s cs" "registry (s\<lparr>ds_links := k\<rparr>) cs = registry s cs"
  "registry (s\<lparr>ds_nodes := b\<rparr>) cs = registry s cs" "registry (s\<lparr>ds_classes := b\<rparr>) cs = registry s cs"
  "registry (s\<lparr>ds_cdevs := c\<rparr>) cs = registry s cs" "registry (s\<lparr>ds_cur := d\<rparr>) cs = registry s cs"
  by (simp_all add: registry_def)

lemma others_of_frame [simp]:
  "others_of (s\<lparr>ds_mem := m\<rparr>) ds = others_of s ds" "others_of (s\<lparr>ds_links := k\<rparr>) ds = others_of s ds"
  "others_of (s\<lparr>ds_cdevs := c\<rparr>) ds = others_of s ds" "others_of (s\<lparr>ds_cur := d\<rparr>) ds = others_of s ds"
  by (simp_all add: others_of_def)

text \<open>Lists of objects of another size than a class survive.\<close>

definition lists_kept :: "('h \<Rightarrow> addr \<rightharpoonup> nat) \<Rightarrow> ('h, 'o) dev_state \<Rightarrow> ('h, 'o) dev_state \<Rightarrow> bool" where
  "lists_kept blocks s s' \<longleftrightarrow> (\<forall>off sz head ps. sz \<noteq> 272 \<longrightarrow>
     objs (blocks (ds_mem s)) (ds_links s) off sz head ps \<longrightarrow> objs (blocks (ds_mem s')) (ds_links s') off sz head ps)"

lemma lists_kept_same: "ds_mem s' = ds_mem s \<Longrightarrow> ds_links s' = ds_links s \<Longrightarrow> lists_kept blocks s s'"
  by (simp add: lists_kept_def)

lemma lists_kept_trans: "lists_kept blocks s t \<Longrightarrow> lists_kept blocks t u \<Longrightarrow> lists_kept blocks s u"
  by (simp add: lists_kept_def)

lemma lists_kept_new:
  "new_block (blocks (ds_mem s)) (blocks (ds_mem s')) p n \<Longrightarrow> ds_links s' = ds_links s \<Longrightarrow> lists_kept blocks s s'"
  by (simp add: lists_kept_def objs_new_plain)

text \<open>A new class at the front of the registered ones.\<close>

lemma dev_ok_add_class:
  assumes ok: "dev_ok ly blocks s cs ds" and new: "new_block (blocks (ds_mem s)) (blocks m) p 272"
  shows "\<exists>k. list_add (p + others_off) (seL4_RegisteredClasses ly + others_off)
      (map_list_head p bs others_off (ds_links s)) = Some k \<and>
    dev_ok ly blocks (s\<lparr>ds_mem := m, ds_links := k, ds_regs := (ds_regs s)(p \<mapsto> c)\<rparr>) (p # cs) ds \<and>
    lists_kept blocks s (s\<lparr>ds_mem := m, ds_links := k, ds_regs := (ds_regs s)(p \<mapsto> c)\<rparr>)"
proof -
  have off: "unat others_off < 272" by (simp add: others_off_def)
  have ds: "objs (blocks m) (map_list_head p bs others_off (ds_links s)) siblings_off 12 (all_devs ly) ds"
    by (rule objs_new [OF dev_okD(3) [OF ok] new off])
  have cs: "objs (blocks m) (map_list_head p bs others_off (ds_links s)) others_off 272 (seL4_RegisteredClasses ly) cs"
    by (rule objs_new [OF dev_okD(2) [OF ok] new off])
  obtain k where k: "list_add (p + others_off) (seL4_RegisteredClasses ly + others_off)
      (map_list_head p bs others_off (ds_links s)) = Some k"
    "objs (blocks m) k others_off 272 (seL4_RegisteredClasses ly) (p # cs)"
    "links_kept (map_list_head p bs others_off (ds_links s)) k (set (map (\<lambda>p. p + others_off) (seL4_RegisteredClasses ly # p # cs)))"
    using objs_add [OF dev_okD(2) [OF ok] new] by blast
  have ap: "blocks_apart (blocks m)" by (rule new_block_apart [OF new dev_okD(1) [OF ok]])
  have "objs (blocks m) k siblings_off 12 (all_devs ly) ds"
    by (rule objs_other [OF ds ap k(2) _ k(3)]) simp
  moreover have "objs (blocks m) k off' sz head ps" if "sz \<noteq> 272" "objs (blocks (ds_mem s)) (ds_links s) off' sz head ps" for off' sz head ps
    by (rule objs_other [OF objs_new [OF that(2) new off] ap k(2) that(1) k(3)])
  ultimately show ?thesis using k ap ok by (auto simp: dev_ok_def lists_kept_def)
qed

text \<open>A new node at the front of the devices, and the removal of one.\<close>

lemma dev_ok_add_node:
  assumes ok: "dev_ok ly blocks s cs ds" and new: "new_block (blocks (ds_mem s)) (blocks m) p 12"
  shows "\<exists>k. list_add (p + siblings_off) (all_devs ly + siblings_off)
      (map_list_head p bs siblings_off (ds_links s)) = Some k \<and>
    dev_ok ly blocks (s\<lparr>ds_mem := m, ds_nodes := (ds_nodes s)(p \<mapsto> d), ds_links := k\<rparr>) cs (p # ds)"
proof -
  have off: "unat siblings_off < 12" by (simp add: siblings_off_def)
  have cs: "objs (blocks m) (map_list_head p bs siblings_off (ds_links s)) others_off 272 (seL4_RegisteredClasses ly) cs"
    by (rule objs_new [OF dev_okD(2) [OF ok] new off])
  obtain k where k: "list_add (p + siblings_off) (all_devs ly + siblings_off)
      (map_list_head p bs siblings_off (ds_links s)) = Some k"
    "objs (blocks m) k siblings_off 12 (all_devs ly) (p # ds)"
    "links_kept (map_list_head p bs siblings_off (ds_links s)) k (set (map (\<lambda>p. p + siblings_off) (all_devs ly # p # ds)))"
    using objs_add [OF dev_okD(3) [OF ok] new] by blast
  have ap: "blocks_apart (blocks m)" by (rule new_block_apart [OF new dev_okD(1) [OF ok]])
  have "objs (blocks m) k others_off 272 (seL4_RegisteredClasses ly) cs"
    by (rule objs_other [OF cs ap k(2) _ k(3)]) simp
  with k ap ok show ?thesis by (auto simp: dev_ok_def)
qed

lemma dev_ok_del_node:
  assumes ok: "dev_ok ly blocks s cs ds" and p: "p \<in> set ds"
  shows "\<exists>k. list_del (p + siblings_off) (ds_links s) = Some k \<and>
    dev_ok ly blocks (s\<lparr>ds_links := k\<rparr>) cs (remove1 p ds)"
proof -
  obtain k where k: "list_del (p + siblings_off) (ds_links s) = Some k"
    "objs (blocks (ds_mem s)) k siblings_off 12 (all_devs ly) (remove1 p ds)"
    "links_kept (ds_links s) k (set (map (\<lambda>p. p + siblings_off) (all_devs ly # ds)))"
    using objs_del [OF dev_okD(3) [OF ok] p] by blast
  have "objs (blocks (ds_mem s)) k others_off 272 (seL4_RegisteredClasses ly) cs"
    by (rule objs_other [OF dev_okD(2) [OF ok] dev_okD(1) [OF ok] dev_okD(3) [OF ok] _ k(3)]) simp
  moreover have "\<forall>q \<in> set (remove1 p ds). ds_nodes s q \<noteq> None"
    using ok set_remove1_subset [of p ds] by (auto simp: dev_ok_def)
  ultimately show ?thesis using k ok by (auto simp: dev_ok_def)
qed

text \<open>Freeing a block that is in neither list.\<close>

lemma dev_ok_free:
  assumes "heap_ok L blocks" "dev_ok ly blocks s cs ds"
    and "p \<notin> set (seL4_RegisteredClasses ly # all_devs ly # cs @ ds)"
  shows "dev_ok ly blocks (s\<lparr>ds_mem := kfree L (Some (p, bs)) (ds_mem s)\<rparr>) cs ds"
  using assms blocks_apart_free [of "blocks (ds_mem s)" p]
  by (simp add: dev_ok_def kfree_def heap_ok_free [OF assms(1)] objs_free del: fun_upd_apply)

section \<open>Operations\<close>

lemma of_char_nonzero: "(0 :: u8) = of_nat (of_char c) \<Longrightarrow> c = CHR 0x00"
proof -
  assume "(0 :: u8) = of_nat (of_char c)"
  then have "unat (of_nat (of_char c) :: u8) = 0" by simp
  then have "(of_char c :: nat) = 0" using nat_of_char_less_256 [of c] by (simp add: unat_of_nat)
  then have "(of_char c :: nat) = of_char (CHR 0x00)" by simp
  then show ?thesis by (simp only: of_char_eq_iff)
qed

text \<open>The length of a copied name, and the copy itself: it holds no terminator.\<close>

lemma strncpy_dup: "length bs = unat (strlen name) \<Longrightarrow> length name < 2 ^ 32 \<Longrightarrow>
    strncpy bs name (strlen name) = Some (bytes_of name)"
  by (simp add: strncpy_def strlen_def bytes_of_def mem_store_def unat_of_nat)

lemma dup_name_result:
  assumes "heap_ok L blocks" "dev_ok ly blocks s cs ds" "length name < 2 ^ 32"
    and "ext_calloc L 1 (strlen name) (ds_mem s) = (Some (p, bs), m)"
  shows "dup_name L name s = Some (p, s\<lparr>ds_mem := m, ds_bufs := (ds_bufs s)(p \<mapsto> bytes_of name)\<rparr>)"
    "dev_ok ly blocks (s\<lparr>ds_mem := m, ds_bufs := (ds_bufs s)(p \<mapsto> bytes_of name)\<rparr>) cs ds"
    "new_block (blocks (ds_mem s)) (blocks m) p (length name)"
    "lists_kept blocks s (s\<lparr>ds_mem := m, ds_bufs := (ds_bufs s)(p \<mapsto> bytes_of name)\<rparr>)"
proof -
  have l: "length bs = unat (strlen name)" "new_block (blocks (ds_mem s)) (blocks m) p (unat (strlen name))"
    using heap_ok_calloc [OF assms(1), of 1 "strlen name" "ds_mem s"] assms(4)
    by (simp_all add: alloc_law_Some)
  then show "dup_name L name s = Some (p, s\<lparr>ds_mem := m, ds_bufs := (ds_bufs s)(p \<mapsto> bytes_of name)\<rparr>)"
    using strncpy_dup [OF l(1) assms(3)] assms(4) by (simp add: dup_name_def)
  show "dev_ok ly blocks (s\<lparr>ds_mem := m, ds_bufs := (ds_bufs s)(p \<mapsto> bytes_of name)\<rparr>) cs ds"
    using dev_ok_new [OF assms(2) l(2)] by simp
  show n: "new_block (blocks (ds_mem s)) (blocks m) p (length name)"
    using l(2) assms(3) by (simp add: strlen_def unat_of_nat)
  show "lists_kept blocks s (s\<lparr>ds_mem := m, ds_bufs := (ds_bufs s)(p \<mapsto> bytes_of name)\<rparr>)"
    by (rule lists_kept_new [of _ _ _ p "length name"]) (simp_all add: n)
qed

text \<open>The lookup finds the first class with the name.\<close>

lemma device_by_name_find:
  assumes "dev_ok ly blocks s cs ds"
  shows "device_by_name ly name s =
    Some (case find (\<lambda>p. strncmp_eq (sc_name (the (ds_regs s p))) name 256) cs of None \<Rightarrow> 0 | Some p \<Rightarrow> p)"
proof -
  have "run_entries (\<lambda>cls u. do { c \<leftarrow> ds_regs s cls;
        Some (if strncmp_eq (sc_name c) name 256 then Inl cls else Inr u) }) cs () =
      Some (case find (\<lambda>p. strncmp_eq (sc_name (the (ds_regs s p))) name 256) cs of
        None \<Rightarrow> Inr () | Some p \<Rightarrow> Inl p)"
    using dev_okD(4) [OF assms] by (intro run_entries_find) (metis bind.bind_lunit)
  then show ?thesis
    unfolding device_by_name_def
    by (simp add: objs_loop [OF dev_okD(2) [OF assms]] split: option.splits)
qed

text \<open>
  What \<open>cdev_add\<close> does to the sequence of registered classes: it attaches the device to every
  class with the device number, up to the first one that has a device already.
\<close>

fun attach :: "addr \<Rightarrow> dev_t \<Rightarrow> seL4_Class list \<Rightarrow> int \<times> seL4_Class list" where
  "attach parent dev [] = (0, [])"
| "attach parent dev (c # cs) =
     (if sc_dev c = dev \<and> sc_cdev c \<noteq> 0 then (- EINVAL, c # cs)
      else let (r, cs') = attach parent dev cs
           in (r, (if sc_dev c = dev then c\<lparr>sc_cdev := parent\<rparr> else c) # cs'))"

lemma attach_length: "length (snd (attach parent dev cs)) = length cs"
  by (induction cs) (auto simp: split_beta)

lemma attach_result: "fst (attach parent dev cs) =
    (if \<exists>c \<in> set cs. sc_dev c = dev \<and> sc_cdev c \<noteq> 0 then - EINVAL else 0)"
  by (induction cs) (auto simp: split_beta)

lemma attach_free:
  "\<forall>c \<in> set cs. sc_dev c = dev \<longrightarrow> sc_cdev c = 0 \<Longrightarrow>
   attach parent dev cs = (0, map (\<lambda>c. if sc_dev c = dev then c\<lparr>sc_cdev := parent\<rparr> else c) cs)"
  by (induction cs) auto

lemma run_cdev_add:
  assumes "distinct cs" "\<forall>p \<in> set cs. ds_regs s p \<noteq> None"
  shows "\<exists>R. do { r \<leftarrow> run_entries (cdev_add_body parent dev) cs s;
                 Some (case r of Inl v \<Rightarrow> v | Inr s \<Rightarrow> (0, s)) } =
             Some (fst (attach parent dev (registry s cs)), s\<lparr>ds_regs := R\<rparr>) \<and>
           map (\<lambda>p. the (R p)) cs = snd (attach parent dev (registry s cs)) \<and>
           (\<forall>p. p \<notin> set cs \<longrightarrow> R p = ds_regs s p) \<and> dom R = dom (ds_regs s)"
  using assms
proof (induction cs arbitrary: s)
  case Nil
  then show ?case by (auto simp: registry_def intro: exI [of _ "ds_regs s"])
next
  case (Cons p ps)
  then obtain c where c: "ds_regs s p = Some c" by auto
  show ?case
  proof (cases "sc_dev c = dev \<and> sc_cdev c \<noteq> 0")
    case True
    then show ?thesis using c
      by (auto simp: registry_def cdev_add_body_def intro: exI [of _ "ds_regs s"])
  next
    case False
    define c' where "c' = (if sc_dev c = dev then c\<lparr>sc_cdev := parent\<rparr> else c)"
    define t where "t = s\<lparr>ds_regs := (ds_regs s)(p \<mapsto> c')\<rparr>"
    have b: "cdev_add_body parent dev p s = Some (Inr t)"
    proof (cases "sc_dev c = dev")
      case True
      then show ?thesis using False c by (simp add: cdev_add_body_def t_def c'_def)
    next
      case d: False
      then have "t = s" using c by (simp add: t_def c'_def fun_upd_idem)
      then show ?thesis using d c by (simp add: cdev_add_body_def)
    qed
    have p: "p \<notin> set ps" "distinct ps" using Cons.prems by auto
    have reg: "registry t ps = registry s ps" using p(1) by (auto simp: registry_def t_def)
    have "\<forall>q \<in> set ps. ds_regs t q \<noteq> None" using Cons.prems by (auto simp: t_def)
    from Cons.IH [OF p(2) this] obtain R where R:
      "do { r \<leftarrow> run_entries (cdev_add_body parent dev) ps t; Some (case r of Inl v \<Rightarrow> v | Inr s \<Rightarrow> (0, s)) } =
         Some (fst (attach parent dev (registry s ps)), t\<lparr>ds_regs := R\<rparr>)"
      "map (\<lambda>p. the (R p)) ps = snd (attach parent dev (registry s ps))"
      "\<forall>q. q \<notin> set ps \<longrightarrow> R q = ds_regs t q" "dom R = dom (ds_regs t)" unfolding reg by blast
    have "attach parent dev (registry s (p # ps)) =
        (fst (attach parent dev (registry s ps)), c' # snd (attach parent dev (registry s ps)))"
      using False c by (auto simp: registry_def c'_def split_beta)
    then show ?thesis using R b c p by (intro exI [of _ R]) (auto simp: t_def)
  qed
qed

lemma cdev_add_ok:
  assumes "dev_ok ly blocks s cs ds"
  shows "\<exists>R. cdev_add ly parent dev x s = Some (fst (attach parent dev (registry s cs)), s\<lparr>ds_regs := R\<rparr>) \<and>
    registry (s\<lparr>ds_regs := R\<rparr>) cs = snd (attach parent dev (registry s cs)) \<and>
    (\<forall>p. p \<notin> set cs \<longrightarrow> R p = ds_regs s p) \<and> dev_ok ly blocks (s\<lparr>ds_regs := R\<rparr>) cs ds"
proof -
  have d: "distinct cs" "\<forall>p \<in> set cs. ds_regs s p \<noteq> None"
    using objs_distinct [OF dev_okD(2) [OF assms]] assms by (auto simp: dev_ok_def)
  from run_cdev_add [OF d] obtain R where R:
    "do { r \<leftarrow> run_entries (cdev_add_body parent dev) cs s; Some (case r of Inl v \<Rightarrow> v | Inr s \<Rightarrow> (0, s)) } =
       Some (fst (attach parent dev (registry s cs)), s\<lparr>ds_regs := R\<rparr>)"
    "map (\<lambda>p. the (R p)) cs = snd (attach parent dev (registry s cs))"
    "\<forall>p. p \<notin> set cs \<longrightarrow> R p = ds_regs s p" "dom R = dom (ds_regs s)" by blast
  have "\<forall>p \<in> set cs. R p \<noteq> None" using d(2) R(4) by blast
  then have "dev_ok ly blocks (s\<lparr>ds_regs := R\<rparr>) cs ds" using assms by (simp add: dev_ok_def)
  with R show ?thesis
    by (intro exI [of _ R]) (simp add: cdev_add_def objs_loop [OF dev_okD(2) [OF assms]] registry_def)
qed

lemma cdev_put_first:
  "ds_cdevs s p = Some c \<Longrightarrow> p \<noteq> 0 \<Longrightarrow> ds_cur s = 0 \<Longrightarrow> cdev_put L ly p s = Some (s\<lparr>ds_cur := p\<rparr>)"
  by (simp add: cdev_put_def)

lemma cdev_put_next:
  assumes "heap_ok L blocks" "dev_ok ly blocks s cs ds" "ds_cdevs s p = Some c" "p \<noteq> 0" "ds_cur s \<noteq> 0"
    and "kmalloc L True sz_device_list GFP_KERNEL (ds_mem s) = (Some (l, bs), m)"
  shows "\<exists>k. cdev_put L ly p s = Some (s\<lparr>ds_mem := m, ds_nodes := (ds_nodes s)(l \<mapsto> p), ds_links := k\<rparr>) \<and>
    dev_ok ly blocks (s\<lparr>ds_mem := m, ds_nodes := (ds_nodes s)(l \<mapsto> p), ds_links := k\<rparr>) cs (l # ds) \<and>
    others_of (s\<lparr>ds_mem := m, ds_nodes := (ds_nodes s)(l \<mapsto> p), ds_links := k\<rparr>) (l # ds) = p # others_of s ds"
proof -
  have new: "new_block (blocks (ds_mem s)) (blocks m) l 12"
    using kmalloc_law [OF assms(1), of sz_device_list "ds_mem s" True GFP_KERNEL] assms(6)
    by (simp add: alloc_law_Some sz_device_list_def)
  then have "l \<notin> set ds"
    using dev_okD(3) [OF assms(2)] new_block_other [OF new] by (auto simp: objs_def)
  then have "others_of (s\<lparr>ds_mem := m, ds_nodes := (ds_nodes s)(l \<mapsto> p), ds_links := k\<rparr>) (l # ds) =
      p # others_of s ds" for k
    by (auto simp: others_of_def)
  with dev_ok_add_node [OF assms(2) new, of bs p] assms(3-6) show ?thesis
    by (auto simp: cdev_put_def)
qed

text \<open>\<open>cdev_del\<close> takes the first node of the device out of the list and frees the device.\<close>

lemma cdev_del_ok:
  assumes "heap_ok L blocks" "dev_ok ly blocks s cs ds" "dev \<noteq> 0"
    and "dev \<notin> set (seL4_RegisteredClasses ly # all_devs ly # cs @ ds)"
  defines "ds' \<equiv> (case find (\<lambda>p. ds_nodes s p = Some dev) ds of None \<Rightarrow> ds | Some p \<Rightarrow> remove1 p ds)"
  shows "\<exists>k. cdev_del L ly dev s = Some (s\<lparr>ds_links := k, ds_mem := kfree L (Some (dev, [])) (ds_mem s),
      ds_cdevs := (ds_cdevs s)(dev := None)\<rparr>) \<and>
    dev_ok ly blocks (s\<lparr>ds_links := k, ds_mem := kfree L (Some (dev, [])) (ds_mem s),
      ds_cdevs := (ds_cdevs s)(dev := None)\<rparr>) cs ds'"
proof -
  let ?Q = "\<lambda>p. ds_nodes s p = Some dev"
  have "\<forall>p \<in> set ds. do { c \<leftarrow> ds_nodes s p; Some (if c = dev then Inl p else Inr ()) } =
      Some (if ?Q p then Inl p else Inr ())"
    using assms(2) by (auto simp: dev_ok_def)
  from run_entries_find [of ds "\<lambda>cur u. do { c \<leftarrow> ds_nodes s cur; Some (if c = dev then Inl cur else Inr u) }" "()",
      OF this]
  have r: "list_for_each_entry_do (\<lambda>cur u. do { c \<leftarrow> ds_nodes s cur; Some (if c = dev then Inl cur else Inr u) })
      siblings_off (all_devs ly + siblings_off) (ds_links s) () =
      Some (case find ?Q ds of None \<Rightarrow> Inr () | Some p \<Rightarrow> Inl p)"
    by (simp add: objs_loop [OF dev_okD(3) [OF assms(2)]])
  have "\<exists>k. (case find ?Q ds of None \<Rightarrow> Some (ds_links s) | Some p \<Rightarrow> list_del (p + siblings_off) (ds_links s)) = Some k \<and>
      dev_ok ly blocks (s\<lparr>ds_links := k\<rparr>) cs ds'"
  proof (cases "find ?Q ds")
    case None
    then show ?thesis using assms(2) by (simp add: ds'_def)
  next
    case (Some p)
    then have "p \<in> set ds" by (auto simp: find_Some_iff)
    from dev_ok_del_node [OF assms(2) this] Some show ?thesis by (simp add: ds'_def)
  qed
  then obtain k where k: "(case find ?Q ds of None \<Rightarrow> Some (ds_links s)
      | Some p \<Rightarrow> list_del (p + siblings_off) (ds_links s)) = Some k" "dev_ok ly blocks (s\<lparr>ds_links := k\<rparr>) cs ds'" by blast
  have "set ds' \<subseteq> set ds" using set_remove1_subset by (fastforce simp: ds'_def split: option.splits)
  with dev_ok_free [OF assms(1) k(2), of dev "[]"] assms(4)
  have "dev_ok ly blocks (s\<lparr>ds_links := k, ds_mem := kfree L (Some (dev, [])) (ds_mem s)\<rparr>) cs ds'" by auto
  with k(1) r assms(3) show ?thesis
    by (cases "find ?Q ds") (auto simp: cdev_del_def dev_ok_def)
qed

lemma device_create_ok:
  assumes heap: "heap_ok L blocks" and ok: "dev_ok ly blocks s cs ds"
    and cls: "ds_classes s cls \<noteq> None" and len: "length fmt < 2 ^ 32"
    and dm: "ext_malloc L (sz_device ly) (ds_mem s) = (Some (d, db), m1)"
    and nm: "ext_calloc L 1 (strlen fmt) m1 = (Some (b, bb), m2)"
    and cm: "ext_malloc L sz_seL4_Class m2 = (Some (c, cb), m3)"
  shows "\<exists>s'. device_create L ly cls parent dev drvdata fmt s = Some (d, s') \<and> dev_ok ly blocks s' (c # cs) ds \<and>
    ds_regs s' = (ds_regs s)(c \<mapsto> \<lparr>sc_cdev = 0, sc_name = take 255 (''/dev/'' @ fmt), sc_dev = dev\<rparr>) \<and>
    ds_mem s' = m3 \<and> ds_cdevs s' = ds_cdevs s \<and> ds_ops s' = ds_ops s \<and> ds_classes s' = ds_classes s \<and>
    ds_bufs s' = (ds_bufs s)(b \<mapsto> bytes_of fmt) \<and> ds_devices s' = (ds_devices s)(d \<mapsto> b) \<and> lists_kept blocks s s'"
proof -
  have n1: "new_block (blocks (ds_mem s)) (blocks m1) d (unat (sz_device ly))"
    using heap_ok_malloc [OF heap, of "sz_device ly" "ds_mem s"] dm by (simp add: alloc_law_Some)
  have ok1: "dev_ok ly blocks (s\<lparr>ds_mem := m1\<rparr>) cs ds" by (rule dev_ok_new [OF ok n1])
  have nm': "ext_calloc L 1 (strlen fmt) (ds_mem (s\<lparr>ds_mem := m1\<rparr>)) = (Some (b, bb), m2)" using nm by simp
  define t where "t = s\<lparr>ds_mem := m2, ds_bufs := (ds_bufs s)(b \<mapsto> bytes_of fmt), ds_devices := (ds_devices s)(d \<mapsto> b)\<rparr>"
  have t: "dev_ok ly blocks t cs ds" "ds_mem t = m2" "ds_links t = ds_links s" "ds_regs t = ds_regs s"
    using dup_name_result(2) [OF heap ok1 len nm'] by (simp_all add: t_def)
  have k0: "lists_kept blocks s t"
    by (rule lists_kept_trans [OF lists_kept_new [of blocks s "s\<lparr>ds_mem := m1\<rparr>" d "unat (sz_device ly)"]
          lists_kept_trans [OF dup_name_result(4) [OF heap ok1 len nm'] lists_kept_same]]) (use n1 in \<open>simp_all add: t_def\<close>)
  have "new_block (blocks (ds_mem t)) (blocks m3) c 272"
    using heap_ok_malloc [OF heap, of sz_seL4_Class m2] cm t(2) by (simp add: alloc_law_Some sz_seL4_Class_def)
  from dev_ok_add_class [OF t(1) this, of cb] t(3,4) obtain k where
    k: "list_add (c + others_off) (seL4_RegisteredClasses ly + others_off) (map_list_head c cb others_off (ds_links s)) = Some k"
    "dev_ok ly blocks (t\<lparr>ds_mem := m3, ds_links := k,
       ds_regs := (ds_regs s)(c \<mapsto> \<lparr>sc_cdev = 0, sc_name = take 255 (''/dev/'' @ fmt), sc_dev = dev\<rparr>)\<rparr>) (c # cs) ds"
    "lists_kept blocks t (t\<lparr>ds_mem := m3, ds_links := k,
       ds_regs := (ds_regs s)(c \<mapsto> \<lparr>sc_cdev = 0, sc_name = take 255 (''/dev/'' @ fmt), sc_dev = dev\<rparr>)\<rparr>)"
    by metis
  define s' where "s' = t\<lparr>ds_mem := m3, ds_links := k,
       ds_regs := (ds_regs s)(c \<mapsto> \<lparr>sc_cdev = 0, sc_name = take 255 (''/dev/'' @ fmt), sc_dev = dev\<rparr>)\<rparr>"
  have "device_create L ly cls parent dev drvdata fmt s = Some (d, s')"
    using cls dm cm k(1) dup_name_result(1) [OF heap ok1 len nm']
    by (auto simp: device_create_def t_def s'_def Let_def)
  moreover have "dev_ok ly blocks s' (c # cs) ds" unfolding s'_def by (rule k(2))
  moreover have "lists_kept blocks s s'" using lists_kept_trans [OF k0 k(3)] by (simp only: s'_def)
  ultimately show ?thesis by (intro exI [of _ s']) (simp add: s'_def t_def)
qed

section \<open>Properties\<close>

definition sample_layout :: dev_layout where
  "sample_layout = \<lparr>sz_cdev = 0x40, sz_device = 0x100, sz_class = 0x40, all_devs = 0x100, seL4_RegisteredClasses = 0x200\<rparr>"

text \<open>No device and one class, whose device number is 5 and whose device is not attached yet.\<close>

definition sample_devs :: "((addr \<times> nat) list, unit) dev_state" where
  "sample_devs = \<lparr>ds_mem = [(0x100, 12), (0x200, 272), (0x400, 272)],
     ds_links = \<lparr>l_next = [0x104 \<mapsto> 0x104, 0x308 \<mapsto> 0x508, 0x508 \<mapsto> 0x308],
                 l_prev = [0x104 \<mapsto> 0x104, 0x308 \<mapsto> 0x508, 0x508 \<mapsto> 0x308]\<rparr>,
     ds_ops = [0x10 \<mapsto> ()], ds_cdevs = [0x700 \<mapsto> \<lparr>cd_dev = Some 0, cd_ops = Some 0x10\<rparr>], ds_cur = 0,
     ds_nodes = Map.empty, ds_regs = [0x400 \<mapsto> \<lparr>sc_cdev = 0, sc_name = ''/dev/a'', sc_dev = 5\<rparr>],
     ds_classes = [0x800 \<mapsto> 0x900], ds_devices = Map.empty, ds_bufs = Map.empty\<rparr>"

lemma sample_devs_ok: "dev_ok sample_layout map_of sample_devs [0x400] []"
proof -
  have "blocks_apart (map_of [(0x100, 12), (0x200, 272), (0x400, 272)])"
    by (rule stacked_apart [of 0]) simp
  then show ?thesis
    by (simp add: dev_ok_def sample_devs_def sample_layout_def objs_def dlist_def others_off_def siblings_off_def)
qed

text \<open>
  C21. \<open>device_create\<close> registers a class under the name \<open>/dev/\<close> followed by the given one, with
  the device number and no device attached: when the allocations succeed, the lookup of that
  name gives the new class and every other name is found as before.
\<close>

theorem device_create_registers:
  assumes "heap_ok L blocks" "dev_ok ly blocks s cs ds" "ds_classes s cls \<noteq> None" "length fmt \<le> 250"
    and "ext_malloc L (sz_device ly) (ds_mem s) = (Some (d, db), m1)"
    and "ext_calloc L 1 (strlen fmt) m1 = (Some (b, bb), m2)"
    and "ext_malloc L sz_seL4_Class m2 = (Some (c, cb), m3)"
  shows "\<exists>s'. device_create L ly cls parent dev drvdata fmt s = Some (d, s') \<and>
    dev_ok ly blocks s' (c # cs) ds \<and>
    registry s' (c # cs) = \<lparr>sc_cdev = 0, sc_name = ''/dev/'' @ fmt, sc_dev = dev\<rparr> # registry s cs \<and>
    device_by_name ly (''/dev/'' @ fmt) s' = Some c \<and>
    (\<forall>n. take 256 n \<noteq> ''/dev/'' @ fmt \<longrightarrow> device_by_name ly n s' = device_by_name ly n s)"
proof -
  have "length fmt < 2 ^ 32" using assms(4) by simp
  from device_create_ok [OF assms(1,2,3) this assms(5-7), of parent dev drvdata] obtain s' where
    s': "device_create L ly cls parent dev drvdata fmt s = Some (d, s')" "dev_ok ly blocks s' (c # cs) ds"
    "ds_regs s' = (ds_regs s)(c \<mapsto> \<lparr>sc_cdev = 0, sc_name = take 255 (''/dev/'' @ fmt), sc_dev = dev\<rparr>)"
    by blast
  have c: "c \<notin> set cs" using objs_distinct [OF dev_okD(2) [OF s'(2)]] by simp
  have r: "ds_regs s' = (ds_regs s)(c \<mapsto> \<lparr>sc_cdev = 0, sc_name = ''/dev/'' @ fmt, sc_dev = dev\<rparr>)"
    using assms(4) s'(3) by simp
  have reg: "registry s' (c # cs) = \<lparr>sc_cdev = 0, sc_name = ''/dev/'' @ fmt, sc_dev = dev\<rparr> # registry s cs"
    using c r by (auto simp: registry_def)
  have "find (\<lambda>p. strncmp_eq (sc_name (the (ds_regs s' p))) n 256) cs =
      find (\<lambda>p. strncmp_eq (sc_name (the (ds_regs s p))) n 256) cs" for n
    using c r by (auto intro!: find_cong)
  with s'(1,2) reg show ?thesis
    using assms(4) by (auto simp: device_by_name_find [OF s'(2)] device_by_name_find [OF assms(2)] r strncmp_eq_def)
qed

theorem device_create_registers_witness:
  "\<exists>s'. device_create log_libc sample_layout 0x800 0 7 0 ''b'' sample_devs = Some (0x1000, s') \<and>
    device_by_name sample_layout ''/dev/b'' s' = Some 0x1103 \<and>
    device_by_name sample_layout ''/dev/a'' s' = device_by_name sample_layout ''/dev/a'' sample_devs"
proof -
  have "ext_malloc log_libc (sz_device sample_layout) (ds_mem sample_devs) =
      (Some (0x1000, replicate 256 0xAA), (0x1000, 256) # ds_mem sample_devs)"
    "ext_calloc log_libc 1 (strlen ''b'') ((0x1000, 256) # ds_mem sample_devs) =
      (Some (0x1101, [0]), (0x1101, 1) # (0x1000, 256) # ds_mem sample_devs)"
    "ext_malloc log_libc sz_seL4_Class ((0x1101, 1) # (0x1000, 256) # ds_mem sample_devs) =
      (Some (0x1103, replicate 272 0xAA), (0x1103, 272) # (0x1101, 1) # (0x1000, 256) # ds_mem sample_devs)"
    by (simp_all add: log_libc_def log_alloc_def sample_layout_def sample_devs_def strlen_def sz_seL4_Class_def)
  from device_create_registers [OF log_libc_ok sample_devs_ok _ _ this] show ?thesis
    by (fastforce simp: sample_devs_def)
qed

text \<open>
  C24. When the class cannot be allocated, \<open>device_create\<close> returns a null pointer, which is not an
  error pointer, and registers nothing; the device and its name stay allocated. When the
  device itself cannot be allocated it is written through a null pointer.
\<close>

theorem device_create_failure:
  assumes "heap_ok L blocks" "dev_ok ly blocks s cs ds" "ds_classes s cls \<noteq> None" "length fmt < 2 ^ 32"
  shows "(ext_malloc L (sz_device ly) (ds_mem s) = (None, m) \<longrightarrow>
      device_create L ly cls parent dev drvdata fmt s = None) \<and>
    (ext_malloc L (sz_device ly) (ds_mem s) = (Some (d, db), m1) \<and>
      ext_calloc L 1 (strlen fmt) m1 = (Some (b, bb), m2) \<and> ext_malloc L sz_seL4_Class m2 = (None, m3) \<longrightarrow>
      (\<exists>s'. device_create L ly cls parent dev drvdata fmt s = Some (0, s') \<and> \<not> IS_ERR 0 \<and>
        dev_ok ly blocks s' cs ds \<and> registry s' cs = registry s cs \<and>
        blocks (ds_mem s') d = Some (unat (sz_device ly)) \<and> blocks (ds_mem s') b = Some (length fmt)))"
proof (intro conjI)
  show "ext_malloc L (sz_device ly) (ds_mem s) = (None, m) \<longrightarrow>
      device_create L ly cls parent dev drvdata fmt s = None"
    by (auto simp: device_create_def bind_eq_None_conv)
  show "ext_malloc L (sz_device ly) (ds_mem s) = (Some (d, db), m1) \<and>
      ext_calloc L 1 (strlen fmt) m1 = (Some (b, bb), m2) \<and> ext_malloc L sz_seL4_Class m2 = (None, m3) \<longrightarrow>
      (\<exists>s'. device_create L ly cls parent dev drvdata fmt s = Some (0, s') \<and> \<not> IS_ERR 0 \<and>
        dev_ok ly blocks s' cs ds \<and> registry s' cs = registry s cs \<and>
        blocks (ds_mem s') d = Some (unat (sz_device ly)) \<and> blocks (ds_mem s') b = Some (length fmt))"
  proof safe
    assume a: "ext_malloc L (sz_device ly) (ds_mem s) = (Some (d, db), m1)"
      "ext_calloc L 1 (strlen fmt) m1 = (Some (b, bb), m2)" "ext_malloc L sz_seL4_Class m2 = (None, m3)"
    have n1: "new_block (blocks (ds_mem s)) (blocks m1) d (unat (sz_device ly))"
      using heap_ok_malloc [OF assms(1), of "sz_device ly" "ds_mem s"] a(1) by (simp add: alloc_law_Some)
    have m3: "blocks m3 = blocks m2"
      using heap_ok_malloc [OF assms(1), of sz_seL4_Class m2] a(3) by (simp add: alloc_law_None)
    note ok1 = dev_ok_new [OF assms(2) n1]
    have nm: "ext_calloc L 1 (strlen fmt) (ds_mem (s\<lparr>ds_mem := m1\<rparr>)) = (Some (b, bb), m2)" using a(2) by simp
    note dup = dup_name_result [OF assms(1) ok1 assms(4) nm]
    define t where "t = s\<lparr>ds_mem := m2, ds_bufs := (ds_bufs s)(b \<mapsto> bytes_of fmt)\<rparr>"
    define s' where "s' = t\<lparr>ds_devices := (ds_devices s)(d \<mapsto> b), ds_mem := m3\<rparr>"
    have "device_create L ly cls parent dev drvdata fmt s = Some (0, s')"
      using assms(3) a dup(1) by (auto simp: device_create_def Let_def s'_def t_def)
    moreover have "dev_ok ly blocks s' cs ds"
      using dup(2) m3 by (simp add: s'_def t_def dev_ok_def)
    moreover have "blocks m3 b = Some (length fmt)" "blocks m3 d = Some (unat (sz_device ly))"
      using n1 dup(3) m3 by (auto simp: new_block_def)
    ultimately show "\<exists>s'. device_create L ly cls parent dev drvdata fmt s = Some (0, s') \<and> \<not> IS_ERR 0 \<and>
        dev_ok ly blocks s' cs ds \<and> registry s' cs = registry s cs \<and>
        blocks (ds_mem s') d = Some (unat (sz_device ly)) \<and> blocks (ds_mem s') b = Some (length fmt)"
      by (intro exI [of _ s']) (simp add: IS_ERR_null s'_def t_def)
  qed
qed

text \<open>An allocator that refuses requests from a size on.\<close>

definition tight_libc :: "u32 \<Rightarrow> (addr \<times> nat) list libc" where
  "tight_libc lim = log_libc\<lparr>ext_malloc := (\<lambda>n h. if n < lim then log_alloc 0xAA n h else (None, h))\<rparr>"

lemma tight_libc_ok: "heap_ok (tight_libc lim) map_of"
  using log_libc_ok by (simp add: heap_ok_def tight_libc_def alloc_law_None log_alloc_law)

theorem device_create_failure_witness:
  "device_create (tight_libc 0) sample_layout 0x800 0 7 0 ''b'' sample_devs = None \<and>
   (\<exists>s'. device_create (tight_libc 272) sample_layout 0x800 0 7 0 ''b'' sample_devs = Some (0, s') \<and>
      map_of (ds_mem s') 0x1000 = Some 256)"
proof -
  let ?m = "(0x1000, 256) # ds_mem sample_devs"
  have "ext_malloc (tight_libc 0) (sz_device sample_layout) (ds_mem sample_devs) = (None, ds_mem sample_devs)"
    by (simp add: tight_libc_def)
  moreover have "ext_malloc (tight_libc 272) (sz_device sample_layout) (ds_mem sample_devs) =
      (Some (0x1000, replicate 256 0xAA), ?m) \<and>
    ext_calloc (tight_libc 272) 1 (strlen ''b'') ?m = (Some (0x1101, [0]), (0x1101, 1) # ?m) \<and>
    ext_malloc (tight_libc 272) sz_seL4_Class ((0x1101, 1) # ?m) = (None, (0x1101, 1) # ?m)"
    by (simp add: tight_libc_def log_libc_def log_alloc_def sample_layout_def sample_devs_def strlen_def sz_seL4_Class_def)
  ultimately show ?thesis
    using device_create_failure [OF tight_libc_ok [of 0] sample_devs_ok, where cls = "0x800" and fmt = "''b''"
          and m = "ds_mem sample_devs" and parent = 0 and dev = 7 and drvdata = 0]
      device_create_failure [OF tight_libc_ok [of 272] sample_devs_ok, where cls = "0x800" and fmt = "''b''"
          and d = "0x1000" and db = "replicate 256 0xAA" and ?m1.0 = ?m and b = "0x1101" and bb = "[0]"
          and ?m2.0 = "(0x1101, 1) # ?m" and ?m3.0 = "(0x1101, 1) # ?m" and parent = 0 and dev = 7 and drvdata = 0]
    by (fastforce simp: sample_devs_def sample_layout_def)
qed

text \<open>
  C22. \<open>cdev_add\<close> refines the attachment of a device to the sequence of registered classes: it
  always returns, attaches to every class with the device number that has no device, and
  fails with \<open>-EINVAL\<close> at the first that has one, keeping what it did before. A device number
  that nobody registered is reported as success.
\<close>

theorem cdev_add_attaches:
  assumes "dev_ok ly blocks s cs ds"
  shows "(\<exists>s'. cdev_add ly parent dev x s = Some (fst (attach parent dev (registry s cs)), s') \<and>
      registry s' cs = snd (attach parent dev (registry s cs)) \<and> dev_ok ly blocks s' cs ds) \<and>
    ((\<forall>c \<in> set (registry s cs). sc_dev c \<noteq> dev) \<longrightarrow> attach parent dev (registry s cs) = (0, registry s cs))"
proof (intro conjI impI)
  show "\<exists>s'. cdev_add ly parent dev x s = Some (fst (attach parent dev (registry s cs)), s') \<and>
      registry s' cs = snd (attach parent dev (registry s cs)) \<and> dev_ok ly blocks s' cs ds"
    using cdev_add_ok [OF assms] by blast
  show "attach parent dev (registry s cs) = (0, registry s cs)" if "\<forall>c \<in> set (registry s cs). sc_dev c \<noteq> dev"
    using that attach_free [of "registry s cs" dev parent] by (simp cong: map_cong)
qed

theorem cdev_add_attaches_witness:
  "\<exists>s'. cdev_add sample_layout 0x700 5 1 sample_devs = Some (0, s') \<and>
    registry s' [0x400] = [\<lparr>sc_cdev = 0x700, sc_name = ''/dev/a'', sc_dev = 5\<rparr>]"
  using cdev_add_attaches [OF sample_devs_ok, of "0x700" 5 1]
  by (auto simp: registry_def sample_devs_def)



text \<open>
  \<open>class_destroy\<close> reads the name of the class after it freed it: every call on a class is an
  access to freed memory. The name itself is a copy without room for a terminator, so it
  cannot be read as a string.
\<close>

theorem class_destroy_after_free:
  assumes "heap_ok L blocks" "dev_ok ly blocks s cs ds" "cls \<noteq> 0" "length name < 2 ^ 32" "CHR 0x00 \<notin> set name"
  shows "(class_destroy L cls s = None) \<and>
    (ext_malloc L (sz_class ly) (ds_mem s) = (Some (c, cb), m1) \<and>
      ext_calloc L 1 (strlen name) m1 = (Some (b, bb), m2) \<longrightarrow>
      (\<exists>s'. class_create L ly owner name k s = Some (c, s') \<and> ds_classes s' c = Some b \<and>
        ds_bufs s' b = Some (bytes_of name) \<and> c_string (bytes_of name) = None))"
proof (intro conjI impI, goal_cases)
  case 1
  show ?case using assms(3) by (simp add: class_destroy_def Let_def)
next
  case 2
  then have a: "ext_malloc L (sz_class ly) (ds_mem s) = (Some (c, cb), m1)"
    "ext_calloc L 1 (strlen name) m1 = (Some (b, bb), m2)" by auto
  have n1: "new_block (blocks (ds_mem s)) (blocks m1) c (unat (sz_class ly))"
    using heap_ok_malloc [OF assms(1), of "sz_class ly" "ds_mem s"] a(1) by (simp add: alloc_law_Some)
  have nm: "ext_calloc L 1 (strlen name) (ds_mem (s\<lparr>ds_mem := m1\<rparr>)) = (Some (b, bb), m2)" using a(2) by simp
  have "c_string (bytes_of name) = None"
    using assms(5) by (auto simp: c_string_def bytes_of_def dest!: of_char_nonzero)
  then show ?case
    using a(1) dup_name_result(1) [OF assms(1) dev_ok_new [OF assms(2) n1] assms(4) nm]
    by (simp add: class_create_def)
qed

theorem class_destroy_after_free_witness:
  "class_destroy log_libc 0x800 sample_devs = None \<and>
   (\<exists>s'. class_create log_libc sample_layout 0 ''c'' 0 sample_devs = Some (0x1000, s') \<and>
     ds_classes s' 0x1000 = Some 0x1041)"
proof -
  let ?m = "(0x1000, 64) # ds_mem sample_devs"
  have "ext_malloc log_libc (sz_class sample_layout) (ds_mem sample_devs) = (Some (0x1000, replicate 64 0xAA), ?m)"
    "ext_calloc log_libc 1 (strlen ''c'') ?m = (Some (0x1041, [0]), (0x1041, 1) # ?m)"
    by (simp_all add: log_libc_def log_alloc_def sample_layout_def sample_devs_def strlen_def)
  then show ?thesis
    using class_destroy_after_free [OF log_libc_ok sample_devs_ok, of "0x800" "''c''" "0x1000" "replicate 64 0xAA" ?m
        "0x1041" "[0]" "(0x1041, 1) # ?m" 0 0] by auto
qed

end
