(* ===== verification/Fd.thy ===== *)
theory Fd
  imports Cdev
begin

text \<open>
  File descriptors for character devices (\<open>fd.c\<close>). A driver is a table of operations on the
  memory, the \<open>struct file\<close> objects and its own state. \<open>fd_ok\<close> is the invariant: the open
  files form a well-formed list of live blocks beside the lists of \<open>cdev.c\<close>, own their name and
  \<open>struct file\<close>, and carry different descriptors below the counter.
\<close>

section \<open>Definitions\<close>

subsection \<open>Drivers\<close>

text \<open>The fields of \<open>struct file\<close> in use; \<open>None\<close> is a field that was never written.\<close>

record kfile =
  private_data :: "addr option"

record ('h, 'd) drv_state =
  dv_mem :: 'h
  dv_filps :: "addr \<rightharpoonup> kfile"
  dv_priv :: 'd

text \<open>
  The operations of \<open>struct file_operations\<close> that the library calls, \<open>None\<close> for a null pointer.
  \<open>open\<close> gets \<open>i_rdev\<close> of the inode and the file, \<open>read\<close> and \<open>write\<close> the file, the user's
  buffer and the size.
\<close>

record ('h, 'd) file_operations =
  fop_open :: "(dev_t \<Rightarrow> addr \<Rightarrow> ('h, 'd) drv_state \<Rightarrow> (int \<times> ('h, 'd) drv_state) option) option"
  fop_read :: "(addr \<Rightarrow> u8 list \<Rightarrow> u32 \<Rightarrow> ('h, 'd) drv_state \<Rightarrow> ((int \<times> u8 list) \<times> ('h, 'd) drv_state) option) option"
  fop_write :: "(addr \<Rightarrow> u8 list \<Rightarrow> u32 \<Rightarrow> ('h, 'd) drv_state \<Rightarrow> (int \<times> ('h, 'd) drv_state) option) option"

subsection \<open>Open files\<close>

record opened_file =
  of_fd :: int
  of_name :: addr
  of_device :: addr
  of_file :: addr

record fd_layout =
  fl_dev :: dev_layout
  sz_file :: u32
  file_root :: addr

record ('h, 'd) fd_state =
  fs_dev :: "('h, ('h, 'd) file_operations) dev_state"
  fs_filps :: "addr \<rightharpoonup> kfile"
  fs_priv :: 'd
  fs_lfd :: int
  fs_files :: "addr \<rightharpoonup> opened_file"
  fs_errno :: int

definition sz_opened_file :: u32 where "sz_opened_file = 24"
definition list_off :: addr where "list_off = 12"
definition INT_MAX :: int where "INT_MAX = 2147483647"

text \<open>A call through a table of operations.\<close>

definition call_driver :: "(('h, 'd) drv_state \<Rightarrow> ('a \<times> ('h, 'd) drv_state) option) \<Rightarrow>
    ('h, 'd) fd_state \<Rightarrow> ('a \<times> ('h, 'd) fd_state) option" where
  "call_driver f s =
     do { (r, d) \<leftarrow> f \<lparr>dv_mem = ds_mem (fs_dev s), dv_filps = fs_filps s, dv_priv = fs_priv s\<rparr>;
          Some (r, s\<lparr>fs_dev := (fs_dev s)\<lparr>ds_mem := dv_mem d\<rparr>, fs_filps := dv_filps d, fs_priv := dv_priv d\<rparr>) }"

text \<open>\<open>f->device->ops\<close>.\<close>

definition device_ops :: "addr \<Rightarrow> ('h, 'd) fd_state \<Rightarrow> ('h, 'd) file_operations option" where
  "device_ops dev s =
     do { c \<leftarrow> ds_cdevs (fs_dev s) dev; p \<leftarrow> cd_ops c; ds_ops (fs_dev s) p }"

text \<open>\<open>alloc_file\<close> for a name, \<open>None\<close> for a null pointer. The descriptor counter is a signed
  integer; its overflow is undefined.\<close>

definition alloc_file :: "'h libc \<Rightarrow> fd_layout \<Rightarrow> string option \<Rightarrow> ('h, 'd) fd_state \<Rightarrow>
    (addr \<times> ('h, 'd) fd_state) option" where
  "alloc_file L fl name s =
     (case name of None \<Rightarrow> None | Some name \<Rightarrow>
       (let (fb, m) = kmalloc L True sz_opened_file GFP_KERNEL (ds_mem (fs_dev s));
            dv = (case fb of None \<Rightarrow> (fs_dev s)\<lparr>ds_mem := m\<rparr>
                  | Some (f, bs) \<Rightarrow>
                      (fs_dev s)\<lparr>ds_mem := m, ds_links := map_list_head f bs list_off (ds_links (fs_dev s))\<rparr>);
            (d, dv) = cdev_alloc L (fl_dev fl) dv
        in case fb of
             None \<Rightarrow> Some (0, s\<lparr>fs_dev := dv\<rparr>)
           | Some (f, _) \<Rightarrow>
               if d = 0 then Some (0, s\<lparr>fs_dev := dv\<rparr>)
               else let (nb, m) = kcalloc L False 1 (strlen name) GFP_KERNEL (ds_mem dv);
                        (flb, m) = kmalloc L True (sz_file fl) GFP_KERNEL m
                    in case nb of None \<Rightarrow> None
                       | Some (n, nbs) \<Rightarrow>
                           do { nbs \<leftarrow> strncpy nbs name (strlen name);
                                if fs_lfd s = INT_MAX then None
                                else Some (f, s\<lparr>
                                  fs_dev := dv\<lparr>ds_mem := m, ds_bufs := (ds_bufs dv)(n \<mapsto> nbs)\<rparr>,
                                  fs_filps := (case flb of None \<Rightarrow> fs_filps s
                                               | Some (p, _) \<Rightarrow> (fs_filps s)(p \<mapsto> \<lparr>private_data = None\<rparr>)),
                                  fs_files := (fs_files s)(f \<mapsto> \<lparr>of_fd = fs_lfd s, of_name = n, of_device = d,
                                    of_file = (case flb of None \<Rightarrow> 0 | Some (p, _) \<Rightarrow> p)\<rparr>),
                                  fs_lfd := fs_lfd s + 1\<rparr>) }))"

text \<open>\<open>kfree\<close> of a pointer that may be null.\<close>

definition kfree_ptr :: "'h libc \<Rightarrow> addr \<Rightarrow> 'h \<Rightarrow> 'h" where
  "kfree_ptr L p = kfree L (if p = 0 then None else Some (p, []))"

definition free_file :: "'h libc \<Rightarrow> addr \<Rightarrow> ('h, 'd) fd_state \<Rightarrow> ('h, 'd) fd_state option" where
  "free_file L f s =
     (if f = 0 then None
      else do { r \<leftarrow> fs_files s f;
                if of_name r = 0 then None
                else do {
                  k \<leftarrow> list_del (f + list_off) (ds_links (fs_dev s));
                  let m = kfree_ptr L f (kfree_ptr L (of_name r) (kfree_ptr L (of_file r) (ds_mem (fs_dev s))))
                  in Some (s\<lparr>fs_dev := (fs_dev s)\<lparr>ds_mem := m, ds_links := unmap_list_head f list_off k,
                                   ds_bufs := (ds_bufs (fs_dev s))(of_name r := None)\<rparr>,
                             fs_filps := (fs_filps s)(of_file r := None),
                             fs_files := (fs_files s)(f := None)\<rparr>) } })"

definition file_by_fd :: "fd_layout \<Rightarrow> int \<Rightarrow> ('h, 'd) fd_state \<Rightarrow> addr option" where
  "file_by_fd fl fd s =
     do { r \<leftarrow> list_for_each_entry_do (\<lambda>f u.
                 do { r \<leftarrow> fs_files s f; Some (if of_fd r = fd then Inl f else Inr u) })
               list_off (file_root fl + list_off) (ds_links (fs_dev s)) ();
          Some (case r of Inl f \<Rightarrow> f | Inr _ \<Rightarrow> 0) }"

definition fd_open :: "'h libc \<Rightarrow> fd_layout \<Rightarrow> string option \<Rightarrow> ('h, 'd) fd_state \<Rightarrow> (int \<times> ('h, 'd) fd_state) option" where
  "fd_open L fl name s =
     do { (f, s) \<leftarrow> alloc_file L fl name s;
          n \<leftarrow> name;
          cls \<leftarrow> device_by_name (fl_dev fl) n (fs_dev s);
          c \<leftarrow> ds_regs (fs_dev s) cls;
          if cls = 0 then Some (- 1, s)
          else do {
            r \<leftarrow> fs_files s f;
            let s = s\<lparr>fs_files := (fs_files s)(f \<mapsto> r\<lparr>of_device := sc_cdev c\<rparr>)\<rparr>;
            k \<leftarrow> list_add (f + list_off) (file_root fl + list_off) (ds_links (fs_dev s));
            let s = s\<lparr>fs_dev := (fs_dev s)\<lparr>ds_links := k\<rparr>\<rparr>;
            ops \<leftarrow> device_ops (sc_cdev c) s;
            op \<leftarrow> fop_open ops;
            (_, s) \<leftarrow> call_driver (op (sc_dev c) (of_file r)) s;
            r \<leftarrow> fs_files s f;
            Some (of_fd r, s) } }"

definition fd_close :: "'h libc \<Rightarrow> fd_layout \<Rightarrow> int \<Rightarrow> ('h, 'd) fd_state \<Rightarrow> (int \<times> ('h, 'd) fd_state) option" where
  "fd_close L fl fd s =
     do { cur \<leftarrow> file_by_fd fl fd s;
          if cur = 0 then Some (- 1, s\<lparr>fs_errno := EBADF\<rparr>)
          else do { s \<leftarrow> free_file L cur s; Some (0, s) } }"

text \<open>\<open>write\<close> and \<open>read\<close>; the buffer is \<open>None\<close> for a null pointer.\<close>

definition fd_write :: "fd_layout \<Rightarrow> int \<Rightarrow> u8 list option \<Rightarrow> u32 \<Rightarrow> ('h, 'd) fd_state \<Rightarrow>
    (int \<times> ('h, 'd) fd_state) option" where
  "fd_write fl fd buf nbyte s =
     do { f \<leftarrow> file_by_fd fl fd s;
          if f = 0 then Some (0, s\<lparr>fs_errno := EBADF\<rparr>)
          else case buf of None \<Rightarrow> Some (0, s\<lparr>fs_errno := EFAULT\<rparr>)
          | Some b \<Rightarrow> do { r \<leftarrow> fs_files s f;
                           ops \<leftarrow> device_ops (of_device r) s;
                           op \<leftarrow> fop_write ops;
                           call_driver (op (of_file r) b nbyte) s } }"

definition fd_read :: "fd_layout \<Rightarrow> int \<Rightarrow> u8 list option \<Rightarrow> u32 \<Rightarrow> ('h, 'd) fd_state \<Rightarrow>
    ((int \<times> u8 list option) \<times> ('h, 'd) fd_state) option" where
  "fd_read fl fd buf nbyte s =
     do { f \<leftarrow> file_by_fd fl fd s;
          if f = 0 then Some ((0, buf), s\<lparr>fs_errno := EBADF\<rparr>)
          else case buf of None \<Rightarrow> Some ((0, buf), s\<lparr>fs_errno := EFAULT\<rparr>)
          | Some b \<Rightarrow> do { r \<leftarrow> fs_files s f;
                           ops \<leftarrow> device_ops (of_device r) s;
                           op \<leftarrow> fop_read ops;
                           ((n, b), s) \<leftarrow> call_driver (op (of_file r) b nbyte) s;
                           Some ((n, Some b), s) } }"

section \<open>Invariant\<close>

text \<open>The blocks an open file owns besides itself.\<close>

definition owned :: "opened_file \<Rightarrow> addr list" where
  "owned r = of_name r # (if of_file r = 0 then [] else [of_file r])"

definition fd_nodes :: "fd_layout \<Rightarrow> addr list \<Rightarrow> addr list \<Rightarrow> addr list \<Rightarrow> addr set" where
  "fd_nodes fl cs ds fs =
     set (seL4_RegisteredClasses (fl_dev fl) # all_devs (fl_dev fl) # file_root fl # cs @ ds @ fs)"

definition files_of :: "('h, 'd) fd_state \<Rightarrow> addr list \<Rightarrow> opened_file list" where
  "files_of s fs = map (\<lambda>p. the (fs_files s p)) fs"

definition fd_ok :: "fd_layout \<Rightarrow> ('h \<Rightarrow> addr \<rightharpoonup> nat) \<Rightarrow> ('h, 'd) fd_state \<Rightarrow>
    addr list \<Rightarrow> addr list \<Rightarrow> addr list \<Rightarrow> bool" where
  "fd_ok fl blocks s cs ds fs \<longleftrightarrow>
     dev_ok (fl_dev fl) blocks (fs_dev s) cs ds \<and>
     objs (blocks (ds_mem (fs_dev s))) (ds_links (fs_dev s)) list_off 24 (file_root fl) fs \<and>
     (\<forall>p \<in> set fs. p \<noteq> 0 \<and> fs_files s p \<noteq> None) \<and>
     distinct (concat (map owned (files_of s fs))) \<and>
     (\<forall>a \<in> set (concat (map owned (files_of s fs))).
        a \<noteq> 0 \<and> a \<notin> fd_nodes fl cs ds fs \<and> blocks (ds_mem (fs_dev s)) a \<noteq> None) \<and>
     distinct (map of_fd (files_of s fs)) \<and> (\<forall>r \<in> set (files_of s fs). 0 < of_fd r \<and> of_fd r < fs_lfd s) \<and>
     0 < fs_lfd s"

lemma fd_okD:
  assumes "fd_ok fl blocks s cs ds fs"
  shows "dev_ok (fl_dev fl) blocks (fs_dev s) cs ds"
    and "objs (blocks (ds_mem (fs_dev s))) (ds_links (fs_dev s)) list_off 24 (file_root fl) fs"
    and "p \<in> set fs \<Longrightarrow> fs_files s p = Some (the (fs_files s p)) \<and> p \<noteq> 0"
  using assms unfolding fd_ok_def by auto

lemma fd_ok_owned:
  assumes "fd_ok fl blocks s cs ds fs"
  shows "distinct (concat (map owned (files_of s fs)))"
    and "\<forall>a \<in> set (concat (map owned (files_of s fs))).
        a \<noteq> 0 \<and> a \<notin> fd_nodes fl cs ds fs \<and> blocks (ds_mem (fs_dev s)) a \<noteq> None"
    and "distinct (map of_fd (files_of s fs))"
    and "\<forall>r \<in> set (files_of s fs). 0 < of_fd r \<and> of_fd r < fs_lfd s" "0 < fs_lfd s"
  using assms unfolding fd_ok_def by - (elim conjE, assumption)+

lemma fd_ok_apart: "fd_ok fl blocks s cs ds fs \<Longrightarrow> blocks_apart (blocks (ds_mem (fs_dev s)))"
  using dev_okD(1) [OF fd_okD(1)] .

text \<open>All objects in use are live blocks.\<close>

lemma fd_ok_live:
  assumes "fd_ok fl blocks s cs ds fs" "a \<in> fd_nodes fl cs ds fs \<union> set (concat (map owned (files_of s fs)))"
  shows "blocks (ds_mem (fs_dev s)) a \<noteq> None"
proof -
  have "\<forall>a \<in> fd_nodes fl cs ds fs. blocks (ds_mem (fs_dev s)) a \<noteq> None"
    using dev_okD(2,3) [OF fd_okD(1) [OF assms(1)]] fd_okD(2) [OF assms(1)]
    unfolding fd_nodes_def objs_def by auto
  with assms show ?thesis unfolding fd_ok_def by blast
qed

lemma files_of_cong: "(\<And>p. p \<in> set fs \<Longrightarrow> fs_files s' p = fs_files s p) \<Longrightarrow> files_of s' fs = files_of s fs"
  by (simp add: files_of_def)

text \<open>The invariant only looks at the blocks, the links, which objects exist, the files in the list
  and the counter, and survives every allocation.\<close>

lemma fd_ok_cong:
  assumes ok: "fd_ok fl blocks s cs ds fs" and "blocks (ds_mem (fs_dev s')) = blocks (ds_mem (fs_dev s))"
    and "ds_links (fs_dev s') = ds_links (fs_dev s)"
    and "dom (ds_regs (fs_dev s')) = dom (ds_regs (fs_dev s))" "dom (ds_nodes (fs_dev s')) = dom (ds_nodes (fs_dev s))"
    and f: "\<And>p. p \<in> set fs \<Longrightarrow> fs_files s' p = fs_files s p" and "fs_lfd s \<le> fs_lfd s'"
  shows "fd_ok fl blocks s' cs ds fs"
  using ok assms(2,3,7) dev_ok_cong [OF fd_okD(1) [OF ok] assms(2-5)] f files_of_cong [OF f]
  unfolding fd_ok_def by fastforce

lemma fd_ok_alloc:
  assumes ok: "fd_ok fl blocks s cs ds fs"
    and new: "new_block (blocks (ds_mem (fs_dev s))) (blocks (ds_mem (fs_dev s'))) p n"
    and links: "ds_links (fs_dev s') = ds_links (fs_dev s) \<or>
      (\<exists>bs o'. unat o' < n \<and> ds_links (fs_dev s') = map_list_head p bs o' (ds_links (fs_dev s)))"
    and dom: "dom (ds_regs (fs_dev s')) = dom (ds_regs (fs_dev s))" "dom (ds_nodes (fs_dev s')) = dom (ds_nodes (fs_dev s))"
    and f: "\<And>p. p \<in> set fs \<Longrightarrow> fs_files s' p = fs_files s p" and lfd: "fs_lfd s \<le> fs_lfd s'"
  shows "fd_ok fl blocks s' cs ds fs"
proof -
  have "dev_ok (fl_dev fl) blocks (fs_dev s') cs ds \<and>
    objs (blocks (ds_mem (fs_dev s'))) (ds_links (fs_dev s')) list_off 24 (file_root fl) fs"
  proof (cases "ds_links (fs_dev s') = ds_links (fs_dev s)")
    case True
    have "dev_ok (fl_dev fl) blocks ((fs_dev s)\<lparr>ds_mem := ds_mem (fs_dev s')\<rparr>) cs ds"
      using dev_ok_new [OF fd_okD(1) [OF ok]] new by simp
    then have "dev_ok (fl_dev fl) blocks (fs_dev s') cs ds"
      by (rule dev_ok_cong) (simp_all add: True dom)
    with objs_new_plain [OF fd_okD(2) [OF ok] new] True show ?thesis by simp
  next
    case False
    then obtain bs o' where m: "unat o' < n" "ds_links (fs_dev s') = map_list_head p bs o' (ds_links (fs_dev s))"
      using links by blast
    from dev_ok_map [OF fd_okD(1) [OF ok] new m dom] objs_new [OF fd_okD(2) [OF ok] new m(1)] m(2)
    show ?thesis by simp
  qed
  moreover have "blocks (ds_mem (fs_dev s')) a \<noteq> None" if "blocks (ds_mem (fs_dev s)) a \<noteq> None" for a
    using new_block_other [OF new] that by blast
  then have "\<forall>a \<in> set (concat (map owned (files_of s fs))).
      a \<noteq> 0 \<and> a \<notin> fd_nodes fl cs ds fs \<and> blocks (ds_mem (fs_dev s')) a \<noteq> None"
    using ok unfolding fd_ok_def by blast
  moreover have "\<forall>p \<in> set fs. p \<noteq> 0 \<and> fs_files s' p \<noteq> None" using f ok by (simp add: fd_ok_def)
  moreover have "files_of s' fs = files_of s fs" by (rule files_of_cong [OF f])
  ultimately show ?thesis
    using ok lfd unfolding fd_ok_def by (simp only:) fastforce
qed

text \<open>A file becomes visible when it is linked.\<close>

lemma fd_ok_link:
  assumes ok: "fd_ok fl blocks s cs ds fs"
    and f: "fs_files s f = Some r" "f \<noteq> 0" "f \<notin> fd_nodes fl cs ds fs" "is_node (ds_links (fs_dev s)) (f + list_off)"
      "blocks (ds_mem (fs_dev s)) f = Some 24" "f \<notin> set (concat (map owned (files_of s fs)))"
    and own: "distinct (owned r)" "set (owned r) \<inter> set (concat (map owned (files_of s fs))) = {}"
      "\<forall>a \<in> set (owned r). a \<noteq> 0 \<and> a \<noteq> f \<and> a \<notin> fd_nodes fl cs ds fs \<and> blocks (ds_mem (fs_dev s)) a \<noteq> None"
    and fd: "of_fd r \<notin> set (map of_fd (files_of s fs))" "0 < of_fd r" "of_fd r < fs_lfd s"
  shows "\<exists>k. list_add (f + list_off) (file_root fl + list_off) (ds_links (fs_dev s)) = Some k \<and>
    fd_ok fl blocks (s\<lparr>fs_dev := (fs_dev s)\<lparr>ds_links := k\<rparr>\<rparr>) cs ds (f # fs)"
proof -
  have nf: "f \<notin> set (file_root fl # fs)" using f(3) by (auto simp: fd_nodes_def)
  obtain k where k: "list_add (f + list_off) (file_root fl + list_off) (ds_links (fs_dev s)) = Some k"
    "objs (blocks (ds_mem (fs_dev s))) k list_off 24 (file_root fl) (f # fs)"
    "links_kept (ds_links (fs_dev s)) k (set (map (\<lambda>p. p + list_off) (file_root fl # f # fs)))"
    using objs_link [OF fd_okD(2) [OF ok] f(4,5) nf] by blast
  note dev = fd_okD(1) [OF ok]
  have "objs (blocks (ds_mem (fs_dev s))) k others_off 272 (seL4_RegisteredClasses (fl_dev fl)) cs"
    by (rule objs_other [OF dev_okD(2) [OF dev] fd_ok_apart [OF ok] k(2) _ k(3)]) simp
  moreover have "objs (blocks (ds_mem (fs_dev s))) k siblings_off 12 (all_devs (fl_dev fl)) ds"
    by (rule objs_other [OF dev_okD(3) [OF dev] fd_ok_apart [OF ok] k(2) _ k(3)]) simp
  ultimately have "dev_ok (fl_dev fl) blocks ((fs_dev s)\<lparr>ds_links := k\<rparr>) cs ds"
    using dev by (simp add: dev_ok_def)
  moreover have "files_of (s\<lparr>fs_dev := (fs_dev s)\<lparr>ds_links := k\<rparr>\<rparr>) (f # fs) = r # files_of s fs"
    using f(1) by (simp add: files_of_def)
  moreover have "fd_nodes fl cs ds (f # fs) = insert f (fd_nodes fl cs ds fs)"
    by (auto simp: fd_nodes_def)
  ultimately show ?thesis
    using ok k(1,2) f(1,2,6) own fd by (auto simp: fd_ok_def)
qed

section \<open>Operations\<close>

lemma find_unique:
  assumes "x \<in> set xs" "P x" "\<And>y. y \<in> set xs \<Longrightarrow> P y \<Longrightarrow> y = x"
  shows "find P xs = Some x"
proof (cases "find P xs")
  case None
  then show ?thesis using assms(1,2) by (simp add: find_None_iff)
next
  case (Some y)
  then have "y \<in> set xs" "P y" unfolding find_Some_iff by auto
  then show ?thesis using assms(3) Some by blast
qed

lemma file_by_fd_find:
  assumes "fd_ok fl blocks s cs ds fs"
  shows "file_by_fd fl fd s =
    Some (case find (\<lambda>p. of_fd (the (fs_files s p)) = fd) fs of None \<Rightarrow> 0 | Some p \<Rightarrow> p)"
proof -
  have "run_entries (\<lambda>f u. do { r \<leftarrow> fs_files s f; Some (if of_fd r = fd then Inl f else Inr u) }) fs () =
      Some (case find (\<lambda>p. of_fd (the (fs_files s p)) = fd) fs of None \<Rightarrow> Inr () | Some p \<Rightarrow> Inl p)"
    using fd_okD(3) [OF assms] by (intro run_entries_find) (metis bind.bind_lunit)
  then show ?thesis
    unfolding file_by_fd_def
    by (simp add: objs_loop [OF fd_okD(2) [OF assms]] split: option.splits)
qed

lemma file_by_fd_none:
  assumes ok: "fd_ok fl blocks s cs ds fs" and fd: "fd \<notin> set (map of_fd (files_of s fs))"
  shows "file_by_fd fl fd s = Some 0"
proof (cases "find (\<lambda>p. of_fd (the (fs_files s p)) = fd) fs")
  case None
  then show ?thesis by (simp add: file_by_fd_find [OF ok])
next
  case (Some p)
  then have "p \<in> set fs" "of_fd (the (fs_files s p)) = fd" unfolding find_Some_iff by auto
  then have "fd \<in> set (map of_fd (files_of s fs))" unfolding files_of_def by force
  with fd show ?thesis by (rule notE)
qed

lemma file_by_fd_file:
  assumes "fd_ok fl blocks s cs ds fs" "f \<in> set fs" "fs_files s f = Some r"
  shows "file_by_fd fl (of_fd r) s = Some f"
proof -
  from fd_ok_owned(3) [OF assms(1)] have i: "inj_on (\<lambda>p. of_fd (the (fs_files s p))) (set fs)"
    by (simp add: files_of_def o_def distinct_map)
  have u: "p = f" if "p \<in> set fs" "of_fd (the (fs_files s p)) = of_fd r" for p
    using inj_onD [OF i _ that(1) assms(2)] that(2) assms(3) by simp
  have "find (\<lambda>p. of_fd (the (fs_files s p)) = of_fd r) fs = Some f"
    by (rule find_unique [OF assms(2)]) (simp_all only: assms(3) option.sel u)
  then show ?thesis using file_by_fd_find [OF assms(1)] by simp
qed

text \<open>
  The four allocations of \<open>alloc_file\<close> succeed: the file, the device it throws away, the name
  and the \<open>struct file\<close>.
\<close>

definition file_mem :: "'h libc \<Rightarrow> fd_layout \<Rightarrow> string \<Rightarrow> 'h \<Rightarrow> addr \<Rightarrow> addr \<Rightarrow> addr \<Rightarrow> addr \<Rightarrow> 'h \<Rightarrow> bool" where
  "file_mem L fl name m0 f d n p m4 \<longleftrightarrow>
     (\<exists>fb db nb pb m1 m2 m3.
        kmalloc L True sz_opened_file GFP_KERNEL m0 = (Some (f, fb), m1) \<and>
        kmalloc L True (sz_cdev (fl_dev fl)) GFP_KERNEL m1 = (Some (d, db), m2) \<and>
        kcalloc L False 1 (strlen name) GFP_KERNEL m2 = (Some (n, nb), m3) \<and>
        kmalloc L True (sz_file fl) GFP_KERNEL m3 = (Some (p, pb), m4))"

lemma new_blocks_distinct:
  assumes "new_block B0 B1 f i" "new_block B1 B2 d j" "new_block B2 B3 n k" "new_block B3 B4 p l"
  shows "distinct [f, d, n, p]" "0 \<notin> {f, d, n, p}" "B4 f = Some i" "B4 n = Some k" "B4 p = Some l"
    "B0 a \<noteq> None \<Longrightarrow> a \<notin> {f, d, n, p}"
  using assms unfolding new_block_def by (auto split: if_splits)

lemma file_mem_blocks:
  assumes "heap_ok L blocks" "file_mem L fl name m0 f d n p m4"
  shows "\<exists>B1 B2 B3. new_block (blocks m0) B1 f 24 \<and> new_block B1 B2 d (unat (sz_cdev (fl_dev fl))) \<and>
    new_block B2 B3 n (unat (strlen name)) \<and> new_block B3 (blocks m4) p (unat (sz_file fl))"
proof -
  obtain fb db nb pb m1 m2 m3 where k: "kmalloc L True sz_opened_file GFP_KERNEL m0 = (Some (f, fb), m1)"
    "kmalloc L True (sz_cdev (fl_dev fl)) GFP_KERNEL m1 = (Some (d, db), m2)"
    "kcalloc L False 1 (strlen name) GFP_KERNEL m2 = (Some (n, nb), m3)"
    "kmalloc L True (sz_file fl) GFP_KERNEL m3 = (Some (p, pb), m4)"
    using assms(2) unfolding file_mem_def by blast
  then have "new_block (blocks m0) (blocks m1) f 24" "new_block (blocks m1) (blocks m2) d (unat (sz_cdev (fl_dev fl)))"
    "new_block (blocks m2) (blocks m3) n (unat (strlen name))" "new_block (blocks m3) (blocks m4) p (unat (sz_file fl))"
    using kmalloc_law [OF assms(1), of sz_opened_file m0 True GFP_KERNEL]
      kmalloc_law [OF assms(1), of "sz_cdev (fl_dev fl)" m1 True GFP_KERNEL]
      kcalloc_law [OF assms(1), of 1 "strlen name" m2 False GFP_KERNEL]
      kmalloc_law [OF assms(1), of "sz_file fl" m3 True GFP_KERNEL]
    by (simp_all add: alloc_law_Some sz_opened_file_def)
  then show ?thesis by blast
qed

lemma alloc_file_ok:
  assumes heap: "heap_ok L blocks" and ok: "fd_ok fl blocks s cs ds fs"
    and len: "length name < 2 ^ 32" and lfd: "fs_lfd s < INT_MAX"
    and mem: "file_mem L fl name (ds_mem (fs_dev s)) f d n p m"
  shows "\<exists>s'. alloc_file L fl (Some name) s = Some (f, s') \<and> fd_ok fl blocks s' cs ds fs \<and>
    ds_mem (fs_dev s') = m \<and> is_node (ds_links (fs_dev s')) (f + list_off) \<and>
    fs_files s' = (fs_files s)(f \<mapsto> \<lparr>of_fd = fs_lfd s, of_name = n, of_device = d, of_file = p\<rparr>) \<and>
    fs_filps s' = (fs_filps s)(p \<mapsto> \<lparr>private_data = None\<rparr>) \<and> fs_priv s' = fs_priv s \<and>
    fs_lfd s' = fs_lfd s + 1 \<and> ds_regs (fs_dev s') = ds_regs (fs_dev s) \<and> ds_ops (fs_dev s') = ds_ops (fs_dev s) \<and>
    ds_cdevs (fs_dev s') = (ds_cdevs (fs_dev s))(d \<mapsto> \<lparr>cd_dev = None, cd_ops = None\<rparr>) \<and>
    ds_bufs (fs_dev s') n = Some (bytes_of name)"
proof -
  let ?B = "blocks (ds_mem (fs_dev s))"
  obtain fb db nb pb m1 m2 m3 where k:
    "kmalloc L True sz_opened_file GFP_KERNEL (ds_mem (fs_dev s)) = (Some (f, fb), m1)"
    "kmalloc L True (sz_cdev (fl_dev fl)) GFP_KERNEL m1 = (Some (d, db), m2)"
    "kcalloc L False 1 (strlen name) GFP_KERNEL m2 = (Some (n, nb), m3)"
    "kmalloc L True (sz_file fl) GFP_KERNEL m3 = (Some (p, pb), m)"
    using mem unfolding file_mem_def by blast
  have b: "new_block ?B (blocks m1) f 24" "new_block (blocks m1) (blocks m2) d (unat (sz_cdev (fl_dev fl)))"
    "new_block (blocks m2) (blocks m3) n (unat (strlen name))" "new_block (blocks m3) (blocks m) p (unat (sz_file fl))"
    and nb: "length nb = unat (strlen name)"
    using kmalloc_law [OF heap, of sz_opened_file "ds_mem (fs_dev s)" True GFP_KERNEL]
      kmalloc_law [OF heap, of "sz_cdev (fl_dev fl)" m1 True GFP_KERNEL]
      kcalloc_law [OF heap, of 1 "strlen name" m2 False GFP_KERNEL]
      kmalloc_law [OF heap, of "sz_file fl" m3 True GFP_KERNEL] k
    by (simp_all add: alloc_law_Some sz_opened_file_def)
  have ne: "d \<noteq> 0" using b(2) by (simp add: new_block_def)
  have cp: "strncpy nb name (strlen name) = Some (bytes_of name)" by (rule strncpy_dup [OF nb len])
  have f: "q \<noteq> f" if "q \<in> set fs" for q
    using fd_ok_live [OF ok, of q] new_block_other [OF b(1)] that by (auto simp: fd_nodes_def)
  define d0 where "d0 = (fs_dev s)\<lparr>ds_mem := m1, ds_links := map_list_head f fb list_off (ds_links (fs_dev s))\<rparr>"
  define d1 where "d1 = d0\<lparr>ds_mem := m2, ds_cdevs := (ds_cdevs (fs_dev s))(d \<mapsto> \<lparr>cd_dev = None, cd_ops = None\<rparr>)\<rparr>"
  define s' where "s' = s\<lparr>fs_dev := d1\<lparr>ds_mem := m, ds_bufs := (ds_bufs (fs_dev s))(n \<mapsto> bytes_of name)\<rparr>,
    fs_filps := (fs_filps s)(p \<mapsto> \<lparr>private_data = None\<rparr>),
    fs_files := (fs_files s)(f \<mapsto> \<lparr>of_fd = fs_lfd s, of_name = n, of_device = d, of_file = p\<rparr>),
    fs_lfd := fs_lfd s + 1\<rparr>"
  have c: "cdev_alloc L (fl_dev fl) d0 = (d, d1)" using k(2) by (simp add: cdev_alloc_def d0_def d1_def)
  have "alloc_file L fl (Some name) s = Some (f, s')"
    using k(1,3,4) c ne cp lfd by (simp add: alloc_file_def Let_def d0_def [symmetric]) (simp add: s'_def d1_def d0_def)
  moreover have "\<exists>bs o'. unat o' < 24 \<and> ds_links d0 = map_list_head f bs o' (ds_links (fs_dev s))"
    by (intro exI [of _ fb] exI [of _ list_off]) (simp add: d0_def list_off_def)
  then have "fd_ok fl blocks (s\<lparr>fs_dev := d0\<rparr>) cs ds fs"
    by (intro fd_ok_alloc [OF ok, where p = f and n = 24]) (use b(1) in \<open>simp_all add: d0_def\<close>)
  then have "fd_ok fl blocks (s\<lparr>fs_dev := d1\<rparr>) cs ds fs"
    by (rule fd_ok_alloc [where p = d]) (use b(2) in \<open>auto simp: d0_def d1_def\<close>)
  then have "fd_ok fl blocks (s\<lparr>fs_dev := d1\<lparr>ds_mem := m3\<rparr>\<rparr>) cs ds fs"
    by (rule fd_ok_alloc [where p = n]) (use b(3) in \<open>auto simp: d1_def\<close>)
  then have "fd_ok fl blocks s' cs ds fs"
    by (rule fd_ok_alloc [where p = p]) (use b(4) f in \<open>auto simp: s'_def\<close>)
  ultimately show ?thesis
    by (intro exI [of _ s']) (simp add: s'_def d1_def d0_def is_node_map)
qed

text \<open>The whole of \<open>open\<close>, for a registered device that has a driver.\<close>

lemma fd_open_ok:
  assumes heap: "heap_ok L blocks" and ok: "fd_ok fl blocks s cs ds fs"
    and len: "length name < 2 ^ 32" and lfd: "fs_lfd s < INT_MAX"
    and mem: "file_mem L fl name (ds_mem (fs_dev s)) f d n p m"
    and cls: "device_by_name (fl_dev fl) name (fs_dev s) = Some cls" "cls \<noteq> 0" "ds_regs (fs_dev s) cls = Some c"
    and dev: "sc_cdev c \<noteq> d" "device_ops (sc_cdev c) s = Some ops" "fop_open ops = Some op"
    and call: "op (sc_dev c) p \<lparr>dv_mem = m, dv_filps = (fs_filps s)(p \<mapsto> \<lparr>private_data = None\<rparr>), dv_priv = fs_priv s\<rparr> = Some (rc, dv)"
      "blocks (dv_mem dv) = blocks m"
  shows "\<exists>s'. fd_open L fl (Some name) s = Some (fs_lfd s, s') \<and> fd_ok fl blocks s' cs ds (f # fs) \<and>
    fs_files s' = (fs_files s)(f \<mapsto> \<lparr>of_fd = fs_lfd s, of_name = n, of_device = sc_cdev c, of_file = p\<rparr>) \<and>
    fs_lfd s' = fs_lfd s + 1 \<and> fs_filps s' = dv_filps dv \<and> fs_priv s' = dv_priv dv \<and>
    ds_mem (fs_dev s') = dv_mem dv \<and> ds_ops (fs_dev s') = ds_ops (fs_dev s) \<and>
    ds_cdevs (fs_dev s') = (ds_cdevs (fs_dev s))(d \<mapsto> \<lparr>cd_dev = None, cd_ops = None\<rparr>)"
proof -
  define r where "r = \<lparr>of_fd = fs_lfd s, of_name = n, of_device = d, of_file = p\<rparr>"
  define r' where "r' = r\<lparr>of_device := sc_cdev c\<rparr>"
  obtain s1 where s1: "alloc_file L fl (Some name) s = Some (f, s1)" "fd_ok fl blocks s1 cs ds fs"
    "ds_mem (fs_dev s1) = m" "is_node (ds_links (fs_dev s1)) (f + list_off)" "fs_files s1 = (fs_files s)(f \<mapsto> r)"
    "fs_filps s1 = (fs_filps s)(p \<mapsto> \<lparr>private_data = None\<rparr>)" "fs_priv s1 = fs_priv s" "fs_lfd s1 = fs_lfd s + 1"
    "ds_regs (fs_dev s1) = ds_regs (fs_dev s)" "ds_ops (fs_dev s1) = ds_ops (fs_dev s)"
    "ds_cdevs (fs_dev s1) = (ds_cdevs (fs_dev s))(d \<mapsto> \<lparr>cd_dev = None, cd_ops = None\<rparr>)"
    using alloc_file_ok [OF heap ok len lfd mem] unfolding r_def by blast
  obtain B1 B2 B3 where nb: "new_block (blocks (ds_mem (fs_dev s))) B1 f 24" "new_block B1 B2 d (unat (sz_cdev (fl_dev fl)))"
    "new_block B2 B3 n (unat (strlen name))" "new_block B3 (blocks m) p (unat (sz_file fl))"
    using file_mem_blocks [OF heap mem] by blast
  note fresh = new_blocks_distinct [OF nb]
  let ?own = "set (concat (map owned (files_of s fs)))"
  have old: "a \<notin> {f, d, n, p}" if "a \<in> fd_nodes fl cs ds fs \<union> ?own" for a
    using fresh(6) fd_ok_live [OF ok that] by blast
  have f: "\<And>q. q \<in> set fs \<Longrightarrow> q \<noteq> f" using old by (auto simp: fd_nodes_def)
  define s2 where "s2 = s1\<lparr>fs_files := (fs_files s1)(f \<mapsto> r')\<rparr>"
  have fo: "files_of s2 fs = files_of s fs" using f s1(5) by (intro files_of_cong) (auto simp: s2_def)
  have ok2: "fd_ok fl blocks s2 cs ds fs" by (rule fd_ok_cong [OF s1(2)]) (use f in \<open>auto simp: s2_def\<close>)
  have own: "owned r' = [n, p]" using fresh(2) by (simp add: owned_def r'_def r_def)
  have fds: "\<forall>q \<in> set (files_of s fs). of_fd q < fs_lfd s" "0 < fs_lfd s" using fd_ok_owned(4,5) [OF ok] by auto
  have "\<exists>k. list_add (f + list_off) (file_root fl + list_off) (ds_links (fs_dev s2)) = Some k \<and>
    fd_ok fl blocks (s2\<lparr>fs_dev := (fs_dev s2)\<lparr>ds_links := k\<rparr>\<rparr>) cs ds (f # fs)"
  proof (rule fd_ok_link [OF ok2, of f r'], unfold fo own)
    show "set [n, p] \<inter> ?own = {}" "f \<notin> ?own" "f \<notin> fd_nodes fl cs ds fs" using old by auto
    show "\<forall>a \<in> set [n, p]. a \<noteq> 0 \<and> a \<noteq> f \<and> a \<notin> fd_nodes fl cs ds fs \<and> blocks (ds_mem (fs_dev s2)) a \<noteq> None"
      using fresh(1-5) old s1(3) by (auto simp: s2_def)
    show "of_fd r' \<notin> set (map of_fd (files_of s fs))" using fds(1) by (auto simp: r'_def r_def)
  qed (use fresh fds s1 in \<open>auto simp: s2_def r'_def r_def\<close>)
  then obtain k where k: "list_add (f + list_off) (file_root fl + list_off) (ds_links (fs_dev s1)) = Some k"
    "fd_ok fl blocks (s2\<lparr>fs_dev := (fs_dev s2)\<lparr>ds_links := k\<rparr>\<rparr>) cs ds (f # fs)" by (auto simp: s2_def)
  define s3 where "s3 = s2\<lparr>fs_dev := (fs_dev s2)\<lparr>ds_links := k\<rparr>\<rparr>"
  define s' where "s' = s3\<lparr>fs_dev := (fs_dev s3)\<lparr>ds_mem := dv_mem dv\<rparr>, fs_filps := dv_filps dv, fs_priv := dv_priv dv\<rparr>"
  have "device_by_name (fl_dev fl) name (fs_dev s1) = Some cls"
    using device_by_name_find [OF fd_okD(1) [OF s1(2)]] device_by_name_find [OF fd_okD(1) [OF ok]] cls(1) s1(9) by simp
  moreover have "device_ops (sc_cdev c) s3 = Some ops"
    using dev(1,2) s1(10,11) by (simp add: device_ops_def s3_def s2_def)
  moreover have "call_driver (op (sc_dev c) p) s3 = Some (rc, s')"
    using call(1) s1(3,6,7) by (simp add: call_driver_def s3_def s2_def s'_def)
  ultimately have "fd_open L fl (Some name) s = Some (fs_lfd s, s')"
    using s1(1,5,9) cls(2,3) k(1) dev(3)
    by (simp add: fd_open_def Let_def s2_def s3_def r_def r'_def s'_def)
  moreover have "fd_ok fl blocks s' cs ds (f # fs)"
    using k(2) call(2) s1(3) by (intro fd_ok_cong [OF k(2)]) (simp_all add: s'_def s3_def s2_def)
  ultimately show ?thesis
    using s1 by (intro exI [of _ s']) (simp add: s'_def s3_def s2_def r'_def r_def)
qed

lemma blocks_kfree_ptr:
  assumes "heap_ok L blocks"
  shows "blocks (kfree_ptr L p h) = (if p = 0 then blocks h else (blocks h)(p := None))"
  using heap_ok_free [OF assms] by (simp add: kfree_ptr_def kfree_def)

text \<open>Freeing some blocks that no list holds.\<close>

lemma objs_free_set:
  assumes "objs B h off sz head ps" "A \<inter> set (head # ps) = {}"
  shows "objs (\<lambda>a. if a \<in> A then None else B a) h off sz head ps"
  using assms unfolding objs_def by auto

lemma blocks_apart_free_set: "blocks_apart B \<Longrightarrow> blocks_apart (\<lambda>a. if a \<in> A then None else B a)"
  unfolding blocks_apart_def by (auto split: if_splits)

text \<open>One list after \<open>free_file\<close>: the node \<open>f\<close> is unlinked, unmapped, and freed with the blocks \<open>A\<close>.\<close>

lemma objs_free_file:
  assumes "objs B k off sz head ps" "blocks_apart B" "B f = Some 24" "f \<notin> set (head # ps)" "A \<inter> set (head # ps) = {}"
  shows "objs (\<lambda>a. if a \<in> insert f A then None else B a) (unmap_list_head f list_off k) off sz head ps"
proof -
  have "objs (B(f := None)) (unmap_list_head f list_off k) off sz head ps"
    by (rule objs_free_unmap [OF assms(1,2,3) _ assms(4)]) (simp add: list_off_def)
  from objs_free_set [OF this assms(5)] show ?thesis
    by (rule back_subst [of "\<lambda>B. objs B (unmap_list_head f list_off k) off sz head ps"]) auto
qed

lemma free_file_ok:
  assumes heap: "heap_ok L blocks" and ok: "fd_ok fl blocks s cs ds fs" and f: "f \<in> set fs" "fs_files s f = Some r"
  shows "\<exists>s'. free_file L f s = Some s' \<and> fd_ok fl blocks s' cs ds (remove1 f fs) \<and>
    fs_files s' = (fs_files s)(f := None) \<and> fs_lfd s' = fs_lfd s \<and> fs_priv s' = fs_priv s \<and>
    blocks (ds_mem (fs_dev s')) = (\<lambda>a. if a \<in> insert f (set (owned r)) then None else blocks (ds_mem (fs_dev s)) a)"
proof -
  let ?B = "blocks (ds_mem (fs_dev s))" and ?A = "set (owned r)"
  obtain ys zs where fs: "fs = ys @ f # zs" "f \<notin> set ys" using f(1) by (meson split_list_first)
  have rm: "remove1 f fs = ys @ zs" using fs by (simp add: remove1_append)
  have "distinct fs" using objs_distinct [OF fd_okD(2) [OF ok]] by simp
  then have fz: "f \<notin> set (ys @ zs)" using fs by auto
  obtain k where k: "list_del (f + list_off) (ds_links (fs_dev s)) = Some k"
    "objs ?B k list_off 24 (file_root fl) (ys @ zs)"
    "links_kept (ds_links (fs_dev s)) k (set (map (\<lambda>p. p + list_off) (file_root fl # fs)))"
    using objs_del [OF fd_okD(2) [OF ok] f(1)] rm by auto
  note dev = fd_okD(1) [OF ok]
  have o: "objs ?B k others_off 272 (seL4_RegisteredClasses (fl_dev fl)) cs"
    "objs ?B k siblings_off 12 (all_devs (fl_dev fl)) ds"
    by (rule objs_other [OF dev_okD(2) [OF dev] fd_ok_apart [OF ok] fd_okD(2) [OF ok] _ k(3)], simp,
        rule objs_other [OF dev_okD(3) [OF dev] fd_ok_apart [OF ok] fd_okD(2) [OF ok] _ k(3)], simp)
  have Bf: "?B f = Some 24" using fd_okD(2) [OF ok] f(1) by (auto simp: objs_def)
  have fl: "files_of s fs = files_of s ys @ r # files_of s zs" using fs f(2) by (simp add: files_of_def)
  let ?rest = "set (concat (map owned (files_of s ys @ files_of s zs)))"
  have own: "\<forall>a \<in> ?A \<union> ?rest. a \<noteq> 0 \<and> a \<notin> fd_nodes fl cs ds fs \<and> ?B a \<noteq> None"
    using fd_ok_owned(2) [OF ok] unfolding fl by auto
  have dis: "distinct (concat (map owned (files_of s ys @ files_of s zs)))" "?A \<inter> ?rest = {}"
    using fd_ok_owned(1) [OF ok] unfolding fl by auto
  have nd: "of_name r \<noteq> 0" using own by (simp add: owned_def)
  have f0: "f \<noteq> 0" using fd_okD(3) [OF ok f(1)] by simp
  define m where "m = kfree_ptr L f (kfree_ptr L (of_name r) (kfree_ptr L (of_file r) (ds_mem (fs_dev s))))"
  have Bm: "blocks m = (\<lambda>a. if a \<in> insert f ?A then None else ?B a)"
    using nd f0 by (auto simp: m_def blocks_kfree_ptr [OF heap] owned_def)
  define s' where "s' = s\<lparr>fs_dev := (fs_dev s)\<lparr>ds_mem := m, ds_links := unmap_list_head f list_off k,
      ds_bufs := (ds_bufs (fs_dev s))(of_name r := None)\<rparr>,
    fs_filps := (fs_filps s)(of_file r := None), fs_files := (fs_files s)(f := None)\<rparr>"
  have fr: "free_file L f s = Some s'" using nd f0 f(2) k(1) by (simp add: free_file_def Let_def s'_def m_def)
  have fo: "files_of s' (ys @ zs) = files_of s ys @ files_of s zs"
    using fz by (auto simp: files_of_def s'_def)
  have sz: "f \<notin> set (seL4_RegisteredClasses (fl_dev fl) # cs)" "f \<notin> set (all_devs (fl_dev fl) # ds)"
    using Bf o unfolding objs_def by auto
  have root: "f \<notin> set (file_root fl # ys @ zs)" using objs_distinct [OF fd_okD(2) [OF ok]] fs by auto
  have A: "?A \<inter> fd_nodes fl cs ds fs = {}" using own by blast
  note free = objs_free_file [OF _ fd_ok_apart [OF ok] Bf, of k]
  have "objs (blocks m) (unmap_list_head f list_off k) list_off 24 (file_root fl) (ys @ zs)"
    unfolding Bm by (rule free [OF k(2) root]) (use A fs in \<open>auto simp: fd_nodes_def\<close>)
  moreover have "objs (blocks m) (unmap_list_head f list_off k) others_off 272 (seL4_RegisteredClasses (fl_dev fl)) cs"
    unfolding Bm by (rule free [OF o(1) sz(1)]) (use A in \<open>auto simp: fd_nodes_def\<close>)
  moreover have "objs (blocks m) (unmap_list_head f list_off k) siblings_off 12 (all_devs (fl_dev fl)) ds"
    unfolding Bm by (rule free [OF o(2) sz(2)]) (use A in \<open>auto simp: fd_nodes_def\<close>)
  moreover have "blocks_apart (blocks m)" unfolding Bm by (rule blocks_apart_free_set [OF fd_ok_apart [OF ok]])
  ultimately have "dev_ok (fl_dev fl) blocks (fs_dev s') cs ds \<and>
      objs (blocks (ds_mem (fs_dev s'))) (ds_links (fs_dev s')) list_off 24 (file_root fl) (ys @ zs)"
    using dev by (simp add: dev_ok_def s'_def)
  moreover have "f \<in> fd_nodes fl cs ds fs" "fd_nodes fl cs ds (ys @ zs) \<subseteq> fd_nodes fl cs ds fs"
    using fs by (auto simp: fd_nodes_def)
  then have "\<forall>a \<in> ?rest. a \<noteq> 0 \<and> a \<notin> fd_nodes fl cs ds (ys @ zs) \<and> blocks m a \<noteq> None"
    using own dis(2) unfolding Bm by auto
  moreover have "distinct (map of_fd (files_of s ys @ files_of s zs))"
    "\<forall>r \<in> set (files_of s ys @ files_of s zs). 0 < of_fd r \<and> of_fd r < fs_lfd s" "0 < fs_lfd s"
    using fd_ok_owned(3,4,5) [OF ok] unfolding fl by auto
  moreover have "\<forall>p \<in> set (ys @ zs). p \<noteq> 0 \<and> fs_files s' p \<noteq> None"
    using ok fs fz unfolding fd_ok_def by (auto simp: s'_def)
  moreover have "ds_mem (fs_dev s') = m" "fs_lfd s' = fs_lfd s" by (simp_all add: s'_def)
  ultimately have "fd_ok fl blocks s' cs ds (ys @ zs)"
    using dis(1) unfolding fd_ok_def fo by (simp only:)
  with fr rm Bm show ?thesis by (intro exI [of _ s']) (simp add: s'_def)
qed


lemma bad_fd:
  assumes "fd_ok fl blocks s cs ds fs" "fd \<notin> set (map of_fd (files_of s fs))"
  shows "fd_close L fl fd s = Some (- 1, s\<lparr>fs_errno := EBADF\<rparr>)"
    "fd_write fl fd buf n s = Some (0, s\<lparr>fs_errno := EBADF\<rparr>)"
    "fd_read fl fd buf n s = Some ((0, buf), s\<lparr>fs_errno := EBADF\<rparr>)"
  using file_by_fd_none [OF assms] by (simp_all add: fd_close_def fd_write_def fd_read_def)

section \<open>What the file operations rely on\<close>

text \<open>A driver leaves the allocator with the blocks it found.\<close>

locale char_driver =
  fixes ops :: "('h, 'd) file_operations" and blocks :: "'h \<Rightarrow> addr \<rightharpoonup> nat"
  assumes open_keeps: "fop_open ops = Some opn \<Longrightarrow> opn dev p d = Some (r, d') \<Longrightarrow> blocks (dv_mem d') = blocks (dv_mem d)"
    and read_keeps: "fop_read ops = Some rd \<Longrightarrow> rd p b n d = Some (rb, d') \<Longrightarrow> blocks (dv_mem d') = blocks (dv_mem d)"
    and write_keeps: "fop_write ops = Some wr \<Longrightarrow> wr p b n d = Some (r, d') \<Longrightarrow> blocks (dv_mem d') = blocks (dv_mem d)"
begin

lemma call_driver_ok:
  assumes "fd_ok fl blocks s cs ds fs" "call_driver g s = Some (x, s')"
    and "\<And>d d'. g d = Some (x, d') \<Longrightarrow> blocks (dv_mem d') = blocks (dv_mem d)"
  shows "fd_ok fl blocks s' cs ds fs"
proof -
  obtain d' where d': "g \<lparr>dv_mem = ds_mem (fs_dev s), dv_filps = fs_filps s, dv_priv = fs_priv s\<rparr> = Some (x, d')"
    "s' = s\<lparr>fs_dev := (fs_dev s)\<lparr>ds_mem := dv_mem d'\<rparr>, fs_filps := dv_filps d', fs_priv := dv_priv d'\<rparr>"
    using assms(2) by (auto simp: call_driver_def split: bind_splits)
  show ?thesis by (rule fd_ok_cong [OF assms(1)]) (use assms(3) [OF d'(1)] in \<open>simp_all add: d'(2)\<close>)
qed

lemma write_call:
  assumes "fd_ok fl blocks s cs ds fs" "f \<in> set fs" "fs_files s f = Some r" "device_ops (of_device r) s = Some ops"
  shows "fd_write fl (of_fd r) (Some b) n s =
    (case fop_write ops of None \<Rightarrow> None | Some wr \<Rightarrow> call_driver (wr (of_file r) b n) s)"
    and "fd_write fl (of_fd r) (Some b) n s = Some (k, s') \<Longrightarrow> fd_ok fl blocks s' cs ds fs"
proof -
  have "f \<noteq> 0" using fd_okD(3) [OF assms(1,2)] by simp
  then show e: "fd_write fl (of_fd r) (Some b) n s =
    (case fop_write ops of None \<Rightarrow> None | Some wr \<Rightarrow> call_driver (wr (of_file r) b n) s)"
    using file_by_fd_file [OF assms(1-3)] assms(3,4) by (simp add: fd_write_def split: option.splits)
  show "fd_ok fl blocks s' cs ds fs" if "fd_write fl (of_fd r) (Some b) n s = Some (k, s')"
    using that write_keeps call_driver_ok [OF assms(1)] by (fastforce simp: e split: option.splits)
qed

lemma read_call:
  assumes "fd_ok fl blocks s cs ds fs" "f \<in> set fs" "fs_files s f = Some r" "device_ops (of_device r) s = Some ops"
  shows "fd_read fl (of_fd r) (Some b) n s =
    (case fop_read ops of None \<Rightarrow> None
     | Some rd \<Rightarrow> do { ((k, b), s) \<leftarrow> call_driver (rd (of_file r) b n) s; Some ((k, Some b), s) })"
    and "fd_read fl (of_fd r) (Some b) n s = Some (kb, s') \<Longrightarrow> fd_ok fl blocks s' cs ds fs"
proof -
  have "f \<noteq> 0" using fd_okD(3) [OF assms(1,2)] by simp
  then show e: "fd_read fl (of_fd r) (Some b) n s =
    (case fop_read ops of None \<Rightarrow> None
     | Some rd \<Rightarrow> do { ((k, b), s) \<leftarrow> call_driver (rd (of_file r) b n) s; Some ((k, Some b), s) })"
    using file_by_fd_file [OF assms(1-3)] assms(3,4) by (simp add: fd_read_def split: option.splits)
  show "fd_ok fl blocks s' cs ds fs" if "fd_read fl (of_fd r) (Some b) n s = Some (kb, s')"
    using that read_keeps call_driver_ok [OF assms(1)] by (fastforce simp: e split: option.splits bind_splits)
qed

end

text \<open>The C library as a locale: what holds for every allocator that obeys its documentation.\<close>

locale libc_heap =
  fixes L :: "'h libc" and blocks :: "'h \<Rightarrow> addr \<rightharpoonup> nat"
  assumes heap: "heap_ok L blocks"

interpretation logh: libc_heap log_libc map_of
  by (unfold_locales) (rule log_libc_ok)

section \<open>Properties\<close>

text \<open>A driver that accepts every byte: its state is what was written.\<close>

definition sink_ops :: "('h, u8 list) file_operations" where
  "sink_ops = \<lparr>
     fop_open = Some (\<lambda>dev p s. case dv_filps s p of None \<Rightarrow> None
       | Some _ \<Rightarrow> Some (0, s\<lparr>dv_filps := (dv_filps s)(p \<mapsto> \<lparr>private_data = Some (ucast dev)\<rparr>)\<rparr>)),
     fop_read = None,
     fop_write = Some (\<lambda>p b n s. do { bs \<leftarrow> mem_load b 0 (unat n); Some (uint n, s\<lparr>dv_priv := dv_priv s @ bs\<rparr>) })\<rparr>"

definition sample_fl :: fd_layout where
  "sample_fl = \<lparr>fl_dev = sample_layout, sz_file = 0x80, file_root = 0x600\<rparr>"

text \<open>One class with a device attached to that driver, and no open file.\<close>

definition sample_fds :: "((addr \<times> nat) list, u8 list) fd_state" where
  "sample_fds = \<lparr>fs_dev = \<lparr>ds_mem = [(0x100, 12), (0x200, 272), (0x400, 272), (0x600, 24)],
       ds_links = \<lparr>l_next = [0x104 \<mapsto> 0x104, 0x308 \<mapsto> 0x508, 0x508 \<mapsto> 0x308, 0x60c \<mapsto> 0x60c],
                   l_prev = [0x104 \<mapsto> 0x104, 0x308 \<mapsto> 0x508, 0x508 \<mapsto> 0x308, 0x60c \<mapsto> 0x60c]\<rparr>,
       ds_ops = [0x10 \<mapsto> sink_ops], ds_cdevs = [0x700 \<mapsto> \<lparr>cd_dev = Some 0, cd_ops = Some 0x10\<rparr>], ds_cur = 0,
       ds_nodes = Map.empty, ds_regs = [0x400 \<mapsto> \<lparr>sc_cdev = 0x700, sc_name = ''/dev/a'', sc_dev = 5\<rparr>],
       ds_classes = Map.empty, ds_devices = Map.empty, ds_bufs = Map.empty\<rparr>,
     fs_filps = Map.empty, fs_priv = [], fs_lfd = 1, fs_files = Map.empty, fs_errno = 0\<rparr>"

lemma sample_fds_ok: "fd_ok sample_fl map_of sample_fds [0x400] [] []"
proof -
  have "blocks_apart (map_of [(0x100, 12), (0x200, 272), (0x400, 272), (0x600, 24)])"
    by (rule stacked_apart [of 0]) simp
  then show ?thesis
    by (simp add: fd_ok_def dev_ok_def sample_fds_def sample_fl_def sample_layout_def objs_def dlist_def
        others_off_def siblings_off_def list_off_def files_of_def)
qed

lemma sample_file_mem:
  "file_mem log_libc sample_fl ''/dev/a'' (ds_mem (fs_dev sample_fds)) 0x1000 0x1019 0x105A 0x1061
     ((0x1061, 128) # (0x105A, 6) # (0x1019, 64) # (0x1000, 24) # ds_mem (fs_dev sample_fds))"
  unfolding file_mem_def
  by (rule exI [of _ "replicate 24 0xAA"], rule exI [of _ "replicate 64 0xAA"], rule exI [of _ "replicate 6 0"],
      rule exI [of _ "replicate 128 0xAA"], rule exI [of _ "(0x1000, 24) # ds_mem (fs_dev sample_fds)"],
      rule exI [of _ "(0x1019, 64) # (0x1000, 24) # ds_mem (fs_dev sample_fds)"],
      rule exI [of _ "(0x105A, 6) # (0x1019, 64) # (0x1000, 24) # ds_mem (fs_dev sample_fds)"])
    (simp add: kmalloc_def kmalloc_rt_def kcalloc_def kmalloc_array_def KMALLOC_MAX_CACHE_SIZE_def push_bit_eq_mult
      GFP_KERNEL_def GFP_ZERO_def log_libc_def log_alloc_def sample_fds_def sample_fl_def sample_layout_def
      sz_opened_file_def strlen_def)

text \<open>
  C25. \<open>open\<close> of a registered device with a driver returns the next descriptor, which no open file
  has, calls the driver's \<open>open\<close> with the device number and a new \<open>struct file\<close>, and keeps
  the invariant; the new file leads to the device, and every other descriptor to what it
  did before.
\<close>

theorem fd_open_result:
  assumes "heap_ok L blocks" "fd_ok fl blocks s cs ds fs" "length name < 2 ^ 32" "fs_lfd s < INT_MAX"
    and "file_mem L fl name (ds_mem (fs_dev s)) f d n p m"
    and "device_by_name (fl_dev fl) name (fs_dev s) = Some cls" "cls \<noteq> 0" "ds_regs (fs_dev s) cls = Some c"
    and "sc_cdev c \<noteq> d" "device_ops (sc_cdev c) s = Some ops" "fop_open ops = Some op"
    and "op (sc_dev c) p \<lparr>dv_mem = m, dv_filps = (fs_filps s)(p \<mapsto> \<lparr>private_data = None\<rparr>), dv_priv = fs_priv s\<rparr> = Some (rc, dv)"
      "blocks (dv_mem dv) = blocks m"
  shows "\<exists>s'. fd_open L fl (Some name) s = Some (fs_lfd s, s') \<and> fd_ok fl blocks s' cs ds (f # fs) \<and>
    fs_lfd s \<notin> set (map of_fd (files_of s fs)) \<and> file_by_fd fl (fs_lfd s) s' = Some f \<and>
    fs_files s' f = Some \<lparr>of_fd = fs_lfd s, of_name = n, of_device = sc_cdev c, of_file = p\<rparr> \<and>
    fs_filps s' = dv_filps dv \<and> (\<forall>fd. fd \<noteq> fs_lfd s \<longrightarrow> file_by_fd fl fd s' = file_by_fd fl fd s)"
proof -
  obtain s' where s': "fd_open L fl (Some name) s = Some (fs_lfd s, s')" "fd_ok fl blocks s' cs ds (f # fs)"
    "fs_files s' = (fs_files s)(f \<mapsto> \<lparr>of_fd = fs_lfd s, of_name = n, of_device = sc_cdev c, of_file = p\<rparr>)"
    "fs_filps s' = dv_filps dv"
    using fd_open_ok [OF assms] by blast
  have f: "f \<notin> set fs" using objs_distinct [OF fd_okD(2) [OF s'(2)]] by simp
  have "file_by_fd fl (fs_lfd s) s' = Some f"
    using file_by_fd_file [OF s'(2), of f] s'(3) by simp
  moreover have "fs_lfd s \<notin> set (map of_fd (files_of s fs))" using fd_ok_owned(4) [OF assms(2)] by fastforce
  moreover have "file_by_fd fl fd s' = file_by_fd fl fd s" if "fd \<noteq> fs_lfd s" for fd
  proof -
    have "find (\<lambda>q. of_fd (the (fs_files s' q)) = fd) fs = find (\<lambda>q. of_fd (the (fs_files s q)) = fd) fs"
      using f s'(3) by (intro find_cong) auto
    then show ?thesis
      using that s'(3) by (simp add: file_by_fd_find [OF s'(2)] file_by_fd_find [OF assms(2)])
  qed
  ultimately show ?thesis using s' by (intro exI [of _ s']) simp
qed

lemma sample_lookup:
  "device_by_name (fl_dev sample_fl) ''/dev/a'' (fs_dev sample_fds) = Some 0x400"
  "ds_regs (fs_dev sample_fds) 0x400 = Some \<lparr>sc_cdev = 0x700, sc_name = ''/dev/a'', sc_dev = 5\<rparr>"
  "device_ops 0x700 sample_fds = Some sink_ops"
  using device_by_name_find [OF fd_okD(1) [OF sample_fds_ok], of "''/dev/a''"]
  by (simp_all add: sample_fds_def device_ops_def strncmp_eq_def)

theorem fd_open_result_witness:
  "\<exists>s'. fd_open log_libc sample_fl (Some ''/dev/a'') sample_fds = Some (1, s') \<and>
    file_by_fd sample_fl 1 s' = Some 0x1000 \<and> fs_filps s' 0x1061 = Some \<lparr>private_data = Some 5\<rparr>"
proof -
  let ?m = "(0x1061, 128) # (0x105A, 6) # (0x1019, 64) # (0x1000, 24) # ds_mem (fs_dev sample_fds)"
  define op where "op = the (fop_open sink_ops :: (dev_t \<Rightarrow> addr \<Rightarrow> ((addr \<times> nat) list, u8 list) drv_state \<Rightarrow> _) option)"
  have op: "fop_open sink_ops = Some op"
    "op 5 0x1061 \<lparr>dv_mem = ?m, dv_filps = [0x1061 \<mapsto> \<lparr>private_data = None\<rparr>], dv_priv = []\<rparr> =
      Some (0, \<lparr>dv_mem = ?m, dv_filps = [0x1061 \<mapsto> \<lparr>private_data = Some 5\<rparr>], dv_priv = []\<rparr>)"
    by (simp_all add: sink_ops_def op_def)
  have s: "fs_lfd sample_fds = 1" "fs_filps sample_fds = Map.empty" "fs_priv sample_fds = []"
    by (simp_all add: sample_fds_def)
  have "\<exists>s'. fd_open log_libc sample_fl (Some ''/dev/a'') sample_fds = Some (fs_lfd sample_fds, s') \<and>
    file_by_fd sample_fl (fs_lfd sample_fds) s' = Some 0x1000 \<and> fs_filps s' = [0x1061 \<mapsto> \<lparr>private_data = Some 5\<rparr>]"
    using fd_open_result [OF log_libc_ok sample_fds_ok _ _ sample_file_mem sample_lookup(1) _ sample_lookup(2)]
      sample_lookup(3) op
    by (force simp: s INT_MAX_def)
  then show ?thesis by (auto simp: s)
qed

text \<open>
  C26. \<open>close\<close> of an open descriptor returns 0, unlinks the file and frees exactly the file, its
  name and its \<open>struct file\<close>; the invariant holds afterwards and the descriptor is bad for
  every operation. The driver is not told.
\<close>

theorem fd_close_result:
  assumes "heap_ok L blocks" "fd_ok fl blocks s cs ds fs" "f \<in> set fs" "fs_files s f = Some r"
  shows "\<exists>s'. fd_close L fl (of_fd r) s = Some (0, s') \<and> fd_ok fl blocks s' cs ds (remove1 f fs) \<and>
    fs_priv s' = fs_priv s \<and>
    blocks (ds_mem (fs_dev s')) = (\<lambda>a. if a \<in> insert f (set (owned r)) then None else blocks (ds_mem (fs_dev s)) a) \<and>
    fd_write fl (of_fd r) buf n s' = Some (0, s'\<lparr>fs_errno := EBADF\<rparr>) \<and>
    fd_close L fl (of_fd r) s' = Some (- 1, s'\<lparr>fs_errno := EBADF\<rparr>)"
proof -
  obtain s' where s': "free_file L f s = Some s'" "fd_ok fl blocks s' cs ds (remove1 f fs)"
    "fs_files s' = (fs_files s)(f := None)" "fs_priv s' = fs_priv s"
    "blocks (ds_mem (fs_dev s')) = (\<lambda>a. if a \<in> insert f (set (owned r)) then None else blocks (ds_mem (fs_dev s)) a)"
    using free_file_ok [OF assms] by blast
  have "f \<noteq> 0" using fd_okD(3) [OF assms(2,3)] by simp
  then have "fd_close L fl (of_fd r) s = Some (0, s')"
    using file_by_fd_file [OF assms(2-4)] s'(1) by (simp add: fd_close_def)
  moreover have "of_fd r \<notin> set (map of_fd (files_of s' (remove1 f fs)))"
  proof
    assume "of_fd r \<in> set (map of_fd (files_of s' (remove1 f fs)))"
    then obtain q where q: "q \<in> set (remove1 f fs)" "of_fd (the (fs_files s' q)) = of_fd r"
      by (auto simp: files_of_def)
    have d: "distinct fs" using objs_distinct [OF fd_okD(2) [OF assms(2)]] by simp
    then have "q \<noteq> f" "q \<in> set fs" using q(1) by auto
    then have "file_by_fd fl (of_fd r) s = Some q"
      using file_by_fd_file [OF assms(2), of q] fd_okD(3) [OF assms(2), of q] q(2) s'(3) by (metis fun_upd_apply)
    with file_by_fd_file [OF assms(2-4)] \<open>q \<noteq> f\<close> show False by simp
  qed
  from bad_fd [OF s'(2) this] s'(2,4,5) calculation show ?thesis by blast
qed

text \<open>A state with the file of descriptor 1 open.\<close>

definition sample_opened :: "((addr \<times> nat) list, u8 list) fd_state" where
  "sample_opened = sample_fds\<lparr>
     fs_dev := (fs_dev sample_fds)\<lparr>
       ds_mem := [(0x100, 12), (0x200, 272), (0x400, 272), (0x600, 24), (0x800, 24), (0x900, 6), (0xA00, 128)],
       ds_links := \<lparr>l_next = [0x104 \<mapsto> 0x104, 0x308 \<mapsto> 0x508, 0x508 \<mapsto> 0x308, 0x60c \<mapsto> 0x80c, 0x80c \<mapsto> 0x60c],
                    l_prev = [0x104 \<mapsto> 0x104, 0x308 \<mapsto> 0x508, 0x508 \<mapsto> 0x308, 0x60c \<mapsto> 0x80c, 0x80c \<mapsto> 0x60c]\<rparr>\<rparr>,
     fs_filps := [0xA00 \<mapsto> \<lparr>private_data = Some 5\<rparr>], fs_lfd := 2,
     fs_files := [0x800 \<mapsto> \<lparr>of_fd = 1, of_name = 0x900, of_device = 0x700, of_file = 0xA00\<rparr>]\<rparr>"

lemma sample_opened_ok: "fd_ok sample_fl map_of sample_opened [0x400] [] [0x800]"
proof -
  have "blocks_apart (map_of [(0x100, 12), (0x200, 272), (0x400, 272), (0x600, 24), (0x800, 24), (0x900, 6), (0xA00, 128)])"
    by (rule stacked_apart [of 0]) simp
  then show ?thesis
    by (simp add: fd_ok_def dev_ok_def sample_opened_def sample_fds_def sample_fl_def sample_layout_def objs_def dlist_def
        others_off_def siblings_off_def list_off_def files_of_def owned_def fd_nodes_def)
qed

theorem fd_close_result_witness:
  "\<exists>s'. fd_close log_libc sample_fl 1 sample_opened = Some (0, s') \<and>
    fd_write sample_fl 1 None 0 s' = Some (0, s'\<lparr>fs_errno := EBADF\<rparr>)"
  using fd_close_result [OF log_libc_ok sample_opened_ok, of "0x800" "\<lparr>of_fd = 1, of_name = 0x900, of_device = 0x700, of_file = 0xA00\<rparr>" None 0]
  by (auto simp: sample_opened_def)

text \<open>
  C27. The error behaviour of the file operations: a bad descriptor makes \<open>close\<close> return $-1$ but
  \<open>read\<close> and \<open>write\<close> return 0, indistinguishable from an empty transfer but for \<open>errno\<close>; so
  does a null buffer; and \<open>open\<close> of a name that is not registered never returns: it reads
  the device number through a null pointer before it tests the pointer.
\<close>

theorem fd_errors:
  assumes "fd_ok fl blocks s cs ds fs"
  shows "(fd \<notin> set (map of_fd (files_of s fs)) \<longrightarrow>
      fd_close L fl fd s = Some (- 1, s\<lparr>fs_errno := EBADF\<rparr>) \<and>
      fd_write fl fd buf n s = Some (0, s\<lparr>fs_errno := EBADF\<rparr>) \<and>
      fd_read fl fd buf n s = Some ((0, buf), s\<lparr>fs_errno := EBADF\<rparr>)) \<and>
    (fd \<in> set (map of_fd (files_of s fs)) \<longrightarrow>
      fd_write fl fd None n s = Some (0, s\<lparr>fs_errno := EFAULT\<rparr>) \<and>
      fd_read fl fd None n s = Some ((0, None), s\<lparr>fs_errno := EFAULT\<rparr>)) \<and>
    (heap_ok L blocks \<and> length name < 2 ^ 32 \<and> fs_lfd s < INT_MAX \<and> file_mem L fl name (ds_mem (fs_dev s)) f d nm p m \<and>
      ds_regs (fs_dev s) 0 = None \<and> name \<notin> set (map sc_name (registry (fs_dev s) cs)) \<and>
      length name < 256 \<and> (\<forall>c \<in> set (registry (fs_dev s) cs). length (sc_name c) < 256) \<longrightarrow>
      fd_open L fl (Some name) s = None)"
proof (intro conjI)
  show "fd \<notin> set (map of_fd (files_of s fs)) \<longrightarrow>
      fd_close L fl fd s = Some (- 1, s\<lparr>fs_errno := EBADF\<rparr>) \<and>
      fd_write fl fd buf n s = Some (0, s\<lparr>fs_errno := EBADF\<rparr>) \<and>
      fd_read fl fd buf n s = Some ((0, buf), s\<lparr>fs_errno := EBADF\<rparr>)"
    using bad_fd [OF assms] by blast
  show "fd \<in> set (map of_fd (files_of s fs)) \<longrightarrow>
      fd_write fl fd None n s = Some (0, s\<lparr>fs_errno := EFAULT\<rparr>) \<and>
      fd_read fl fd None n s = Some ((0, None), s\<lparr>fs_errno := EFAULT\<rparr>)"
  proof
    assume "fd \<in> set (map of_fd (files_of s fs))"
    then obtain f where f: "f \<in> set fs" "fd = of_fd (the (fs_files s f))" by (auto simp: files_of_def)
    then have "file_by_fd fl fd s = Some f" "f \<noteq> 0"
      using file_by_fd_file [OF assms f(1)] fd_okD(3) [OF assms f(1)] by auto
    then show "fd_write fl fd None n s = Some (0, s\<lparr>fs_errno := EFAULT\<rparr>) \<and>
        fd_read fl fd None n s = Some ((0, None), s\<lparr>fs_errno := EFAULT\<rparr>)"
      by (simp add: fd_write_def fd_read_def)
  qed
  show "heap_ok L blocks \<and> length name < 2 ^ 32 \<and> fs_lfd s < INT_MAX \<and> file_mem L fl name (ds_mem (fs_dev s)) f d nm p m \<and>
      ds_regs (fs_dev s) 0 = None \<and> name \<notin> set (map sc_name (registry (fs_dev s) cs)) \<and>
      length name < 256 \<and> (\<forall>c \<in> set (registry (fs_dev s) cs). length (sc_name c) < 256) \<longrightarrow>
      fd_open L fl (Some name) s = None"
  proof (intro impI, elim conjE)
    assume a: "heap_ok L blocks" "length name < 2 ^ 32" "fs_lfd s < INT_MAX" "file_mem L fl name (ds_mem (fs_dev s)) f d nm p m"
      "ds_regs (fs_dev s) 0 = None" "name \<notin> set (map sc_name (registry (fs_dev s) cs))"
      "length name < 256" "\<forall>c \<in> set (registry (fs_dev s) cs). length (sc_name c) < 256"
    obtain s1 where s1: "alloc_file L fl (Some name) s = Some (f, s1)" "fd_ok fl blocks s1 cs ds fs"
      "ds_regs (fs_dev s1) = ds_regs (fs_dev s)"
      using alloc_file_ok [OF a(1) assms a(2-4)] by blast
    have "find (\<lambda>p. strncmp_eq (sc_name (the (ds_regs (fs_dev s1) p))) name 256) cs = None"
      unfolding find_None_iff using a(6-8) s1(3) by (auto simp: registry_def strncmp_eq_def)
    then have "device_by_name (fl_dev fl) name (fs_dev s1) = Some 0"
      by (simp add: device_by_name_find [OF fd_okD(1) [OF s1(2)]])
    then show "fd_open L fl (Some name) s = None" using s1(1,3) a(5) by (simp add: fd_open_def)
  qed
qed

theorem fd_errors_witness:
  "fd_close log_libc sample_fl 7 sample_opened = Some (- 1, sample_opened\<lparr>fs_errno := EBADF\<rparr>) \<and>
   fd_read sample_fl 1 None 3 sample_opened = Some ((0, None), sample_opened\<lparr>fs_errno := EFAULT\<rparr>) \<and>
   fd_open log_libc sample_fl (Some ''/dev/x'') sample_fds = None"
proof -
  have "file_mem log_libc sample_fl ''/dev/x'' (ds_mem (fs_dev sample_fds)) 0x1000 0x1019 0x105A 0x1061
     ((0x1061, 128) # (0x105A, 6) # (0x1019, 64) # (0x1000, 24) # ds_mem (fs_dev sample_fds))"
    using sample_file_mem by (simp add: file_mem_def strlen_def)
  then have "fd_open log_libc sample_fl (Some ''/dev/x'') sample_fds = None"
    using fd_errors [OF sample_fds_ok, where L = log_libc and name = "''/dev/x''"] log_libc_ok
    by (simp add: sample_fds_def registry_def INT_MAX_def)
  then show ?thesis
    using fd_errors [OF sample_opened_ok, where fd = 7 and L = log_libc and buf = None and n = 0]
      fd_errors [OF sample_opened_ok, where fd = 1 and n = 3]
    by (auto simp: files_of_def sample_opened_def)
qed

end
