(* ===== verification/Ioport.thy ===== *)
theory Ioport
  imports Cdev
begin

text \<open>
  I/O ports (\<open>ioport.c\<close>). The system calls for port access belong to the seL4 kernel; they are
  the parameter \<open>ports\<close>, with \<open>'w\<close> the hardware behind them. A call that reports an error ends
  the program (\<open>ZF_LOGF_IFERR\<close>). Regions of ports are recorded but never checked.
\<close>

section \<open>Definitions\<close>

record 'w ports =
  x86_in8 :: "u32 \<Rightarrow> 'w \<Rightarrow> (int \<times> u8) \<times> 'w"
  x86_out8 :: "u32 \<Rightarrow> u8 \<Rightarrow> 'w \<Rightarrow> int \<times> 'w"

definition outb :: "'w ports \<Rightarrow> u8 \<Rightarrow> u32 \<Rightarrow> 'w \<Rightarrow> 'w option" where
  "outb P v port w = (let (err, w) = x86_out8 P port v w in if err \<noteq> 0 then None else Some w)"

definition inb :: "'w ports \<Rightarrow> u32 \<Rightarrow> 'w \<Rightarrow> (u8 \<times> 'w) option" where
  "inb P port w = (let ((err, v), w) = x86_in8 P port w in if err \<noteq> 0 then None else Some (v, w))"

record resource =
  rs_start :: u32
  rs_end :: u32
  rs_name :: addr
  rs_flags :: u32
  rs_parent :: addr

definition sz_resource :: u32 where "sz_resource = 32"

text \<open>\<open>__request_region\<close>; the name is \<open>None\<close> for a null pointer.\<close>

definition request_region_in :: "'h libc \<Rightarrow> addr \<Rightarrow> u32 \<Rightarrow> u32 \<Rightarrow> string option \<Rightarrow> u32 \<Rightarrow>
    (addr \<rightharpoonup> resource) \<times> ('h, 'o) dev_state \<Rightarrow> (addr \<times> (addr \<rightharpoonup> resource) \<times> ('h, 'o) dev_state) option" where
  "request_region_in L res start n name flags = (\<lambda>(rs, s).
     case ext_malloc L sz_resource (ds_mem s) of
       (None, m) \<Rightarrow> None
     | (Some (out, bs), m) \<Rightarrow>
         do { nm \<leftarrow> name;
              (p, s) \<leftarrow> dup_name L nm (s\<lparr>ds_mem := m\<rparr>);
              Some (out, rs(out \<mapsto> \<lparr>rs_start = start, rs_end = start + n, rs_name = p, rs_flags = flags, rs_parent = res\<rparr>), s) })"

text \<open>The macros of \<open>linux/ioport.h\<close> for port regions; \<open>iop\<close> is the address of \<open>ioport_resource\<close>.\<close>

definition request_region :: "'h libc \<Rightarrow> addr \<Rightarrow> u32 \<Rightarrow> u32 \<Rightarrow> string option \<Rightarrow>
    (addr \<rightharpoonup> resource) \<times> ('h, 'o) dev_state \<Rightarrow> (addr \<times> (addr \<rightharpoonup> resource) \<times> ('h, 'o) dev_state) option" where
  "request_region L iop start n name = request_region_in L iop start n name 0"

definition release_port_region :: "addr \<Rightarrow> u32 \<Rightarrow> u32 \<Rightarrow> ('h, 'o) dev_state \<Rightarrow> ('h, 'o) dev_state" where
  "release_port_region iop start n = release_region iop start n"

section \<open>What the drivers rely on\<close>

text \<open>Port accesses that never fail.\<close>

definition ports_ok :: "'w ports \<Rightarrow> bool" where
  "ports_ok P \<longleftrightarrow> (\<forall>p w. fst (fst (x86_in8 P p w)) = 0) \<and> (\<forall>p v w. fst (x86_out8 P p v w) = 0)"

lemma outb_ok: "ports_ok P \<Longrightarrow> outb P v port w = Some (snd (x86_out8 P port v w))"
  by (simp add: ports_ok_def outb_def split_beta)

lemma inb_ok: "ports_ok P \<Longrightarrow> inb P port w = Some (snd (fst (x86_in8 P port w)), snd (x86_in8 P port w))"
  by (simp add: ports_ok_def inb_def split_beta)

text \<open>A region request never fails softly: it returns a new resource or faults. Overlapping
  requests both succeed, since nothing is compared.\<close>

lemma request_region_result:
  assumes "heap_ok L blocks" "dev_ok ly blocks s cs ds" "length nm < 2 ^ 32"
    and "ext_malloc L sz_resource (ds_mem s) = (Some (out, ob), m1)"
    and "ext_calloc L 1 (strlen nm) m1 = (Some (p, pb), m2)"
  shows "\<exists>s'. request_region L iop start n (Some nm) (rs, s) = Some (out,
      rs(out \<mapsto> \<lparr>rs_start = start, rs_end = start + n, rs_name = p, rs_flags = 0, rs_parent = iop\<rparr>), s') \<and>
    out \<noteq> 0 \<and> dev_ok ly blocks s' cs ds \<and> ds_mem s' = m2 \<and> ds_links s' = ds_links s \<and> ds_regs s' = ds_regs s \<and>
    ds_cdevs s' = ds_cdevs s \<and> ds_ops s' = ds_ops s \<and> ds_classes s' = ds_classes s \<and> lists_kept blocks s s'"
proof -
  have n1: "length ob = unat sz_resource" "new_block (blocks (ds_mem s)) (blocks m1) out (unat sz_resource)"
    using heap_ok_malloc [OF assms(1), of sz_resource "ds_mem s"] assms(4) by (simp_all add: alloc_law_Some)
  have ok1: "dev_ok ly blocks (s\<lparr>ds_mem := m1\<rparr>) cs ds" by (rule dev_ok_new [OF assms(2) n1(2)])
  have nm: "ext_calloc L 1 (strlen nm) (ds_mem (s\<lparr>ds_mem := m1\<rparr>)) = (Some (p, pb), m2)" using assms(5) by simp
  have k: "lists_kept blocks s (s\<lparr>ds_mem := m1\<rparr>)" by (rule lists_kept_new) (use n1(2) in simp_all)
  from dup_name_result(1-3) [OF assms(1) ok1 assms(3) nm] lists_kept_trans [OF k dup_name_result(4) [OF assms(1) ok1 assms(3) nm]]
    n1(2) assms(4) show ?thesis
    by (auto simp: request_region_def request_region_in_def new_block_def)
qed

end
