(* ===== verification/Uart_Hw.thy ===== *)
theory Uart_Hw
  imports Ioport
begin

text \<open>
  The hardware layer of the serial driver (\<open>uart16550_hw.h\<close> and the constants of
  \<open>uart16550.h\<close>): register accesses through the ports of one controller.
\<close>

section \<open>Definitions\<close>

definition COM1_BASEPORT :: u32 where "COM1_BASEPORT = 0x3f8"
definition COM2_BASEPORT :: u32 where "COM2_BASEPORT = 0x2f8"
definition COM1_IRQ :: u32 where "COM1_IRQ = 4"
definition COM2_IRQ :: u32 where "COM2_IRQ = 3"
definition FIFO_SIZE :: u32 where "FIFO_SIZE = 4096"
definition OPTION_COM1 :: u32 where "OPTION_COM1 = 1"
definition OPTION_COM2 :: u32 where "OPTION_COM2 = 2"
definition OPTION_BOTH :: u32 where "OPTION_BOTH = 3"
definition UART16550_IOCTL_SET_LINE :: u32 where "UART16550_IOCTL_SET_LINE = 1"

record uart16550_line_info =
  li_baud :: u8
  li_len :: u8
  li_par :: u8
  li_stop :: u8

definition uart_bauds :: "u8 list" where "uart_bauds = [96, 48, 24, 12, 6, 3, 2, 1]"
definition UART16550_BAUD_115200 :: u8 where "UART16550_BAUD_115200 = 1"
definition uart_lens :: "u8 list" where "uart_lens = [0x00, 0x01, 0x02, 0x03]"
definition UART16550_LEN_8 :: u8 where "UART16550_LEN_8 = 0x03"
definition UART16550_STOP_1 :: u8 where "UART16550_STOP_1 = 0x00"
definition uart_stops :: "u8 list" where "uart_stops = [0x00, 0x04]"
definition UART16550_PAR_NONE :: u8 where "UART16550_PAR_NONE = 0x00"
definition uart_pars :: "u8 list" where "uart_pars = [0x00, 0x08, 0x18, 0x20]"

text \<open>The register offsets.\<close>

definition NR_IO_PORTS :: u32 where "NR_IO_PORTS = 8"
definition THR :: u32 where "THR = 0x00"
definition RBR :: u32 where "RBR = 0x00"
definition IER :: u32 where "IER = 0x01"
definition DLL :: u32 where "DLL = 0x00"
definition DLM :: u32 where "DLM = 0x01"
definition ISR :: u32 where "ISR = 0x02"
definition FCR :: u32 where "FCR = 0x02"
definition LCR :: u32 where "LCR = 0x03"
definition MCR :: u32 where "MCR = 0x04"
definition LSR :: u32 where "LSR = 0x05"
definition MSR :: u32 where "MSR = 0x06"

lemmas reg_defs = THR_def RBR_def IER_def DLL_def DLM_def ISR_def FCR_def LCR_def MCR_def LSR_def MSR_def

definition WRITE_TO_REG :: "'w ports \<Rightarrow> u32 \<Rightarrow> u32 \<Rightarrow> u8 \<Rightarrow> 'w \<Rightarrow> 'w option" where
  "WRITE_TO_REG P port reg value w = outb P value (port + reg) w"

definition READ_FROM_REG :: "'w ports \<Rightarrow> u32 \<Rightarrow> u32 \<Rightarrow> 'w \<Rightarrow> (u8 \<times> 'w) option" where
  "READ_FROM_REG P port reg w = inb P (port + reg) w"

definition uart16550_hw_disable_interrupts :: "'w ports \<Rightarrow> u32 \<Rightarrow> 'w \<Rightarrow> 'w option" where
  "uart16550_hw_disable_interrupts P port w = WRITE_TO_REG P port IER 0x00 w"

definition uart16550_hw_enable_interrupts :: "'w ports \<Rightarrow> u32 \<Rightarrow> 'w \<Rightarrow> 'w option" where
  "uart16550_hw_enable_interrupts P port w = WRITE_TO_REG P port IER 0x03 w"

definition uart16550_hw_force_interrupt_reemit :: "'w ports \<Rightarrow> u32 \<Rightarrow> 'w \<Rightarrow> 'w option" where
  "uart16550_hw_force_interrupt_reemit P port w =
     do { w \<leftarrow> uart16550_hw_disable_interrupts P port w; uart16550_hw_enable_interrupts P port w }"

definition uart16550_hw_set_line_parameters :: "'w ports \<Rightarrow> u32 \<Rightarrow> uart16550_line_info \<Rightarrow> 'w \<Rightarrow> 'w option" where
  "uart16550_hw_set_line_parameters P port parameters w =
     do { w \<leftarrow> WRITE_TO_REG P port IER 0x00 w;
          (lcr, w) \<leftarrow> READ_FROM_REG P port LCR w;
          w \<leftarrow> WRITE_TO_REG P port LCR (lcr OR 0x80) w;
          w \<leftarrow> WRITE_TO_REG P port DLL (li_baud parameters) w;
          w \<leftarrow> WRITE_TO_REG P port DLM 0x00 w;
          w \<leftarrow> WRITE_TO_REG P port LCR (li_len parameters OR li_stop parameters OR li_par parameters) w;
          w \<leftarrow> WRITE_TO_REG P port FCR 0xc7 w;
          w \<leftarrow> WRITE_TO_REG P port MCR 0x08 w;
          WRITE_TO_REG P port IER 0x03 w }"

definition uart16550_hw_get_device_status :: "'w ports \<Rightarrow> u32 \<Rightarrow> 'w \<Rightarrow> (u32 \<times> 'w) option" where
  "uart16550_hw_get_device_status P port w =
     do { (isr_status, w) \<leftarrow> READ_FROM_REG P port ISR w;
          (line_status, w) \<leftarrow> READ_FROM_REG P port LSR w;
          Some (ucast line_status, w) }"

definition uart16550_hw_device_can_send :: "u32 \<Rightarrow> u32" where
  "uart16550_hw_device_can_send device_status = device_status AND 0x20"

definition uart16550_hw_device_has_data :: "u32 \<Rightarrow> u32" where
  "uart16550_hw_device_has_data device_status = device_status AND 0x01"

definition uart16550_hw_write_to_device :: "'w ports \<Rightarrow> u32 \<Rightarrow> u8 \<Rightarrow> 'w \<Rightarrow> 'w option" where
  "uart16550_hw_write_to_device P port byte w = WRITE_TO_REG P port THR byte w"

definition uart16550_hw_read_from_device :: "'w ports \<Rightarrow> u32 \<Rightarrow> 'w \<Rightarrow> (u8 \<times> 'w) option" where
  "uart16550_hw_read_from_device P port w = READ_FROM_REG P port RBR w"

text \<open>The initialiser gives the fields by position, so the stop bits come third, where the parity
  is declared.\<close>

definition default_param :: uart16550_line_info where
  "default_param = \<lparr>li_baud = UART16550_BAUD_115200, li_len = UART16550_LEN_8,
     li_par = UART16550_STOP_1, li_stop = UART16550_PAR_NONE\<rparr>"

definition uart16550_hw_setup_device :: "'h libc \<Rightarrow> 'w ports \<Rightarrow> addr \<Rightarrow> u32 \<Rightarrow> string option \<Rightarrow>
    (addr \<rightharpoonup> resource) \<times> ('h, 'o) dev_state \<Rightarrow> 'w \<Rightarrow>
    (int \<times> ((addr \<rightharpoonup> resource) \<times> ('h, 'o) dev_state) \<times> 'w) option" where
  "uart16550_hw_setup_device L P iop port module_name s w =
     do { (r, s) \<leftarrow> request_region L iop port NR_IO_PORTS module_name s;
          if r = 0 then Some (- ENODEV, s, w)
          else do {
            (lsr, w) \<leftarrow> READ_FROM_REG P port LSR w;
            w \<leftarrow> (if lsr AND 0x01 \<noteq> 0 then do { (_, w) \<leftarrow> READ_FROM_REG P port RBR w; Some w } else Some w);
            (_, w) \<leftarrow> READ_FROM_REG P port ISR w;
            (_, w) \<leftarrow> READ_FROM_REG P port MSR w;
            w \<leftarrow> uart16550_hw_disable_interrupts P port w;
            w \<leftarrow> uart16550_hw_set_line_parameters P port default_param w;
            Some (0, s, w) } }"

definition uart16550_hw_cleanup_device :: "'w ports \<Rightarrow> addr \<Rightarrow> u32 \<Rightarrow> ('h, 'o) dev_state \<Rightarrow> 'w \<Rightarrow>
    (('h, 'o) dev_state \<times> 'w) option" where
  "uart16550_hw_cleanup_device P iop port s w =
     do { let s = release_port_region iop port NR_IO_PORTS s;
          w \<leftarrow> WRITE_TO_REG P port FCR 0x00 w;
          w \<leftarrow> uart16550_hw_disable_interrupts P port w;
          Some (s, w) }"

section \<open>The controller\<close>

text \<open>
  The documented behaviour of the 16550 controller the driver relies on: the registers the
  driver writes, with the divisor latch behind offsets 0 and 1 while bit 7 of the line
  control register is set, and the histories of the bytes given to the transmitter and
  taken from the receiver. What the status and receiver registers hold is left open.
\<close>

record uart_regs =
  r_ier :: u8
  r_lcr :: u8
  r_dll :: u8
  r_dlm :: u8
  r_fcr :: u8
  r_mcr :: u8
  r_sent :: "u8 list"
  r_taken :: "u8 list"

definition dlab :: "uart_regs \<Rightarrow> bool" where "dlab r \<longleftrightarrow> r_lcr r AND 0x80 \<noteq> 0"

definition reg_write :: "u32 \<Rightarrow> u8 \<Rightarrow> uart_regs \<Rightarrow> uart_regs" where
  "reg_write reg v r =
     (if reg = 0 then if dlab r then r\<lparr>r_dll := v\<rparr> else r\<lparr>r_sent := r_sent r @ [v]\<rparr>
      else if reg = 1 then if dlab r then r\<lparr>r_dlm := v\<rparr> else r\<lparr>r_ier := v\<rparr>
      else if reg = 2 then r\<lparr>r_fcr := v\<rparr>
      else if reg = 3 then r\<lparr>r_lcr := v\<rparr>
      else if reg = 4 then r\<lparr>r_mcr := v\<rparr>
      else r)"

definition reg_read :: "u32 \<Rightarrow> u8 \<Rightarrow> uart_regs \<Rightarrow> uart_regs" where
  "reg_read reg v r = (if reg = 0 \<and> \<not> dlab r then r\<lparr>r_taken := r_taken r @ [v]\<rparr> else r)"

definition chip_ok :: "'w ports \<Rightarrow> u32 \<Rightarrow> ('w \<Rightarrow> uart_regs) \<Rightarrow> bool" where
  "chip_ok P port regs \<longleftrightarrow> ports_ok P \<and>
     (\<forall>reg v w. reg < 8 \<longrightarrow> regs (snd (x86_out8 P (port + reg) v w)) = reg_write reg v (regs w)) \<and>
     (\<forall>reg w. reg < 8 \<longrightarrow> regs (snd (x86_in8 P (port + reg) w)) = reg_read reg (snd (fst (x86_in8 P (port + reg) w))) (regs w)) \<and>
     (\<forall>w. snd (fst (x86_in8 P (port + LCR) w)) = r_lcr (regs w))"

lemma write_reg:
  assumes "chip_ok P port regs" "reg < 8"
  obtains w' where "WRITE_TO_REG P port reg v w = Some w'" "regs w' = reg_write reg v (regs w)"
  using assms by (auto simp: chip_ok_def WRITE_TO_REG_def outb_ok)

lemma read_reg:
  assumes "chip_ok P port regs" "reg < 8"
  obtains b w' where "READ_FROM_REG P port reg w = Some (b, w')" "regs w' = reg_read reg b (regs w)"
    "reg = LCR \<Longrightarrow> b = r_lcr (regs w)"
  using assms by (auto simp: chip_ok_def READ_FROM_REG_def inb_ok)

text \<open>The parameters \<open>uart16550_ioctl\<close> lets through.\<close>

definition valid_line :: "uart16550_line_info \<Rightarrow> bool" where
  "valid_line p \<longleftrightarrow> li_baud p \<in> set uart_bauds \<and> li_len p \<in> set uart_lens \<and> li_par p \<in> set uart_pars \<and> li_stop p \<in> set uart_stops"

lemma valid_line_default: "valid_line default_param"
  by (simp add: valid_line_def default_param_def uart_bauds_def uart_lens_def uart_pars_def uart_stops_def
      UART16550_BAUD_115200_def UART16550_LEN_8_def UART16550_STOP_1_def UART16550_PAR_NONE_def)

lemma or_0x80_set: "(lcr OR 0x80) AND 0x80 \<noteq> (0 :: u8)"
proof -
  have "(lcr OR 0x80) AND 0x80 = (0x80 :: u8)" by (simp add: word_ao_absorbs)
  then show ?thesis by simp
qed

lemma valid_line_no_dlab: "valid_line p \<Longrightarrow> (li_len p OR li_stop p OR li_par p) AND 0x80 = 0"
  by (auto simp: valid_line_def uart_lens_def uart_pars_def uart_stops_def)

lemma set_line_result:
  assumes chip: "chip_ok P port regs" and nodlab: "\<not> dlab (regs w)" and line: "valid_line p"
  obtains w' where "uart16550_hw_set_line_parameters P port p w = Some w'"
    "regs w' = (regs w)\<lparr>r_dll := li_baud p, r_dlm := 0, r_lcr := li_len p OR li_stop p OR li_par p,
       r_fcr := 0xc7, r_mcr := 0x08, r_ier := 0x03\<rparr>" "\<not> dlab (regs w')"
proof -
  have lt: "IER < 8" "LCR < 8" "DLL < 8" "DLM < 8" "FCR < 8" "MCR < 8" by (simp_all add: reg_defs)
  obtain w1 where w1: "WRITE_TO_REG P port IER 0x00 w = Some w1" "regs w1 = reg_write IER 0x00 (regs w)"
    by (rule write_reg [OF chip lt(1)])
  obtain lcr w2 where w2: "READ_FROM_REG P port LCR w1 = Some (lcr, w2)" "regs w2 = reg_read LCR lcr (regs w1)"
    by (rule read_reg [OF chip lt(2)])
  obtain w3 where w3: "WRITE_TO_REG P port LCR (lcr OR 0x80) w2 = Some w3" "regs w3 = reg_write LCR (lcr OR 0x80) (regs w2)"
    by (rule write_reg [OF chip lt(2)])
  obtain w4 where w4: "WRITE_TO_REG P port DLL (li_baud p) w3 = Some w4" "regs w4 = reg_write DLL (li_baud p) (regs w3)"
    by (rule write_reg [OF chip lt(3)])
  obtain w5 where w5: "WRITE_TO_REG P port DLM 0x00 w4 = Some w5" "regs w5 = reg_write DLM 0x00 (regs w4)"
    by (rule write_reg [OF chip lt(4)])
  let ?l = "li_len p OR li_stop p OR li_par p"
  obtain w6 where w6: "WRITE_TO_REG P port LCR ?l w5 = Some w6" "regs w6 = reg_write LCR ?l (regs w5)"
    by (rule write_reg [OF chip lt(2)])
  obtain w7 where w7: "WRITE_TO_REG P port FCR 0xc7 w6 = Some w7" "regs w7 = reg_write FCR 0xc7 (regs w6)"
    by (rule write_reg [OF chip lt(5)])
  obtain w8 where w8: "WRITE_TO_REG P port MCR 0x08 w7 = Some w8" "regs w8 = reg_write MCR 0x08 (regs w7)"
    by (rule write_reg [OF chip lt(6)])
  obtain w9 where w9: "WRITE_TO_REG P port IER 0x03 w8 = Some w9" "regs w9 = reg_write IER 0x03 (regs w8)"
    by (rule write_reg [OF chip lt(1)])
  have e: "uart16550_hw_set_line_parameters P port p w = Some w9"
    using w1(1) w2(1) w3(1) w4(1) w5(1) w6(1) w7(1) w8(1) w9(1) by (simp add: uart16550_hw_set_line_parameters_def)
  have r3: "regs w3 = (regs w)\<lparr>r_ier := 0, r_lcr := lcr OR 0x80\<rparr>"
    using nodlab by (simp add: w3(2) w2(2) w1(2) reg_write_def reg_read_def reg_defs)
  then have "dlab (regs w3)" using or_0x80_set [of lcr] by (simp add: dlab_def)
  then have r6: "regs w6 = (regs w)\<lparr>r_ier := 0, r_lcr := ?l, r_dll := li_baud p, r_dlm := 0\<rparr>"
    by (simp add: w6(2) w5(2) w4(2) reg_write_def reg_defs r3 dlab_def)
  have r9: "regs w9 = (regs w)\<lparr>r_dll := li_baud p, r_dlm := 0, r_lcr := ?l, r_fcr := 0xc7, r_mcr := 0x08, r_ier := 0x03\<rparr>"
    using valid_line_no_dlab [OF line] by (simp add: w9(2) w8(2) w7(2) reg_write_def reg_defs r6 dlab_def)
  then have "\<not> dlab (regs w9)" using valid_line_no_dlab [OF line] by (simp add: dlab_def)
  with e r9 show thesis by (rule that)
qed

text \<open>The setup of a controller, once its region is recorded.\<close>

lemma setup_device_result:
  assumes chip: "chip_ok P port regs" and nodlab: "\<not> dlab (regs w)"
    and region: "request_region L iop port NR_IO_PORTS name s = Some (r, s')" "r \<noteq> 0"
  obtains w' where "uart16550_hw_setup_device L P iop port name s w = Some (0, s', w')"
    "\<not> dlab (regs w')" "r_ier (regs w') = 0x03" "r_sent (regs w') = r_sent (regs w)"
    "r_dll (regs w') = UART16550_BAUD_115200" "r_dlm (regs w') = 0" "r_lcr (regs w') = UART16550_LEN_8"
proof -
  have lt: "IER < 8" "LSR < 8" "RBR < 8" "ISR < 8" "MSR < 8" by (simp_all add: reg_defs)
  obtain lsr w1 where w1: "READ_FROM_REG P port LSR w = Some (lsr, w1)" "regs w1 = reg_read LSR lsr (regs w)"
    by (rule read_reg [OF chip lt(2)])
  obtain b w2 where w2: "READ_FROM_REG P port RBR w1 = Some (b, w2)" "regs w2 = reg_read RBR b (regs w1)"
    by (rule read_reg [OF chip lt(3)])
  define w3 where "w3 = (if lsr AND 0x01 \<noteq> 0 then w2 else w1)"
  obtain c w4 where w4: "READ_FROM_REG P port ISR w3 = Some (c, w4)" "regs w4 = reg_read ISR c (regs w3)"
    by (rule read_reg [OF chip lt(4)])
  obtain d w5 where w5: "READ_FROM_REG P port MSR w4 = Some (d, w5)" "regs w5 = reg_read MSR d (regs w4)"
    by (rule read_reg [OF chip lt(5)])
  obtain w6 where w6: "WRITE_TO_REG P port IER 0x00 w5 = Some w6" "regs w6 = reg_write IER 0x00 (regs w5)"
    by (rule write_reg [OF chip lt(1)])
  have r: "\<not> dlab (regs w6)" "r_sent (regs w6) = r_sent (regs w)"
    using nodlab by (simp_all add: w6(2) w5(2) w4(2) w3_def w2(2) w1(2) reg_read_def reg_write_def reg_defs dlab_def)
  obtain w7 where w7: "uart16550_hw_set_line_parameters P port default_param w6 = Some w7"
    "regs w7 = (regs w6)\<lparr>r_dll := li_baud default_param, r_dlm := 0,
       r_lcr := li_len default_param OR li_stop default_param OR li_par default_param,
       r_fcr := 0xc7, r_mcr := 0x08, r_ier := 0x03\<rparr>" "\<not> dlab (regs w7)"
    by (rule set_line_result [OF chip r(1) valid_line_default])
  have "uart16550_hw_setup_device L P iop port name s w = Some (0, s', w7)"
    using region w1(1) w2(1) w4(1) w5(1) w6(1) w7(1)
    by (cases "lsr AND 1 = 0") (simp_all add: uart16550_hw_setup_device_def uart16550_hw_disable_interrupts_def w3_def)
  then show thesis
    by (rule that) (use w7(2,3) r(2) in \<open>simp_all add: default_param_def UART16550_STOP_1_def UART16550_PAR_NONE_def\<close>)
qed

text \<open>A simulated controller: its registers and the bytes waiting in the receiver; the transmitter
  is always ready.\<close>

record sim_chip =
  sim_regs :: uart_regs
  sim_rx :: "u8 list"

definition sim_ports :: "u32 \<Rightarrow> sim_chip ports" where
  "sim_ports port = \<lparr>
     x86_in8 = (\<lambda>p w.
       let reg = p - port; r = sim_regs w
       in if reg = 0 \<and> \<not> dlab r
          then let b = (case sim_rx w of [] \<Rightarrow> 0 | b # _ \<Rightarrow> b)
               in ((0, b), w\<lparr>sim_regs := reg_read 0 b r, sim_rx := tl (sim_rx w)\<rparr>)
          else if reg = 3 then ((0, r_lcr r), w)
          else if reg = 5 then ((0, if sim_rx w = [] then 0x60 else 0x61), w)
          else ((0, 0), w)),
     x86_out8 = (\<lambda>p v w.
       let reg = p - port
       in (0, if reg < 8 then w\<lparr>sim_regs := reg_write reg v (sim_regs w)\<rparr> else w))\<rparr>"

lemma sim_chip_ok: "chip_ok (sim_ports port) port sim_regs"
  by (auto simp: chip_ok_def ports_ok_def sim_ports_def Let_def reg_read_def reg_defs)

definition fresh_chip :: "u8 list \<Rightarrow> sim_chip" where
  "fresh_chip rx = \<lparr>sim_regs = \<lparr>r_ier = 0, r_lcr = 0, r_dll = 0, r_dlm = 0, r_fcr = 0, r_mcr = 0, r_sent = [], r_taken = []\<rparr>,
     sim_rx = rx\<rparr>"

lemma fresh_chip_no_dlab: "\<not> dlab (sim_regs (fresh_chip rx))"
  by (simp add: fresh_chip_def dlab_def)

section \<open>Properties\<close>

text \<open>
  C32. Programming the line: for every parameter set the driver accepts, the controller ends with
  the divisor of the chosen rate, the chosen frame format, both interrupts enabled and the
  divisor latch closed again, and no byte is sent or taken on the way.
\<close>

theorem set_line_programs:
  assumes "chip_ok P port regs" "\<not> dlab (regs w)" "valid_line p"
  shows "\<exists>w'. uart16550_hw_set_line_parameters P port p w = Some w' \<and>
    r_dll (regs w') = li_baud p \<and> r_dlm (regs w') = 0 \<and>
    r_lcr (regs w') = li_len p OR li_stop p OR li_par p \<and> \<not> dlab (regs w') \<and>
    r_ier (regs w') = 0x03 \<and> r_fcr (regs w') = 0xc7 \<and> r_mcr (regs w') = 0x08 \<and>
    r_sent (regs w') = r_sent (regs w) \<and> r_taken (regs w') = r_taken (regs w)"
proof -
  obtain w' where "uart16550_hw_set_line_parameters P port p w = Some w'"
    "regs w' = (regs w)\<lparr>r_dll := li_baud p, r_dlm := 0, r_lcr := li_len p OR li_stop p OR li_par p,
       r_fcr := 0xc7, r_mcr := 0x08, r_ier := 0x03\<rparr>" "\<not> dlab (regs w')"
    by (rule set_line_result [OF assms])
  then show ?thesis by (intro exI [of _ w']) simp
qed

theorem set_line_programs_witness:
  "\<exists>w'. uart16550_hw_set_line_parameters (sim_ports COM1_BASEPORT) COM1_BASEPORT default_param (fresh_chip []) = Some w' \<and>
    r_dll (sim_regs w') = 1 \<and> \<not> dlab (sim_regs w')"
  using set_line_programs [OF sim_chip_ok fresh_chip_no_dlab valid_line_default]
  by (fastforce simp: default_param_def UART16550_BAUD_115200_def)

end
