(* ===== verification/Interrupt.thy ===== *)
theory Interrupt
  imports Heap
begin

text \<open>
  Interrupt registration (\<open>interrupt.c\<close>). The interrupt server of the seL4 utility library is a
  parameter: registering an interrupt with a token either gives the server's handle or fails,
  and an interrupt is acknowledged through its handle. Once registered, an interrupt may be
  delivered at any time.
\<close>

section \<open>Definitions\<close>

record 'i irq_server =
  srv_register :: "u32 \<Rightarrow> addr \<Rightarrow> 'i \<Rightarrow> addr option \<times> 'i"
  srv_ack :: "addr \<Rightarrow> 'i \<Rightarrow> 'i"

text \<open>The fields of a token; \<open>None\<close> is a field that was never written.\<close>

record 'f lmseL4_IRQData =
  real_handler :: "'f option"
  tk_irq :: "addr option"
  tk_dev :: "addr option"

definition sz_IRQData :: u32 where "sz_IRQData = 12"

record ('h, 'i, 'f) irq_state =
  is_mem :: 'h
  is_srv :: 'i
  is_tokens :: "addr \<rightharpoonup> 'f lmseL4_IRQData"

text \<open>What the server hands to the common handler: its handle, the interrupt and the token.\<close>

record irq_data =
  id_handle :: addr
  id_irq :: u32
  id_token :: addr

definition lmseL4_InterruptHandler :: "'i irq_server \<Rightarrow> ('f \<Rightarrow> u32 \<Rightarrow> addr \<Rightarrow> 's \<Rightarrow> (int \<times> 's) option) \<Rightarrow>
    irq_data \<Rightarrow> ('h, 'i, 'f) irq_state \<Rightarrow> 's \<Rightarrow> (('h, 'i, 'f) irq_state \<times> 's) option" where
  "lmseL4_InterruptHandler S call data s x =
     do { d \<leftarrow> is_tokens s (id_token data);
          h \<leftarrow> real_handler d;
          dev \<leftarrow> tk_dev d;
          (_, x) \<leftarrow> call h (id_irq data) dev x;
          Some (s\<lparr>is_srv := srv_ack S (id_handle data) (is_srv s)\<rparr>, x) }"

text \<open>\<open>request_threaded_irq\<close>, in two parts: up to the registration, and the stores to the token.\<close>

definition request_irq_register :: "'h libc \<Rightarrow> 'i irq_server \<Rightarrow> u32 \<Rightarrow> ('h, 'i, 'f) irq_state \<Rightarrow>
    (addr \<times> addr \<times> ('h, 'i, 'f) irq_state) option" where
  "request_irq_register L S irq s =
     (case ext_malloc L sz_IRQData (is_mem s) of
        (None, m) \<Rightarrow> None
      | (Some (token, bs), m) \<Rightarrow>
          (case srv_register S irq token (is_srv s) of
             (None, i) \<Rightarrow> None
           | (Some data, i) \<Rightarrow>
               Some (token, data, s\<lparr>is_mem := m, is_srv := i,
                 is_tokens := (is_tokens s)(token \<mapsto> \<lparr>real_handler = None, tk_irq = None, tk_dev = None\<rparr>)\<rparr>)))"

definition request_irq_store :: "addr \<Rightarrow> addr \<Rightarrow> 'f \<Rightarrow> addr \<Rightarrow> ('h, 'i, 'f) irq_state \<Rightarrow> ('h, 'i, 'f) irq_state" where
  "request_irq_store token data handler dev s =
     s\<lparr>is_tokens := (is_tokens s)(token \<mapsto> \<lparr>real_handler = Some handler, tk_irq = Some data, tk_dev = Some dev\<rparr>)\<rparr>"

definition request_threaded_irq :: "'h libc \<Rightarrow> 'i irq_server \<Rightarrow> u32 \<Rightarrow> 'f \<Rightarrow> 'f option \<Rightarrow> u32 \<Rightarrow> addr \<Rightarrow>
    ('h, 'i, 'f) irq_state \<Rightarrow> (int \<times> ('h, 'i, 'f) irq_state) option" where
  "request_threaded_irq L S irq handler thread_fn flags dev s =
     do { (token, data, s) \<leftarrow> request_irq_register L S irq s;
          Some (0, request_irq_store token data handler dev s) }"

definition request_irq :: "'h libc \<Rightarrow> 'i irq_server \<Rightarrow> u32 \<Rightarrow> 'f \<Rightarrow> u32 \<Rightarrow> addr \<Rightarrow>
    ('h, 'i, 'f) irq_state \<Rightarrow> (int \<times> ('h, 'i, 'f) irq_state) option" where
  "request_irq L S irq handler flags dev s = request_threaded_irq L S irq handler None flags dev s"

definition free_irq :: "u32 \<Rightarrow> addr \<Rightarrow> ('h, 'i, 'f) irq_state \<Rightarrow> ('h, 'i, 'f) irq_state" where
  "free_irq irq data s = s"

section \<open>Registration\<close>

lemma request_irq_result:
  assumes "heap_ok L blocks" "ext_malloc L sz_IRQData (is_mem s) = (Some (token, bs), m)"
    and "srv_register S irq token (is_srv s) = (Some data, i)"
  shows "request_irq L S irq handler flags dev s = Some (0, s\<lparr>is_mem := m, is_srv := i,
      is_tokens := (is_tokens s)(token \<mapsto> \<lparr>real_handler = Some handler, tk_irq = Some data, tk_dev = Some dev\<rparr>)\<rparr>)"
    "new_block (blocks (is_mem s)) (blocks m) token 12"
  using assms heap_ok_malloc [OF assms(1), of sz_IRQData "is_mem s"]
  by (simp_all add: request_irq_def request_threaded_irq_def request_irq_register_def request_irq_store_def
      alloc_law_Some sz_IRQData_def)

text \<open>A server that accepts every interrupt and counts acknowledgements.\<close>

definition count_server :: "nat irq_server" where
  "count_server = \<lparr>srv_register = (\<lambda>irq token i. (Some (0x10000 + irq), i)), srv_ack = (\<lambda>d i. i + 1)\<rparr>"

section \<open>Properties\<close>

text \<open>
  C33. After \<open>request_irq\<close> an interrupt with the token runs the driver's handler with the interrupt
  number and the device, and is acknowledged. But the interrupt is registered before the
  token is filled in: delivered in between, it calls through a pointer that was never
  written. \<open>free_irq\<close> frees nothing, so the handler stays registered.
\<close>

theorem request_irq_delivers:
  assumes "heap_ok L blocks" "ext_malloc L sz_IRQData (is_mem s) = (Some (token, bs), m)"
    and "srv_register S irq token (is_srv s) = (Some data, i)" "call h irq dev x = Some (r, x')"
  shows "\<exists>s1 s2. request_irq_register L S irq s = Some (token, data, s1) \<and>
    lmseL4_InterruptHandler S call \<lparr>id_handle = data, id_irq = irq, id_token = token\<rparr> s1 x = None \<and>
    request_irq L S irq h flags dev s = Some (0, s2) \<and>
    lmseL4_InterruptHandler S call \<lparr>id_handle = data, id_irq = irq, id_token = token\<rparr> (free_irq irq dev s2) x =
      Some (s2\<lparr>is_srv := srv_ack S data (is_srv s2)\<rparr>, x')"
  using request_irq_result(1) [OF assms(1-3), of h flags dev] assms(2-4)
  by (auto simp: request_irq_register_def lmseL4_InterruptHandler_def free_irq_def)

theorem request_irq_delivers_witness:
  "\<exists>s1. request_irq_register log_libc count_server 4
        \<lparr>is_mem = [], is_srv = 0, is_tokens = Map.empty :: addr \<rightharpoonup> nat lmseL4_IRQData\<rparr> =
      Some (0x1000, 0x10004, s1) \<and>
    lmseL4_InterruptHandler count_server (\<lambda>h irq dev n. Some (1, n + 1))
      \<lparr>id_handle = 0x10004, id_irq = 4, id_token = 0x1000\<rparr> s1 (0 :: nat) = None"
proof -
  let ?s = "\<lparr>is_mem = [], is_srv = 0, is_tokens = Map.empty\<rparr> :: ((addr \<times> nat) list, nat, nat) irq_state"
  have "ext_malloc log_libc sz_IRQData (is_mem ?s) = (Some (0x1000, replicate 12 0xAA), [(0x1000, 12)])"
    "srv_register count_server 4 0x1000 (is_srv ?s) = (Some 0x10004, 0)"
    by (simp_all add: log_libc_def log_alloc_def sz_IRQData_def count_server_def)
  from request_irq_delivers [OF log_libc_ok this, of "\<lambda>h irq dev n. Some (1, n + 1)" 0 0 "0 :: nat" 1 1 0]
  show ?thesis by auto
qed

end
