(* ===== verification/Spinlock.thy ===== *)
theory Spinlock
  imports Prelude
begin

text \<open>
  Queued spinlocks as the library implements them: \<open>lock.c\<close>, \<open>asm-generic/qspinlock.h\<close>
  and the wrappers of \<open>linux/spinlock.h\<close>. First the operations on one lock word, run
  alone; then threads that interleave at the granularity of one atomic access.

  Threads that only use \<open>spin_trylock\<close> exclude each other. \<open>spin_lock\<close> does not keep
  them apart: the slow path compares the word with the value it saw while the lock was
  held, so it enters at once while the lock is held, and spins forever once it is free.
\<close>

section \<open>Definitions\<close>

definition Q_LOCKED_OFFSET :: nat where "Q_LOCKED_OFFSET = 0"
definition Q_LOCKED_BITS :: nat where "Q_LOCKED_BITS = 8"

definition Q_LOCKED_MASK :: u32 where
  "Q_LOCKED_MASK = push_bit Q_LOCKED_OFFSET (push_bit Q_LOCKED_BITS 1 - 1)"

definition Q_LOCKED_VAL :: u32 where "Q_LOCKED_VAL = push_bit Q_LOCKED_OFFSET 1"

text \<open>\<open>atomic_cmpxchg\<close>: the new content of the word and the value that was seen.\<close>

definition atomic_cmpxchg :: "u32 \<Rightarrow> u32 \<Rightarrow> u32 \<Rightarrow> u32 \<times> u32" where
  "atomic_cmpxchg v old new = (if v = old then new else v, v)"

definition queued_spin_is_locked :: "u32 \<Rightarrow> bool" where
  "queued_spin_is_locked v \<longleftrightarrow> v \<noteq> 0"

definition queued_spin_value_unlocked :: "u32 \<Rightarrow> bool" where
  "queued_spin_value_unlocked v \<longleftrightarrow> \<not> v \<noteq> 0"

definition queued_spin_is_contended :: "u32 \<Rightarrow> bool" where
  "queued_spin_is_contended v \<longleftrightarrow> v AND NOT Q_LOCKED_MASK \<noteq> 0"

definition queued_spin_trylock :: "u32 \<Rightarrow> u32 \<times> int" where
  "queued_spin_trylock v =
     (if v = 0
      then let (v, seen) = atomic_cmpxchg v 0 Q_LOCKED_VAL in (v, if seen = 0 then 1 else 0)
      else (v, 0))"

text \<open>\<open>_raw_spin_trylock\<close> of \<open>lock.c\<close>.\<close>

definition raw_spin_trylock :: "u32 \<Rightarrow> u32 \<times> int" where
  "raw_spin_trylock v =
     (if v = 0
      then let (v, seen) = atomic_cmpxchg v 0 Q_LOCKED_VAL
           in if seen = 0 then (v, 1) else (v, 0)
      else (v, 0))"

text \<open>The loop of the slow path; run alone it may not end.\<close>

partial_function (option) queued_spin_lock_slowpath :: "u32 \<Rightarrow> u32 \<Rightarrow> u32 option" where
  "queued_spin_lock_slowpath q val =
     (let (q', seen) = atomic_cmpxchg q val Q_LOCKED_VAL
      in if seen \<noteq> val then queued_spin_lock_slowpath q' val else Some q')"

definition queued_spin_lock :: "u32 \<Rightarrow> u32 option" where
  "queued_spin_lock v =
     (let (v, val) = atomic_cmpxchg v 0 Q_LOCKED_VAL
      in if val = 0 then Some v else queued_spin_lock_slowpath v val)"

text \<open>A store of zero to the least significant byte.\<close>

definition queued_spin_unlock :: "u32 \<Rightarrow> u32" where
  "queued_spin_unlock v = v AND NOT 0xFF"

text \<open>The wrappers of \<open>spinlock.h\<close>.\<close>

definition do_raw_spin_lock :: "u32 \<Rightarrow> u32 option" where
  "do_raw_spin_lock lock = queued_spin_lock lock"

definition do_raw_spin_trylock :: "u32 \<Rightarrow> u32 \<times> int" where
  "do_raw_spin_trylock lock = queued_spin_trylock lock"

definition do_raw_spin_unlock :: "u32 \<Rightarrow> u32" where
  "do_raw_spin_unlock lock = queued_spin_unlock lock"

definition spin_lock_init :: u32 where "spin_lock_init = 0"

definition spin_lock :: "u32 \<Rightarrow> u32 option" where "spin_lock lock = do_raw_spin_lock lock"

definition spin_trylock :: "u32 \<Rightarrow> u32 \<times> int" where "spin_trylock lock = raw_spin_trylock lock"

definition spin_unlock :: "u32 \<Rightarrow> u32" where "spin_unlock lock = do_raw_spin_unlock lock"

definition spin_is_locked :: "u32 \<Rightarrow> bool" where "spin_is_locked lock = queued_spin_is_locked lock"

definition spin_can_lock :: "u32 \<Rightarrow> bool" where "spin_can_lock lock = (\<not> spin_is_locked lock)"

subsection \<open>Interleaved threads\<close>

text \<open>Where a thread is: outside, in \<open>trylock\<close> after it read an unlocked word, in the slow path
  with the value it compares with, or holding the lock.\<close>

datatype lock_pc = Outside | Tried | Spinning u32 | Holding

record lock_state =
  ls_word :: u32
  ls_pc :: "nat \<Rightarrow> lock_pc"

inductive trylock_step :: "nat \<Rightarrow> lock_state \<Rightarrow> lock_state \<Rightarrow> bool" where
  try_read: "ls_pc s t = Outside \<Longrightarrow> ls_word s = 0 \<Longrightarrow>
     trylock_step t s (s\<lparr>ls_pc := (ls_pc s)(t := Tried)\<rparr>)"
| try_busy: "ls_pc s t = Outside \<Longrightarrow> ls_word s \<noteq> 0 \<Longrightarrow> trylock_step t s s"
| try_cmpxchg: "ls_pc s t = Tried \<Longrightarrow> (v, seen) = atomic_cmpxchg (ls_word s) 0 Q_LOCKED_VAL \<Longrightarrow>
     trylock_step t s (s\<lparr>ls_word := v,
       ls_pc := (ls_pc s)(t := if seen = 0 then Holding else Outside)\<rparr>)"
| unlock: "ls_pc s t = Holding \<Longrightarrow>
     trylock_step t s (s\<lparr>ls_word := queued_spin_unlock (ls_word s), ls_pc := (ls_pc s)(t := Outside)\<rparr>)"

inductive lock_step :: "nat \<Rightarrow> lock_state \<Rightarrow> lock_state \<Rightarrow> bool" where
  trylock: "trylock_step t s s' \<Longrightarrow> lock_step t s s'"
| lock_fast: "ls_pc s t = Outside \<Longrightarrow> (v, seen) = atomic_cmpxchg (ls_word s) 0 Q_LOCKED_VAL \<Longrightarrow>
     lock_step t s (s\<lparr>ls_word := v,
       ls_pc := (ls_pc s)(t := if seen = 0 then Holding else Spinning seen)\<rparr>)"
| lock_slow: "ls_pc s t = Spinning val \<Longrightarrow> (v, seen) = atomic_cmpxchg (ls_word s) val Q_LOCKED_VAL \<Longrightarrow>
     lock_step t s (s\<lparr>ls_word := v,
       ls_pc := (ls_pc s)(t := if seen = val then Holding else Spinning val)\<rparr>)"

inductive_cases trylock_stepE: "trylock_step t s s'"
inductive_cases lock_stepE: "lock_step t s s'"

definition lock_init :: lock_state where
  "lock_init = \<lparr>ls_word = spin_lock_init, ls_pc = (\<lambda>_. Outside)\<rparr>"

text \<open>What is reachable, given the steps a thread may take.\<close>

inductive lock_reach :: "(nat \<Rightarrow> lock_state \<Rightarrow> lock_state \<Rightarrow> bool) \<Rightarrow> lock_state \<Rightarrow> bool" for step where
  lock_reach_init: "lock_reach step lock_init"
| lock_reach_step: "lock_reach step s \<Longrightarrow> step t s s' \<Longrightarrow> lock_reach step s'"

section \<open>One lock word\<close>

lemmas lock_defs = Q_LOCKED_VAL_def Q_LOCKED_OFFSET_def atomic_cmpxchg_def

lemma Q_LOCKED_VAL_1: "Q_LOCKED_VAL = 1"
  by (simp add: lock_defs)

lemma trylock_same: "raw_spin_trylock v = queued_spin_trylock v"
  by (simp add: raw_spin_trylock_def queued_spin_trylock_def atomic_cmpxchg_def)

lemma spin_trylock_eq: "spin_trylock v = (if v = 0 then (1, 1) else (v, 0))"
  by (simp add: spin_trylock_def raw_spin_trylock_def lock_defs)

lemma spin_unlock_1: "spin_unlock 1 = 0"
  by (simp add: spin_unlock_def do_raw_spin_unlock_def queued_spin_unlock_def)

lemma slowpath_returns_only_if_equal:
  assumes "queued_spin_lock_slowpath q val = Some q'"
  shows "q = val \<and> q' = Q_LOCKED_VAL"
  by (rule queued_spin_lock_slowpath.raw_induct
        [where P = "\<lambda>q val q'. q = val \<and> q' = Q_LOCKED_VAL", OF _ assms])
    (auto simp: atomic_cmpxchg_def split: if_splits)

lemma slowpath_eq:
  "queued_spin_lock_slowpath q val = (if q = val then Some Q_LOCKED_VAL else None)"
proof (cases "q = val")
  case True
  then show ?thesis
    by (subst queued_spin_lock_slowpath.simps) (simp add: atomic_cmpxchg_def)
next
  case False
  with slowpath_returns_only_if_equal [of q val] show ?thesis
    by (cases "queued_spin_lock_slowpath q val") auto
qed

section \<open>The contract of a trylock\<close>

locale try_lock =
  fixes valid :: "'l \<Rightarrow> bool" and held :: "'l \<Rightarrow> bool" and fresh :: 'l
    and trylock :: "'l \<Rightarrow> 'l \<times> int" and release :: "'l \<Rightarrow> 'l"
  assumes fresh_free: "valid fresh \<and> \<not> held fresh"
    and try_free: "valid l \<Longrightarrow> \<not> held l \<Longrightarrow> \<exists>l'. trylock l = (l', 1) \<and> valid l' \<and> held l'"
    and try_held: "valid l \<Longrightarrow> held l \<Longrightarrow> trylock l = (l, 0)"
    and release_free: "valid l \<Longrightarrow> held l \<Longrightarrow> valid (release l) \<and> \<not> held (release l)"
begin

text \<open>A free lock that is taken and released is free again, and taking it succeeds.\<close>

lemma try_release:
  assumes "valid l" "\<not> held l" "trylock l = (l', r)"
  shows "r = 1 \<and> valid (release l') \<and> \<not> held (release l')"
  using assms try_free [OF assms(1,2)] release_free by auto

end

definition lock_word_ok :: "u32 \<Rightarrow> bool" where "lock_word_ok v \<longleftrightarrow> v = 0 \<or> v = Q_LOCKED_VAL"

interpretation qlock: try_lock lock_word_ok spin_is_locked spin_lock_init spin_trylock spin_unlock
  by unfold_locales
    (auto simp: lock_word_ok_def spin_is_locked_def queued_spin_is_locked_def spin_lock_init_def
      spin_trylock_eq Q_LOCKED_VAL_1 spin_unlock_1)

section \<open>Threads that only try\<close>

definition trylock_inv :: "lock_state \<Rightarrow> bool" where
  "trylock_inv s \<longleftrightarrow>
     (\<forall>t. ls_pc s t \<in> {Outside, Tried, Holding}) \<and>
     (ls_word s = 0 \<and> (\<forall>t. ls_pc s t \<noteq> Holding) \<or>
      ls_word s = Q_LOCKED_VAL \<and> (\<exists>!t. ls_pc s t = Holding))"

lemma trylock_step_inv:
  assumes "trylock_step t s s'" "trylock_inv s"
  shows "trylock_inv s'"
  using assms
proof (induction rule: trylock_step.induct)
  case (try_read s t)
  then show ?case by (auto simp: trylock_inv_def)
next
  case (try_busy s t)
  then show ?case by simp
next
  case (try_cmpxchg s t v seen)
  then show ?case
    by (cases "ls_word s = 0")
      (auto simp: trylock_inv_def atomic_cmpxchg_def Q_LOCKED_VAL_1, metis lock_pc.distinct)
next
  case (unlock s t)
  then have "ls_word s = 1" "\<And>u. u \<noteq> t \<Longrightarrow> ls_pc s u \<noteq> Holding"
    by (auto simp: trylock_inv_def Q_LOCKED_VAL_1)
  with unlock show ?case
    by (auto simp: trylock_inv_def queued_spin_unlock_def)
qed

lemma trylock_reach_inv: "lock_reach trylock_step s \<Longrightarrow> trylock_inv s"
  by (induction rule: lock_reach.induct)
    (auto simp: lock_init_def spin_lock_init_def trylock_inv_def [of "\<lparr>ls_word = _, ls_pc = _\<rparr>"]
      intro: trylock_step_inv)

section \<open>Properties\<close>

text \<open>
  C6. Mutual exclusion of \<open>spin_trylock\<close> and \<open>spin_unlock\<close>: in every interleaving of any
  number of threads, the lock word is taken exactly when a thread holds the lock, and no two
  threads hold it.
\<close>

theorem spin_trylock_exclusive:
  assumes "lock_reach trylock_step s"
  shows "(spin_is_locked (ls_word s) \<longleftrightarrow> (\<exists>t. ls_pc s t = Holding)) \<and>
    (ls_pc s t = Holding \<and> ls_pc s u = Holding \<longrightarrow> t = u)"
  using trylock_reach_inv [OF assms]
  by (auto simp: trylock_inv_def spin_is_locked_def queued_spin_is_locked_def Q_LOCKED_VAL_1)

theorem spin_trylock_exclusive_witness:
  "\<exists>s. lock_reach trylock_step s \<and> ls_pc s 3 = Holding \<and> spin_is_locked (ls_word s)"
proof -
  define s1 where "s1 = lock_init\<lparr>ls_pc := (ls_pc lock_init)(3 := Tried)\<rparr>"
  define s2 where "s2 = s1\<lparr>ls_word := 1, ls_pc := (ls_pc s1)(3 := Holding)\<rparr>"
  have "trylock_step 3 lock_init s1"
    unfolding s1_def by (rule try_read) (simp_all add: lock_init_def spin_lock_init_def)
  then have 1: "lock_reach trylock_step s1" by (rule lock_reach_step [OF lock_reach_init])
  have "trylock_step 3 s1 s2"
    using try_cmpxchg [of s1 3 1 0]
    by (simp add: s2_def) (simp add: s1_def lock_init_def spin_lock_init_def lock_defs)
  with 1 have r: "lock_reach trylock_step s2" by (rule lock_reach_step)
  have h: "ls_pc s2 3 = Holding" by (simp add: s2_def)
  then have "spin_is_locked (ls_word s2)" using spin_trylock_exclusive [OF r] by blast
  with r h show ?thesis by blast
qed

text \<open>
  C15. \<open>spin_lock\<close> does not exclude: with two threads, one that holds the lock and one that
  calls \<open>spin_lock\<close>, a state is reachable in which both hold it.
\<close>

theorem spin_lock_not_exclusive:
  "\<exists>s. lock_reach lock_step s \<and> ls_pc s 0 = Holding \<and> ls_pc s 1 = Holding"
proof -
  define s1 where "s1 = lock_init\<lparr>ls_word := 1, ls_pc := (ls_pc lock_init)(0 := Holding)\<rparr>"
  define s2 where "s2 = s1\<lparr>ls_word := 1, ls_pc := (ls_pc s1)(1 := Spinning 1)\<rparr>"
  define s3 where "s3 = s2\<lparr>ls_word := 1, ls_pc := (ls_pc s2)(1 := Holding)\<rparr>"
  have "lock_step 0 lock_init s1"
    using lock_fast [of lock_init 0 1 0]
    by (simp add: s1_def) (simp add: lock_init_def spin_lock_init_def lock_defs)
  then have 1: "lock_reach lock_step s1" by (rule lock_reach_step [OF lock_reach_init])
  have "lock_step 1 s1 s2"
    using lock_fast [of s1 1 1 1] by (simp add: s2_def) (simp add: s1_def lock_init_def lock_defs)
  with 1 have 2: "lock_reach lock_step s2" by (rule lock_reach_step)
  have "lock_step 1 s2 s3"
    using lock_slow [of s2 1 1 1 1] by (simp add: s3_def) (simp add: s2_def lock_defs)
  with 2 have "lock_reach lock_step s3" by (rule lock_reach_step)
  moreover have "ls_pc s3 0 = Holding" "ls_pc s3 1 = Holding" by (simp_all add: s3_def s2_def s1_def)
  ultimately show ?thesis by blast
qed

text \<open>
  Run alone, \<open>spin_lock\<close> returns at once whatever the lock word is, so it does not wait for
  a holder; and the slow path, entered while the lock was held and reached by the
  release before its first comparison, never returns.
\<close>

theorem spin_lock_never_waits:
  "spin_lock v = Some Q_LOCKED_VAL \<and>
   queued_spin_lock_slowpath (spin_unlock Q_LOCKED_VAL) Q_LOCKED_VAL = None"
  by (simp add: spin_lock_def do_raw_spin_lock_def queued_spin_lock_def slowpath_eq
      Q_LOCKED_VAL_1 spin_unlock_1 atomic_cmpxchg_def)

end
