(* ===== verification/Wait_Queue.thy ===== *)
theory Wait_Queue
  imports Spinlock
begin

text \<open>
  Wait queues: \<open>wait.c\<close> and the library's own version of \<open>wait_event_interruptible\<close> in
  \<open>linux/wait.h\<close>, which spins on the field \<open>locked\<close> that the library adds to the queue
  head. The operations run alone come first; then one waiter interleaves with the code that
  changes the condition and wakes the queue. A wake-up that comes between the waiter's test
  of the condition and its store to \<open>locked\<close> is lost.
\<close>

section \<open>Definitions\<close>

text \<open>The queue head. Nothing of the library puts a task on the list, so its links only ever
  point back to the head; \<open>wq_tasks\<close> is the list of entries.\<close>

record wait_queue_head =
  wq_lock :: u32
  wq_tasks :: "nat list"
  wq_locked :: bool

definition remove_wake_func :: "nat \<Rightarrow> u32 \<Rightarrow> int \<Rightarrow> int" where
  "remove_wake_func wait mode flags = 0"

definition wake_up :: "wait_queue_head \<Rightarrow> u32 \<Rightarrow> int \<Rightarrow> wait_queue_head" where
  "wake_up q mode nr = q\<lparr>wq_locked := False\<rparr>"

definition init_waitqueue_head :: "wait_queue_head \<Rightarrow> wait_queue_head option" where
  "init_waitqueue_head q =
     (let q = q\<lparr>wq_lock := spin_lock_init, wq_tasks := []\<rparr>
      in do { l \<leftarrow> spin_lock (wq_lock q); Some (q\<lparr>wq_lock := l\<rparr>) })"

definition prepare_to_wait_event :: "wait_queue_head \<Rightarrow> nat \<Rightarrow> int \<Rightarrow> (wait_queue_head \<times> int) option" where
  "prepare_to_wait_event q wait state =
     do { l \<leftarrow> spin_lock (wq_lock q); Some (q\<lparr>wq_lock := l\<rparr>, 0) }"

definition finish_wait :: "wait_queue_head \<Rightarrow> nat \<Rightarrow> wait_queue_head" where
  "finish_wait q wait = q\<lparr>wq_lock := spin_unlock (wq_lock q)\<rparr>"

definition TASK_INTERRUPTIBLE :: u32 where "TASK_INTERRUPTIBLE = 1"

definition wake_up_interruptible :: "wait_queue_head \<Rightarrow> wait_queue_head" where
  "wake_up_interruptible q = wake_up q TASK_INTERRUPTIBLE 1"

text \<open>The spinning of \<open>wait_event_interruptible\<close>, run alone.\<close>

partial_function (option) wait_spin :: "wait_queue_head \<Rightarrow> wait_queue_head option" where
  "wait_spin q = (if wq_locked q then wait_spin q else Some q)"

definition wait_event_interruptible :: "wait_queue_head \<Rightarrow> bool \<Rightarrow> (wait_queue_head \<times> int) option" where
  "wait_event_interruptible q condition =
     (if \<not> condition then do { q \<leftarrow> wait_spin (q\<lparr>wq_locked := True\<rparr>); Some (q, 0) }
      else Some (q, 0))"

subsection \<open>A waiter and its waker\<close>

datatype waiter_pc = Checking | Going_To_Sleep | Asleep | Returned

record wait_state =
  ws_condition :: bool
  ws_queue :: wait_queue_head
  ws_waiter :: waiter_pc

inductive waiter_step :: "wait_state \<Rightarrow> wait_state \<Rightarrow> bool" where
  check: "ws_waiter s = Checking \<Longrightarrow>
     waiter_step s (s\<lparr>ws_waiter := if ws_condition s then Returned else Going_To_Sleep\<rparr>)"
| sleep: "ws_waiter s = Going_To_Sleep \<Longrightarrow>
     waiter_step s (s\<lparr>ws_queue := (ws_queue s)\<lparr>wq_locked := True\<rparr>, ws_waiter := Asleep\<rparr>)"
| spin: "ws_waiter s = Asleep \<Longrightarrow>
     waiter_step s (s\<lparr>ws_waiter := if wq_locked (ws_queue s) then Asleep else Returned\<rparr>)"

inductive waker_step :: "wait_state \<Rightarrow> wait_state \<Rightarrow> bool" where
  change: "waker_step s (s\<lparr>ws_condition := b\<rparr>)"
| wake: "waker_step s (s\<lparr>ws_queue := wake_up_interruptible (ws_queue s)\<rparr>)"

inductive_cases waiter_stepE: "waiter_step s s'"
inductive_simps waiter_asleep: "waiter_step (s\<lparr>ws_waiter := Asleep\<rparr>) s'"

inductive wait_reach :: "wait_state \<Rightarrow> wait_state \<Rightarrow> bool" for s0 where
  wait_refl: "wait_reach s0 s0"
| wait_waiter: "wait_reach s0 s \<Longrightarrow> waiter_step s s' \<Longrightarrow> wait_reach s0 s'"
| wait_waker: "wait_reach s0 s \<Longrightarrow> waker_step s s' \<Longrightarrow> wait_reach s0 s'"

definition wait_init :: "wait_queue_head \<Rightarrow> wait_state" where
  "wait_init q = \<lparr>ws_condition = False, ws_queue = q, ws_waiter = Checking\<rparr>"

section \<open>The operations run alone\<close>

lemma wait_spin_locked:
  assumes "wait_spin q = Some q'"
  shows "\<not> wq_locked q \<and> q' = q"
  by (rule wait_spin.raw_induct [where P = "\<lambda>q q'. \<not> wq_locked q \<and> q' = q", OF _ assms])
    (auto split: if_splits)

lemma wait_spin_eq: "wait_spin q = (if wq_locked q then None else Some q)"
proof (cases "wq_locked q")
  case True
  with wait_spin_locked [of q] show ?thesis by (cases "wait_spin q") auto
next
  case False
  then show ?thesis by (subst wait_spin.simps) simp
qed

lemma wait_event_alone:
  "wait_event_interruptible q condition = (if condition then Some (q, 0) else None)"
  by (simp add: wait_event_interruptible_def wait_spin_eq)

lemma init_waitqueue_head_locked:
  "init_waitqueue_head q = Some (q\<lparr>wq_lock := Q_LOCKED_VAL, wq_tasks := []\<rparr>)"
  by (simp add: init_waitqueue_head_def spin_lock_def do_raw_spin_lock_def queued_spin_lock_def
      spin_lock_init_def atomic_cmpxchg_def)

section \<open>Properties\<close>

lemma asleep_stays:
  assumes "waiter_step\<^sup>*\<^sup>* s s'" "ws_waiter s = Asleep" "wq_locked (ws_queue s)"
  shows "s' = s"
  using assms
proof (induction rule: rtranclp_induct)
  case (step s' s'')
  then have "s' = s" by simp
  with step.hyps(2) step.prems show ?case by (auto elim!: waiter_stepE)
qed simp

text \<open>
  C16. A lost wake-up: there is a run in which the condition is made true and the queue is woken
  after the waiter called \<open>wait_event_interruptible\<close>, and yet the waiter is asleep and no
  number of its own steps makes it return.
\<close>

theorem wait_event_lost_wakeup:
  "\<exists>s1 s2 s3 s4. waiter_step (wait_init q) s1 \<and> waker_step s1 s2 \<and> ws_condition s2 \<and>
     s3 = s2\<lparr>ws_queue := wake_up_interruptible (ws_queue s2)\<rparr> \<and> waker_step s2 s3 \<and>
     waiter_step s3 s4 \<and> ws_condition s4 \<and>
     (\<forall>s'. waiter_step\<^sup>*\<^sup>* s4 s' \<longrightarrow> ws_waiter s' = Asleep)"
proof -
  define s1 where "s1 = (wait_init q)\<lparr>ws_waiter := Going_To_Sleep\<rparr>"
  define s2 where "s2 = s1\<lparr>ws_condition := True\<rparr>"
  define s3 where "s3 = s2\<lparr>ws_queue := wake_up_interruptible (ws_queue s2)\<rparr>"
  define s4 where "s4 = s3\<lparr>ws_queue := (ws_queue s3)\<lparr>wq_locked := True\<rparr>, ws_waiter := Asleep\<rparr>"
  have 1: "waiter_step (wait_init q) s1"
    using check [of "wait_init q"] by (simp add: s1_def) (simp add: wait_init_def)
  have 2: "waker_step s1 s2" "ws_condition s2" by (simp_all add: s2_def change)
  have 3: "waker_step s2 s3" by (simp add: s3_def wake)
  have 4: "waiter_step s3 s4"
    unfolding s4_def by (rule sleep) (simp add: s3_def s2_def s1_def)
  have "ws_waiter s4 = Asleep" "wq_locked (ws_queue s4)" by (simp_all add: s4_def)
  then have "\<forall>s'. waiter_step\<^sup>*\<^sup>* s4 s' \<longrightarrow> ws_waiter s' = Asleep"
    using asleep_stays by blast
  moreover have "ws_condition s4" by (simp add: s4_def s3_def s2_def)
  ultimately show ?thesis using 1 2 3 4 s3_def by blast
qed

theorem wait_event_lost_wakeup_witness:
  "\<exists>s4. wait_reach (wait_init \<lparr>wq_lock = 0, wq_tasks = [], wq_locked = False\<rparr>) s4 \<and>
     ws_condition s4 \<and> ws_waiter s4 = Asleep"
proof -
  let ?q = "\<lparr>wq_lock = 0, wq_tasks = [], wq_locked = False\<rparr>"
  obtain s1 s2 s3 s4 where s: "waiter_step (wait_init ?q) s1" "waker_step s1 s2" "waker_step s2 s3"
    "waiter_step s3 s4" "ws_condition s4" "\<forall>s'. waiter_step\<^sup>*\<^sup>* s4 s' \<longrightarrow> ws_waiter s' = Asleep"
    using wait_event_lost_wakeup [of ?q] by blast
  then have "wait_reach (wait_init ?q) s4"
    by (meson wait_refl wait_waiter wait_waker)
  with s show ?thesis by blast
qed

text \<open>
  A wake-up that finds the waiter asleep ends its wait: after \<open>wake_up_interruptible\<close> the
  waiter's next step returns. The condition is not tested again, so it returns whether or
  not the condition holds.
\<close>

theorem wake_up_ends_wait:
  assumes "ws_waiter s = Asleep"
    and "s' = s\<lparr>ws_queue := wake_up_interruptible (ws_queue s)\<rparr>" "waiter_step s' s''"
  shows "ws_waiter s'' = Returned \<and> ws_condition s'' = ws_condition s"
  using assms by (auto simp: wake_up_interruptible_def wake_up_def elim!: waiter_stepE)

definition sleeping_state :: wait_state where
  "sleeping_state = \<lparr>ws_condition = False,
     ws_queue = \<lparr>wq_lock = 0, wq_tasks = [], wq_locked = True\<rparr>, ws_waiter = Asleep\<rparr>"

theorem wake_up_ends_wait_witness:
  "\<exists>s''. waiter_step (sleeping_state\<lparr>ws_queue := wake_up_interruptible (ws_queue sleeping_state)\<rparr>) s'' \<and>
     ws_waiter s'' = Returned \<and> \<not> ws_condition s''"
proof -
  define s' where "s' = sleeping_state\<lparr>ws_queue := wake_up_interruptible (ws_queue sleeping_state)\<rparr>"
  have a: "ws_waiter sleeping_state = Asleep" by (simp add: sleeping_state_def)
  obtain s'' where st: "waiter_step s' s''"
    using spin [of s'] by (auto simp: s'_def sleeping_state_def)
  from wake_up_ends_wait [OF a s'_def st] st show ?thesis
    unfolding s'_def by (auto simp: sleeping_state_def)
qed

end
