(* ===== verification/Uart.thy ===== *)
theory Uart
  imports Fd Uart_Hw Interrupt Kfifo_Macros Wait_Queue "HOL-Library.Sublist"
begin

text \<open>
  The serial driver (\<open>uart16550.c\<close>), built on the fifos, spinlocks, wait queues, character
  devices, interrupts and ports of the library. The file operations run on the state a
  driver sees through \<open>fd.c\<close>, whose private part is the driver's variables and the hardware;
  the interrupt handler runs on these two; loading and unloading run on the state of the
  whole library. Messages are not modelled.
\<close>

section \<open>Definitions\<close>

subsection \<open>State\<close>

text \<open>\<open>struct com_dev\<close>, with the storage of the two fifos that is part of it.\<close>

record com_dev =
  cm_in :: kfifo
  cm_out :: kfifo
  cm_inbuf :: block
  cm_outbuf :: block
  cm_input_lock :: u32
  cm_output_lock :: u32
  cm_read_queue :: wait_queue_head
  cm_write_queue :: wait_queue_head
  cm_base_port :: u32
  cm_minor :: u32
  cm_irq :: u32

text \<open>The static variables of the driver, and the addresses the linker gave to them: the two
  devices, the \<open>cdev\<close> inside a device, the table of operations and \<open>ioport_resource\<close>.\<close>

record uart =
  ua_com1 :: com_dev
  ua_com2 :: com_dev
  ua_class :: addr
  ua_major :: int
  ua_behavior :: u32

record uart_layout =
  com1_dev :: addr
  com2_dev :: addr
  cdev_off :: addr
  fops_at :: addr
  ioport_at :: addr
  ul_dev :: dev_layout

definition com_at :: "uart_layout \<Rightarrow> addr \<Rightarrow> uart \<Rightarrow> com_dev option" where
  "com_at ul p u =
     (if p = com1_dev ul then Some (ua_com1 u) else if p = com2_dev ul then Some (ua_com2 u) else None)"

definition put_com :: "uart_layout \<Rightarrow> addr \<Rightarrow> com_dev \<Rightarrow> uart \<Rightarrow> uart" where
  "put_com ul p d u = (if p = com1_dev ul then u\<lparr>ua_com1 := d\<rparr> else u\<lparr>ua_com2 := d\<rparr>)"

type_synonym ('h, 'w) uart_drv = "('h, uart \<times> 'w) drv_state"

subsection \<open>File operations\<close>

definition iminor :: "dev_t \<Rightarrow> u32" where "iminor i_rdev = MINOR i_rdev"

definition uart16550_open :: "uart_layout \<Rightarrow> dev_t \<Rightarrow> addr \<Rightarrow> ('h, 'w) uart_drv \<Rightarrow> (int \<times> ('h, 'w) uart_drv) option" where
  "uart16550_open ul i_rdev filep s =
     do { f \<leftarrow> dv_filps s filep;
          let minor = iminor i_rdev;
          let f = (if minor = 0 then f\<lparr>private_data := Some (com1_dev ul)\<rparr> else f\<lparr>private_data := Some (com2_dev ul)\<rparr>);
          Some (0, s\<lparr>dv_filps := (dv_filps s)(filep \<mapsto> f)\<rparr>) }"

text \<open>The loop that waits for the condition and then tries to take the lock, run alone.\<close>

partial_function (option) uart_acquire :: "wait_queue_head \<Rightarrow> bool \<Rightarrow> u32 \<Rightarrow> (wait_queue_head \<times> u32) option" where
  "uart_acquire q condition lock =
     do { (q, _) \<leftarrow> wait_event_interruptible q condition;
          let (lock, ok) = spin_trylock lock
          in if ok = 0 then uart_acquire q condition lock else Some (q, lock) }"

definition uart16550_read :: "'h libc \<Rightarrow> uart_layout \<Rightarrow> addr \<Rightarrow> u8 list \<Rightarrow> u32 \<Rightarrow> ('h, 'w) uart_drv \<Rightarrow>
    ((int \<times> u8 list) \<times> ('h, 'w) uart_drv) option" where
  "uart16550_read L ul filep user_buffer sz s =
     do { f \<leftarrow> dv_filps s filep;
          p \<leftarrow> private_data f;
          device \<leftarrow> com_at ul p (fst (dv_priv s));
          case kmalloc L False (1 * sz) GFP_KERNEL (dv_mem s) of
            (None, m) \<Rightarrow> Some ((- ENOMEM, user_buffer), s\<lparr>dv_mem := m\<rparr>)
          | (Some (b, buffer), m) \<Rightarrow>
              do { (q, l) \<leftarrow> uart_acquire (cm_read_queue device) (\<not> kfifo_is_empty (cm_in device)) (cm_input_lock device);
                   (f, buffer, sz) \<leftarrow> kfifo_out byte_kfifo (cm_in device) buffer sz;
                   let device = device\<lparr>cm_in := f, cm_read_queue := q, cm_input_lock := spin_unlock l\<rparr>;
                   (user_buffer, unwritten_bytes) \<leftarrow> copy_to_user user_buffer 0 buffer 0 sz;
                   let sz = (if unwritten_bytes \<noteq> 0 then sz - unwritten_bytes else sz);
                   Some ((sint sz, user_buffer),
                     s\<lparr>dv_mem := kfree L (Some (b, buffer)) m,
                       dv_priv := (put_com ul p device (fst (dv_priv s)), snd (dv_priv s))\<rparr>) } }"

definition uart16550_write :: "'h libc \<Rightarrow> 'w ports \<Rightarrow> uart_layout \<Rightarrow> addr \<Rightarrow> u8 list \<Rightarrow> u32 \<Rightarrow> ('h, 'w) uart_drv \<Rightarrow>
    (int \<times> ('h, 'w) uart_drv) option" where
  "uart16550_write L P ul filep user_buffer sz s =
     do { f \<leftarrow> dv_filps s filep;
          p \<leftarrow> private_data f;
          let device_port = (if com1_dev ul = p then COM1_BASEPORT else COM2_BASEPORT);
          device \<leftarrow> com_at ul p (fst (dv_priv s));
          case kmalloc L False (1 * sz) GFP_KERNEL (dv_mem s) of
            (None, m) \<Rightarrow> Some (- ENOMEM, s\<lparr>dv_mem := m\<rparr>)
          | (Some (b, buffer), m) \<Rightarrow>
              do { (buffer, left) \<leftarrow> copy_from_user (- 1) buffer 0 user_buffer 0 sz;
                   if left \<noteq> 0 then Some (- EFAULT, s\<lparr>dv_mem := kfree L (Some (b, buffer)) m\<rparr>)
                   else do {
                     (q, l) \<leftarrow> uart_acquire (cm_write_queue device) (\<not> kfifo_is_full (cm_out device)) (cm_output_lock device);
                     (f, bytes_copied) \<leftarrow> kfifo_in byte_kfifo (cm_out device) buffer sz;
                     let device = device\<lparr>cm_out := f, cm_write_queue := q, cm_output_lock := spin_unlock l\<rparr>;
                     w \<leftarrow> uart16550_hw_force_interrupt_reemit P device_port (snd (dv_priv s));
                     Some (sint bytes_copied,
                       s\<lparr>dv_mem := kfree L (Some (b, buffer)) m,
                         dv_priv := (put_com ul p device (fst (dv_priv s)), w)\<rparr>) } } }"

text \<open>\<open>uart16550_ioctl\<close>; \<open>arg\<close> is the object it points to, \<open>None\<close> for a null pointer. The compiler
  knows the size of the local structure the user's bytes are copied to.\<close>

definition uart16550_ioctl :: "'w ports \<Rightarrow> uart_layout \<Rightarrow> addr \<Rightarrow> u32 \<Rightarrow> u8 list option \<Rightarrow> ('h, 'w) uart_drv \<Rightarrow>
    (int \<times> ('h, 'w) uart_drv) option" where
  "uart16550_ioctl P ul filep cmd arg s =
     do { f \<leftarrow> dv_filps s filep;
          p \<leftarrow> private_data f;
          device \<leftarrow> com_at ul p (fst (dv_priv s));
          let port = cm_base_port device;
          if cmd \<noteq> UART16550_IOCTL_SET_LINE then Some (- EINVAL, s)
          else do {
            ptr \<leftarrow> arg;
            (bs, left) \<leftarrow> copy_from_user 4 [0, 0, 0, 0] 0 ptr 0 4;
            if left \<noteq> 0 then Some (- EFAULT, s)
            else let line = \<lparr>li_baud = bs ! 0, li_len = bs ! 1, li_par = bs ! 2, li_stop = bs ! 3\<rparr>
                 in if li_baud line \<notin> set uart_bauds then Some (- EINVAL, s)
                    else if li_len line \<notin> set uart_lens then Some (- EINVAL, s)
                    else if li_par line \<notin> set uart_pars then Some (- EINVAL, s)
                    else if li_stop line \<notin> set uart_stops then Some (- EINVAL, s)
                    else do { w \<leftarrow> uart16550_hw_set_line_parameters P port line (snd (dv_priv s));
                              Some (0, s\<lparr>dv_priv := (fst (dv_priv s), w)\<rparr>) } } }"

definition uart16550_release :: "dev_t \<Rightarrow> addr \<Rightarrow> ('h, 'w) uart_drv \<Rightarrow> int \<times> ('h, 'w) uart_drv" where
  "uart16550_release i_rdev filep s = (0, s)"

definition fops :: "'h libc \<Rightarrow> 'w ports \<Rightarrow> uart_layout \<Rightarrow> ('h, uart \<times> 'w) file_operations" where
  "fops L P ul = \<lparr>fop_open = Some (uart16550_open ul), fop_read = Some (uart16550_read L ul),
     fop_write = Some (uart16550_write L P ul)\<rparr>"

subsection \<open>Interrupts\<close>

partial_function (option) send_loop :: "'w ports \<Rightarrow> u32 \<Rightarrow> kfifo \<Rightarrow> u32 \<Rightarrow> 'w \<Rightarrow> (kfifo \<times> u32 \<times> 'w) option" where
  "send_loop P port f device_status w =
     (if uart16550_hw_device_can_send device_status \<noteq> 0
      then do { (f', byte_value, n) \<leftarrow> kfifo_get byte_kfifo f [0];
                if n = 0 then Some (f', device_status, w)
                else do { w \<leftarrow> uart16550_hw_write_to_device P port (hd byte_value) w;
                          (device_status, w) \<leftarrow> uart16550_hw_get_device_status P port w;
                          send_loop P port f' device_status w } }
      else Some (f, device_status, w))"

partial_function (option) recv_loop :: "'w ports \<Rightarrow> u32 \<Rightarrow> kfifo \<Rightarrow> u32 \<Rightarrow> 'w \<Rightarrow> (kfifo \<times> 'w) option" where
  "recv_loop P port f device_status w =
     (if uart16550_hw_device_has_data device_status \<noteq> 0
      then do { (byte_value, w) \<leftarrow> uart16550_hw_read_from_device P port w;
                (f', n) \<leftarrow> kfifo_put byte_kfifo f [byte_value];
                if n = 0 then Some (f', w)
                else do { (device_status, w) \<leftarrow> uart16550_hw_get_device_status P port w;
                          recv_loop P port f' device_status w } }
      else Some (f, w))"

definition IRQ_HANDLED :: int where "IRQ_HANDLED = 1"

definition interrupt_handler :: "'w ports \<Rightarrow> uart_layout \<Rightarrow> u32 \<Rightarrow> addr \<Rightarrow> uart \<times> 'w \<Rightarrow> (int \<times> uart \<times> 'w) option" where
  "interrupt_handler P ul irq_no data = (\<lambda>(u, w).
     let p = (if irq_no = COM1_IRQ then com1_dev ul else com2_dev ul)
     in do { device \<leftarrow> com_at ul p u;
             (device_status, w) \<leftarrow> uart16550_hw_get_device_status P (cm_base_port device) w;
             (out, device_status, w) \<leftarrow> send_loop P (cm_base_port device) (cm_out device) device_status w;
             (inq, w) \<leftarrow> recv_loop P (cm_base_port device) (cm_in device) device_status w;
             let device = device\<lparr>cm_out := out, cm_in := inq,
                                 cm_read_queue := wake_up_interruptible (cm_read_queue device),
                                 cm_write_queue := wake_up_interruptible (cm_write_queue device)\<rparr>;
             Some (IRQ_HANDLED, put_com ul p device u, w) })"

subsection \<open>Loading and unloading\<close>

datatype irq_fn = Uart_Interrupt_Handler

text \<open>The state of the library with the driver: devices, port regions, the interrupt server with
  its tokens, the driver, the hardware, and the name in \<open>priv_module\<close>, \<open>None\<close> while it is null.\<close>

record ('h, 'w, 'i) kern =
  kn_dev :: "('h, ('h, uart \<times> 'w) file_operations) dev_state"
  kn_res :: "addr \<rightharpoonup> resource"
  kn_srv :: 'i
  kn_tokens :: "addr \<rightharpoonup> irq_fn lmseL4_IRQData"
  kn_uart :: uart
  kn_hw :: 'w
  kn_module :: "string option"

definition irq_view :: "('h, 'w, 'i) kern \<Rightarrow> ('h, 'i, irq_fn) irq_state" where
  "irq_view s = \<lparr>is_mem = ds_mem (kn_dev s), is_srv = kn_srv s, is_tokens = kn_tokens s\<rparr>"

definition put_irq :: "('h, 'i, irq_fn) irq_state \<Rightarrow> ('h, 'w, 'i) kern \<Rightarrow> ('h, 'w, 'i) kern" where
  "put_irq i s = s\<lparr>kn_dev := (kn_dev s)\<lparr>ds_mem := is_mem i\<rparr>, kn_srv := is_srv i, kn_tokens := is_tokens i\<rparr>"

definition init_struct :: "com_dev \<Rightarrow> com_dev option" where
  "init_struct dev =
     do { let dev = dev\<lparr>cm_input_lock := spin_lock_init, cm_output_lock := spin_lock_init,
            cm_in := INIT_KFIFO byte_kfifo FIFO_SIZE (cm_inbuf dev) (cm_in dev),
            cm_out := INIT_KFIFO byte_kfifo FIFO_SIZE (cm_outbuf dev) (cm_out dev)\<rparr>;
          rq \<leftarrow> init_waitqueue_head (cm_read_queue dev);
          wq \<leftarrow> init_waitqueue_head (cm_write_queue dev);
          Some (dev\<lparr>cm_read_queue := rq, cm_write_queue := wq\<rparr>) }"

definition init_com_dev :: "uart_layout \<Rightarrow> addr \<Rightarrow> u32 \<Rightarrow> ('h, 'w, 'i) kern \<Rightarrow> (int \<times> ('h, 'w, 'i) kern) option" where
  "init_com_dev ul dev minor s =
     do { d \<leftarrow> cdev_init (dev + cdev_off ul) (fops_at ul) (kn_dev s);
          d \<leftarrow> cdev_init (dev + cdev_off ul) (fops_at ul) d;
          (rc, d) \<leftarrow> cdev_add (ul_dev ul) (dev + cdev_off ul) (MKDEV (word_of_int (ua_major (kn_uart s))) minor) 1 d;
          Some (rc, s\<lparr>kn_dev := d\<rparr>) }"

text \<open>The labels of \<open>uart16550_init_device\<close> in the order the failing paths run them.\<close>

definition fail_request_irq :: "dev_t \<Rightarrow> int \<Rightarrow> ('h, 'w, 'i) kern \<Rightarrow> (int \<times> ('h, 'w, 'i) kern) option" where
  "fail_request_irq dev rc s = Some (rc, s\<lparr>kn_dev := unregister_chrdev_region dev 1 (kn_dev s)\<rparr>)"

definition fail_device_create :: "u32 \<Rightarrow> addr \<Rightarrow> dev_t \<Rightarrow> int \<Rightarrow> ('h, 'w, 'i) kern \<Rightarrow> (int \<times> ('h, 'w, 'i) kern) option" where
  "fail_device_create irq_no device dev rc s =
     fail_request_irq dev rc (put_irq (free_irq irq_no device (irq_view s)) s)"

definition fail_hw_setup :: "u32 \<Rightarrow> addr \<Rightarrow> dev_t \<Rightarrow> int \<Rightarrow> ('h, 'w, 'i) kern \<Rightarrow> (int \<times> ('h, 'w, 'i) kern) option" where
  "fail_hw_setup irq_no device dev rc s =
     do { d \<leftarrow> device_destroy (ua_class (kn_uart s)) dev (kn_dev s);
          fail_device_create irq_no device dev rc (s\<lparr>kn_dev := d\<rparr>) }"

definition fail_init_com_dev :: "'w ports \<Rightarrow> uart_layout \<Rightarrow> u32 \<Rightarrow> u32 \<Rightarrow> addr \<Rightarrow> dev_t \<Rightarrow> int \<Rightarrow>
    ('h, 'w, 'i) kern \<Rightarrow> (int \<times> ('h, 'w, 'i) kern) option" where
  "fail_init_com_dev P ul baseport irq_no device dev rc s =
     do { (d, w) \<leftarrow> uart16550_hw_cleanup_device P (ioport_at ul) baseport (kn_dev s) (kn_hw s);
          fail_hw_setup irq_no device dev rc (s\<lparr>kn_dev := d, kn_hw := w\<rparr>) }"

definition IRQF_SHARED :: u32 where "IRQF_SHARED = 0x80"

definition uart16550_init_device :: "'h libc \<Rightarrow> 'w ports \<Rightarrow> 'i irq_server \<Rightarrow> uart_layout \<Rightarrow> addr \<Rightarrow> int \<Rightarrow> u32 \<Rightarrow> string \<Rightarrow>
    u32 \<Rightarrow> u32 \<Rightarrow> ('h, 'w, 'i) kern \<Rightarrow> (int \<times> ('h, 'w, 'i) kern) option" where
  "uart16550_init_device L P S ul device major minor name baseport irq_no s =
     do { let dev = MKDEV (word_of_int major) minor;
          c \<leftarrow> com_at ul device (kn_uart s);
          let c = c\<lparr>cm_minor := minor, cm_irq := irq_no, cm_base_port := baseport\<rparr>;
          let (rc, d) = register_chrdev_region dev 1 (kn_module s) (kn_dev s);
          if rc \<noteq> 0 then Some (rc, s\<lparr>kn_uart := put_com ul device c (kn_uart s), kn_dev := d\<rparr>)
          else do {
            c \<leftarrow> init_struct c;
            let s = s\<lparr>kn_uart := put_com ul device c (kn_uart s), kn_dev := d\<rparr>;
            (rc, i) \<leftarrow> request_irq L S irq_no Uart_Interrupt_Handler IRQF_SHARED device (irq_view s);
            let s = put_irq i s;
            if rc \<noteq> 0 then fail_request_irq dev rc s
            else do {
              (com, d) \<leftarrow> device_create L (ul_dev ul) (ua_class (kn_uart s)) 0 dev 0 name (kn_dev s);
              let s = s\<lparr>kn_dev := d\<rparr>;
              if IS_ERR com then fail_device_create irq_no device dev rc s
              else do {
                (rc, (rs, d), w) \<leftarrow> uart16550_hw_setup_device L P (ioport_at ul) baseport (kn_module s)
                                    (kn_res s, kn_dev s) (kn_hw s);
                let s = s\<lparr>kn_res := rs, kn_dev := d, kn_hw := w\<rparr>;
                if rc \<noteq> 0 then fail_hw_setup irq_no device dev rc s
                else do {
                  (rc, s) \<leftarrow> init_com_dev ul device minor s;
                  if rc \<noteq> 0 then fail_init_com_dev P ul baseport irq_no device dev rc s
                  else Some (0, s) } } } } }"

definition uart16550_init :: "'h libc \<Rightarrow> 'w ports \<Rightarrow> 'i irq_server \<Rightarrow> uart_layout \<Rightarrow> ('h, 'w, 'i) kern \<Rightarrow>
    (int \<times> ('h, 'w, 'i) kern) option" where
  "uart16550_init L P S ul s =
     (let u = kn_uart s;
          have_com1 = ua_behavior u AND OPTION_COM1;
          have_com2 = ua_behavior u AND OPTION_COM2
      in if ua_behavior u \<notin> {OPTION_BOTH, OPTION_COM1, OPTION_COM2} then Some (- EINVAL, s)
         else if 0 > ua_major u \<or> ua_major u > 2 ^ 13 - 1 then Some (- EINVAL, s)
         else do {
           (cls, d) \<leftarrow> class_create L (ul_dev ul) 0 ''uart16550'' 0 (kn_dev s);
           let s = s\<lparr>kn_dev := d, kn_uart := u\<lparr>ua_class := cls\<rparr>\<rparr>;
           (rc, s) \<leftarrow> (if have_com1 \<noteq> 0
                      then uart16550_init_device L P S ul (com1_dev ul) (ua_major u) 0 ''com1'' COM1_BASEPORT COM1_IRQ s
                      else Some (0, s));
           if rc \<noteq> 0 then Some (rc, s)
           else do {
             (rc, s) \<leftarrow> (if have_com2 \<noteq> 0
                        then uart16550_init_device L P S ul (com2_dev ul) (ua_major u) 1 ''com2'' COM2_BASEPORT COM2_IRQ s
                        else Some (0, s));
             if rc \<noteq> 0 then Some (rc, s) else Some (0, s) } })"

definition uart16550_cleanup_device :: "'h libc \<Rightarrow> 'w ports \<Rightarrow> uart_layout \<Rightarrow> addr \<Rightarrow> ('h, 'w, 'i) kern \<Rightarrow>
    ('h, 'w, 'i) kern option" where
  "uart16550_cleanup_device L P ul device s =
     do { c \<leftarrow> com_at ul device (kn_uart s);
          let dev = MKDEV (word_of_int (ua_major (kn_uart s))) (cm_minor c);
          (d, w) \<leftarrow> uart16550_hw_cleanup_device P (ioport_at ul) (cm_base_port c) (kn_dev s) (kn_hw s);
          let s = s\<lparr>kn_dev := d, kn_hw := w\<rparr>;
          let s = put_irq (free_irq (cm_irq c) device (irq_view s)) s;
          d \<leftarrow> device_destroy (ua_class (kn_uart s)) dev (kn_dev s);
          let d = unregister_chrdev_region dev 1 d;
          d \<leftarrow> cdev_del L (ul_dev ul) (device + cdev_off ul) d;
          Some (s\<lparr>kn_dev := d\<rparr>) }"

definition uart16550_cleanup :: "'h libc \<Rightarrow> 'w ports \<Rightarrow> uart_layout \<Rightarrow> ('h, 'w, 'i) kern \<Rightarrow> ('h, 'w, 'i) kern option" where
  "uart16550_cleanup L P ul s =
     (let have_com1 = ua_behavior (kn_uart s) AND OPTION_COM1;
          have_com2 = ua_behavior (kn_uart s) AND OPTION_COM2
      in do {
        s \<leftarrow> (if have_com1 \<noteq> 0 then uart16550_cleanup_device L P ul (com1_dev ul) s else Some s);
        s \<leftarrow> (if have_com2 \<noteq> 0 then uart16550_cleanup_device L P ul (com2_dev ul) s else Some s);
        d \<leftarrow> class_unregister (ua_class (kn_uart s)) (kn_dev s);
        d \<leftarrow> class_destroy L (ua_class (kn_uart s)) d;
        Some (s\<lparr>kn_dev := d\<rparr>) })"

text \<open>The setters that \<open>module_param\<close> makes.\<close>

definition set_behavior :: "u32 \<Rightarrow> uart \<Rightarrow> uart" where "set_behavior v u = u\<lparr>ua_behavior := v\<rparr>"
definition set_major :: "int \<Rightarrow> uart \<Rightarrow> uart" where "set_major v u = u\<lparr>ua_major := v\<rparr>"

section \<open>The interrupt handler\<close>

lemma status_result:
  assumes "chip_ok P port regs"
  obtains st w' where "uart16550_hw_get_device_status P port w = Some (st, w')" "regs w' = regs w"
proof -
  have lt: "ISR < 8" "LSR < 8" by (simp_all add: reg_defs)
  obtain a w1 where w1: "READ_FROM_REG P port ISR w = Some (a, w1)" "regs w1 = reg_read ISR a (regs w)"
    by (rule read_reg [OF assms lt(1)])
  obtain b w2 where w2: "READ_FROM_REG P port LSR w1 = Some (b, w2)" "regs w2 = reg_read LSR b (regs w1)"
    by (rule read_reg [OF assms lt(2)])
  show thesis
    by (rule that [of "ucast b" w2])
      (use w1 w2 in \<open>simp_all add: uart16550_hw_get_device_status_def reg_read_def reg_defs\<close>)
qed

text \<open>The sending loop ends, whatever the controller reports: it sends a part of the fifo in order,
  and stops early only when the transmitter is not ready.\<close>

lemma send_loop_result:
  assumes "chip_ok P port regs" "byte_fifo f" "\<not> dlab (regs w)"
  shows "\<exists>f' st' w' sent. send_loop P port f st w = Some (f', st', w') \<and> byte_fifo f' \<and> kfifo_cap f' = kfifo_cap f \<and>
    kfifo_bytes f = sent @ kfifo_bytes f' \<and> regs w' = (regs w)\<lparr>r_sent := r_sent (regs w) @ sent\<rparr> \<and>
    (kfifo_bytes f' = [] \<or> uart16550_hw_device_can_send st' = 0)"
  using assms(2,3)
proof (induction "kfifo_bytes f" arbitrary: f st w)
  case Nil
  then show ?case
    using kq.get_empty [of f 0] by (subst send_loop.simps) (auto intro!: exI [of _ f] exI [of _ st])
next
  case (Cons b bs)
  obtain f1 where f1: "kfifo_get byte_kfifo f [0] = Some (f1, [b], 1)" "byte_fifo f1" "kfifo_bytes f1 = bs" "kfifo_cap f1 = kfifo_cap f"
    using kq.get_item [of f b bs 0] Cons.prems(1) Cons.hyps(2) by auto
  have "THR < 8" by (simp add: reg_defs)
  then obtain w1 where w1: "WRITE_TO_REG P port THR b w = Some w1" "regs w1 = reg_write THR b (regs w)"
    by (rule write_reg [OF assms(1)])
  obtain st2 w2 where w2: "uart16550_hw_get_device_status P port w1 = Some (st2, w2)" "regs w2 = regs w1"
    by (rule status_result [OF assms(1)])
  have r: "regs w2 = (regs w)\<lparr>r_sent := r_sent (regs w) @ [b]\<rparr>"
    using Cons.prems(2) by (simp add: w2(2) w1(2) reg_write_def reg_defs)
  have nd: "\<not> dlab (regs w2)" using Cons.prems(2) by (simp add: r dlab_def)
  show ?case
  proof (cases "uart16550_hw_device_can_send st = 0")
    case True
    then show ?thesis using Cons.prems(1)
      by (subst send_loop.simps) (auto intro!: exI [of _ f] exI [of _ st])
  next
    case False
    obtain f' st' w' sent where i: "send_loop P port f1 st2 w2 = Some (f', st', w')" "byte_fifo f'" "kfifo_cap f' = kfifo_cap f1"
      "kfifo_bytes f1 = sent @ kfifo_bytes f'" "regs w' = (regs w2)\<lparr>r_sent := r_sent (regs w2) @ sent\<rparr>"
      "kfifo_bytes f' = [] \<or> uart16550_hw_device_can_send st' = 0"
      using Cons.hyps(1) [OF f1(3) [symmetric] f1(2) nd] by blast
    have "send_loop P port f st w = Some (f', st', w')"
      using False f1(1) w1(1) w2(1) i(1) by (subst send_loop.simps) (simp add: uart16550_hw_write_to_device_def)
    moreover have "kfifo_bytes f = (b # sent) @ kfifo_bytes f'" using i(4) f1(3) Cons.hyps(2) by simp
    moreover have "regs w' = (regs w)\<lparr>r_sent := r_sent (regs w) @ (b # sent)\<rparr>" using i(5) r by simp
    ultimately show ?thesis using i(2,3,6) f1(4) by metis
  qed
qed

text \<open>The receiving loop ends as well: it stores what it takes in order until the fifo is full; then
  the byte it has just taken is lost.\<close>

lemma recv_loop_result:
  assumes "chip_ok P port regs" "byte_fifo f" "\<not> dlab (regs w)"
  shows "\<exists>f' w' stored lost. recv_loop P port f st w = Some (f', w') \<and> byte_fifo f' \<and> kfifo_cap f' = kfifo_cap f \<and>
    kfifo_bytes f' = kfifo_bytes f @ stored \<and> regs w' = (regs w)\<lparr>r_taken := r_taken (regs w) @ stored @ lost\<rparr> \<and>
    length lost \<le> 1 \<and> (lost \<noteq> [] \<longrightarrow> length (kfifo_bytes f') = kfifo_cap f')"
  using assms(2,3)
proof (induction "kfifo_cap f - length (kfifo_bytes f)" arbitrary: f st w rule: less_induct)
  case less
  have "RBR < 8" by (simp add: reg_defs)
  then obtain b w1 where w1: "READ_FROM_REG P port RBR w = Some (b, w1)" "regs w1 = reg_read RBR b (regs w)"
    by (rule read_reg [OF assms(1)])
  have r1: "regs w1 = (regs w)\<lparr>r_taken := r_taken (regs w) @ [b]\<rparr>"
    using less.prems(2) by (simp add: w1(2) reg_read_def reg_defs)
  show ?case
  proof (cases "uart16550_hw_device_has_data st = 0")
    case True
    then have "recv_loop P port f st w = Some (f, w)" by (subst recv_loop.simps) simp
    then show ?thesis using less.prems(1) by (intro exI [of _ f] exI [of _ w] exI [of _ "[]"]) simp
  next
    case data: False
    show ?thesis
    proof (cases "length (kfifo_bytes f) = kfifo_cap f")
      case True
      have "recv_loop P port f st w = Some (f, w1)"
        using data w1(1) kq.put_full [OF less.prems(1) True, of b]
        by (subst recv_loop.simps) (simp add: uart16550_hw_read_from_device_def)
      then show ?thesis using less.prems(1) r1 True
        by (intro exI [of _ f] exI [of _ w1] exI [of _ "[]"] exI [of _ "[b]"]) simp
    next
      case False
      then have lt: "length (kfifo_bytes f) < kfifo_cap f" using kq.length_items [OF less.prems(1)] by simp
      obtain f1 where f1: "kfifo_put byte_kfifo f [b] = Some (f1, 1)" "byte_fifo f1" "kfifo_bytes f1 = kfifo_bytes f @ [b]" "kfifo_cap f1 = kfifo_cap f"
        using kq.put_room [OF less.prems(1) lt, of b] by auto
      obtain st2 w2 where w2: "uart16550_hw_get_device_status P port w1 = Some (st2, w2)" "regs w2 = regs w1"
        by (rule status_result [OF assms(1)])
      have nd: "\<not> dlab (regs w2)" using less.prems(2) by (simp add: w2(2) r1 dlab_def)
      have "kfifo_cap f1 - length (kfifo_bytes f1) < kfifo_cap f - length (kfifo_bytes f)" using lt f1(3,4) by simp
      from less.hyps [OF this f1(2) nd, of st2] obtain f' w' stored lost where
        i: "recv_loop P port f1 st2 w2 = Some (f', w')" "byte_fifo f'" "kfifo_cap f' = kfifo_cap f1"
        "kfifo_bytes f' = kfifo_bytes f1 @ stored" "regs w' = (regs w2)\<lparr>r_taken := r_taken (regs w2) @ stored @ lost\<rparr>"
        "length lost \<le> 1" "lost \<noteq> [] \<longrightarrow> length (kfifo_bytes f') = kfifo_cap f'" by blast
      have "recv_loop P port f st w = Some (f', w')"
        using data w1(1) f1(1) w2(1) i(1) by (subst recv_loop.simps) (simp add: uart16550_hw_read_from_device_def)
      moreover have "kfifo_bytes f' = kfifo_bytes f @ (b # stored)" using i(4) f1(3) by simp
      moreover have "regs w' = (regs w)\<lparr>r_taken := r_taken (regs w) @ (b # stored) @ lost\<rparr>" using i(5) w2(2) r1 by simp
      ultimately show ?thesis using i(2,3,6,7) f1(4) by metis
    qed
  qed
qed

section \<open>Reading and writing\<close>

text \<open>A device that is initialised and that nobody has locked.\<close>

definition com_ok :: "com_dev \<Rightarrow> bool" where
  "com_ok d \<longleftrightarrow> byte_fifo (cm_in d) \<and> byte_fifo (cm_out d) \<and>
     kfifo_cap (cm_in d) = 4096 \<and> kfifo_cap (cm_out d) = 4096 \<and>
     lock_word_ok (cm_input_lock d) \<and> \<not> spin_is_locked (cm_input_lock d) \<and>
     lock_word_ok (cm_output_lock d) \<and> \<not> spin_is_locked (cm_output_lock d)"

lemma uart_acquire_ok:
  assumes "lock_word_ok l" "\<not> spin_is_locked l"
  obtains l' where "uart_acquire q True l = Some (q, l')" "lock_word_ok (spin_unlock l')" "\<not> spin_is_locked (spin_unlock l')"
proof -
  obtain l' where l': "spin_trylock l = (l', 1)" using qlock.try_free [OF assms] by blast
  have "uart_acquire q True l = Some (q, l')"
    by (subst uart_acquire.simps) (simp add: wait_event_alone l')
  then show thesis by (rule that) (use qlock.try_release [OF assms l'] in auto)
qed

text \<open>Alone, it never gets past a condition that does not hold.\<close>

lemma uart_acquire_waits: "uart_acquire q False l = None"
  by (subst uart_acquire.simps) (simp add: wait_event_alone)

lemma sint_small: "unat (x :: u32) < 2 ^ 31 \<Longrightarrow> sint x = int (unat x)"
proof -
  assume "unat x < 2 ^ 31"
  then have "int (unat x) < int (2 ^ 31)" by (simp only: of_nat_less_iff)
  then have "uint x < 2 ^ 31" by simp
  then have "signed_take_bit 31 (uint x) = uint x" by (intro signed_take_bit_int_eq_self) (simp_all add: order_trans [of _ 0])
  then show ?thesis by (simp add: sint_uint)
qed

lemma new_block_free: "new_block B B' p n \<Longrightarrow> B'(p := None) = B"
  by (auto simp: new_block_def)

lemma kmalloc_kfree_blocks:
  assumes "heap_ok L blocks" "kmalloc L c n g m = (Some (b, bs), m')"
  shows "blocks (kfree L (Some (b, bs')) m') = blocks m" "length bs = unat n"
  using kmalloc_law [OF assms(1), of n m c g] assms(2) new_block_free heap_ok_free [OF assms(1)]
  by (auto simp: alloc_law_Some kfree_def)

lemma reemit_result:
  assumes "chip_ok P port regs" "\<not> dlab (regs w)"
  obtains w' where "uart16550_hw_force_interrupt_reemit P port w = Some w'" "regs w' = (regs w)\<lparr>r_ier := 0x03\<rparr>"
proof -
  have lt: "IER < 8" by (simp add: reg_defs)
  obtain w1 where w1: "WRITE_TO_REG P port IER 0 w = Some w1" "regs w1 = reg_write IER 0 (regs w)"
    by (rule write_reg [OF assms(1) lt])
  obtain w2 where w2: "WRITE_TO_REG P port IER 3 w1 = Some w2" "regs w2 = reg_write IER 3 (regs w1)"
    by (rule write_reg [OF assms(1) lt])
  show thesis
    by (rule that [of w2]) (use w1 w2 assms(2) in \<open>simp_all add: uart16550_hw_force_interrupt_reemit_def
      uart16550_hw_disable_interrupts_def uart16550_hw_enable_interrupts_def reg_write_def reg_defs dlab_def\<close>)
qed

lemma com_at_put: "com_at ul p u = Some d \<Longrightarrow> com_at ul p (put_com ul p d' u) = Some d'"
  by (auto simp: com_at_def put_com_def split: if_splits)

lemma uart_write_result:
  assumes heap: "heap_ok L blocks" and fl: "dv_filps s fp = Some f" "private_data f = Some p"
    and dev: "com_at ul p (fst (dv_priv s)) = Some d" "com_ok d"
    and chip: "chip_ok P (if com1_dev ul = p then COM1_BASEPORT else COM2_BASEPORT) regs" "\<not> dlab (regs (snd (dv_priv s)))"
    and room: "length (kfifo_bytes (cm_out d)) < 4096" and mem: "kmalloc L False sz GFP_KERNEL (dv_mem s) = (Some (b, bs), m)"
    and user: "unat sz \<le> length user"
    and k: "k = min (unat sz) (4096 - length (kfifo_bytes (cm_out d)))"
  shows "\<exists>s' d'. uart16550_write L P ul fp user sz s = Some (int k, s') \<and>
    dv_filps s' = dv_filps s \<and> blocks (dv_mem s') = blocks (dv_mem s) \<and>
    fst (dv_priv s') = put_com ul p d' (fst (dv_priv s)) \<and> com_ok d' \<and> cm_base_port d' = cm_base_port d \<and>
    kfifo_bytes (cm_out d') = kfifo_bytes (cm_out d) @ take k user \<and> cm_in d' = cm_in d \<and>
    regs (snd (dv_priv s')) = (regs (snd (dv_priv s)))\<lparr>r_ier := 0x03\<rparr>"
proof -
  have c: "byte_fifo (cm_out d)" "kfifo_cap (cm_out d) = 4096" "lock_word_ok (cm_output_lock d)" "\<not> spin_is_locked (cm_output_lock d)"
    using dev(2) by (simp_all add: com_ok_def)
  note bk = kmalloc_kfree_blocks [OF heap mem]
  have cp: "copy_from_user (- 1) bs 0 user 0 sz = Some (take (unat sz) user, 0)"
    using bk(2) user by (simp add: copy_from_user_unknown copy_from_user_mem_complete)
  have nf: "\<not> kfifo_is_full (cm_out d)" using kq.is_full_iff [OF c(1)] c(2) room by simp
  obtain l where l: "uart_acquire (cm_write_queue d) True (cm_output_lock d) = Some (cm_write_queue d, l)"
    "lock_word_ok (spin_unlock l)" "\<not> spin_is_locked (spin_unlock l)" by (rule uart_acquire_ok [OF c(3,4)])
  obtain q w where q: "kfifo_in byte_kfifo (cm_out d) (take (unat sz) user) sz = Some (q, w)" "unat w = k" "byte_fifo q"
    "kfifo_bytes q = kfifo_bytes (cm_out d) @ take k (take (unat sz) user)" "kfifo_cap q = 4096"
    using kq.put_block_result [OF c(1), of k sz "take (unat sz) user"] k user c(2) by auto
  obtain w' where w': "uart16550_hw_force_interrupt_reemit P (if com1_dev ul = p then COM1_BASEPORT else COM2_BASEPORT)
      (snd (dv_priv s)) = Some w'" "regs w' = (regs (snd (dv_priv s)))\<lparr>r_ier := 0x03\<rparr>"
    by (rule reemit_result [OF chip])
  define d' where "d' = d\<lparr>cm_out := q, cm_write_queue := cm_write_queue d, cm_output_lock := spin_unlock l\<rparr>"
  define s' where "s' = s\<lparr>dv_mem := kfree L (Some (b, take (unat sz) user)) m, dv_priv := (put_com ul p d' (fst (dv_priv s)), w')\<rparr>"
  have "sint w = int k" using q(2) k by (subst sint_small) auto
  then have "uart16550_write L P ul fp user sz s = Some (int k, s')"
    using fl dev(1) mem cp nf l(1) q(1) w'(1) by (simp add: uart16550_write_def s'_def d'_def Let_def)
  moreover have "com_ok d'" using dev(2) q l by (simp add: com_ok_def d'_def)
  ultimately show ?thesis
    using q(4) w'(2) bk(1) k by (intro exI [of _ s'] exI [of _ d']) (simp add: s'_def d'_def min_absorb1)
qed

lemma uart_read_result:
  assumes heap: "heap_ok L blocks" and fl: "dv_filps s fp = Some f" "private_data f = Some p"
    and dev: "com_at ul p (fst (dv_priv s)) = Some d" "com_ok d"
    and data: "kfifo_bytes (cm_in d) \<noteq> []" and mem: "kmalloc L False sz GFP_KERNEL (dv_mem s) = (Some (b, bs), m)"
    and k: "k = min (unat sz) (length (kfifo_bytes (cm_in d)))" and user: "k \<le> length user"
  shows "\<exists>s' d'. uart16550_read L ul fp user sz s = Some ((int k, take k (kfifo_bytes (cm_in d)) @ drop k user), s') \<and>
    dv_filps s' = dv_filps s \<and> blocks (dv_mem s') = blocks (dv_mem s) \<and> dv_mem s' = ext_free L b m \<and> snd (dv_priv s') = snd (dv_priv s) \<and>
    fst (dv_priv s') = put_com ul p d' (fst (dv_priv s)) \<and> com_ok d' \<and> cm_base_port d' = cm_base_port d \<and>
    kfifo_bytes (cm_in d') = drop k (kfifo_bytes (cm_in d)) \<and> cm_out d' = cm_out d"
proof -
  have c: "byte_fifo (cm_in d)" "kfifo_cap (cm_in d) = 4096" "lock_word_ok (cm_input_lock d)" "\<not> spin_is_locked (cm_input_lock d)"
    using dev(2) by (simp_all add: com_ok_def)
  note bk = kmalloc_kfree_blocks [OF heap mem]
  have ne: "\<not> kfifo_is_empty (cm_in d)" using kq.is_empty_iff [OF c(1)] data by simp
  obtain l where l: "uart_acquire (cm_read_queue d) True (cm_input_lock d) = Some (cm_read_queue d, l)"
    "lock_word_ok (spin_unlock l)" "\<not> spin_is_locked (spin_unlock l)" by (rule uart_acquire_ok [OF c(3,4)])
  define buf where "buf = take k (kfifo_bytes (cm_in d)) @ drop k bs"
  obtain q w where q: "kfifo_out byte_kfifo (cm_in d) bs sz = Some (q, buf, w)" "unat w = k" "byte_fifo q"
    "kfifo_bytes q = drop k (kfifo_bytes (cm_in d))" "kfifo_cap q = 4096"
    using kq.get_block_result [OF c(1) k, of bs] k bk(2) c(2) by (auto simp: buf_def)
  have "copy_to_user user 0 buf 0 w = Some (take k buf @ drop k user, 0)"
    using user q(2) k bk(2) by (simp add: copy_to_user_eq copy_to_user_mem_complete buf_def)
  then have cp: "copy_to_user user 0 buf 0 w = Some (take k (kfifo_bytes (cm_in d)) @ drop k user, 0)"
    using k by (simp add: buf_def)
  define d' where "d' = d\<lparr>cm_in := q, cm_read_queue := cm_read_queue d, cm_input_lock := spin_unlock l\<rparr>"
  define s' where "s' = s\<lparr>dv_mem := kfree L (Some (b, buf)) m, dv_priv := (put_com ul p d' (fst (dv_priv s)), snd (dv_priv s))\<rparr>"
  have "k \<le> 4096" using k kq.length_items [OF c(1)] c(2) by simp
  then have "sint w = int k" using q(2) by (subst sint_small) auto
  then have "uart16550_read L ul fp user sz s = Some ((int k, take k (kfifo_bytes (cm_in d)) @ drop k user), s')"
    using fl dev(1) mem cp ne l(1) q(1) by (simp add: uart16550_read_def s'_def d'_def Let_def)
  moreover have "com_ok d'" using dev(2) q l by (simp add: com_ok_def d'_def)
  ultimately show ?thesis
    using q(4) bk(1) by (intro exI [of _ s'] exI [of _ d']) (simp add: s'_def d'_def kfree_def)
qed

lemma interrupt_result:
  assumes chip: "chip_ok P (cm_base_port d) regs" "\<not> dlab (regs w)"
    and dev: "com_at ul (if irq = COM1_IRQ then com1_dev ul else com2_dev ul) u = Some d" "com_ok d"
  shows "\<exists>d' w' sent stored lost. interrupt_handler P ul irq data (u, w) =
      Some (IRQ_HANDLED, put_com ul (if irq = COM1_IRQ then com1_dev ul else com2_dev ul) d' u, w') \<and>
    com_ok d' \<and> cm_base_port d' = cm_base_port d \<and>
    kfifo_bytes (cm_out d) = sent @ kfifo_bytes (cm_out d') \<and> kfifo_bytes (cm_in d') = kfifo_bytes (cm_in d) @ stored \<and>
    regs w' = (regs w)\<lparr>r_sent := r_sent (regs w) @ sent, r_taken := r_taken (regs w) @ stored @ lost\<rparr> \<and>
    length lost \<le> 1 \<and> (lost \<noteq> [] \<longrightarrow> length (kfifo_bytes (cm_in d')) = 4096) \<and>
    \<not> wq_locked (cm_read_queue d') \<and> \<not> wq_locked (cm_write_queue d')"
proof -
  let ?p = "if irq = COM1_IRQ then com1_dev ul else com2_dev ul" and ?port = "cm_base_port d"
  have c: "byte_fifo (cm_out d)" "byte_fifo (cm_in d)" using dev(2) by (simp_all add: com_ok_def)
  obtain st w1 where w1: "uart16550_hw_get_device_status P ?port w = Some (st, w1)" "regs w1 = regs w"
    by (rule status_result [OF chip(1)])
  have n1: "\<not> dlab (regs w1)" using chip(2) w1(2) by simp
  obtain fo st2 w2 sent where w2: "send_loop P ?port (cm_out d) st w1 = Some (fo, st2, w2)" "byte_fifo fo"
    "kfifo_cap fo = kfifo_cap (cm_out d)" "kfifo_bytes (cm_out d) = sent @ kfifo_bytes fo"
    "regs w2 = (regs w1)\<lparr>r_sent := r_sent (regs w1) @ sent\<rparr>"
    using send_loop_result [OF chip(1) c(1) n1, of st] by blast
  have n2: "\<not> dlab (regs w2)" using n1 by (simp add: w2(5) dlab_def)
  obtain fi w3 stored lost where w3: "recv_loop P ?port (cm_in d) st2 w2 = Some (fi, w3)" "byte_fifo fi"
    "kfifo_cap fi = kfifo_cap (cm_in d)" "kfifo_bytes fi = kfifo_bytes (cm_in d) @ stored"
    "regs w3 = (regs w2)\<lparr>r_taken := r_taken (regs w2) @ stored @ lost\<rparr>"
    "length lost \<le> 1" "lost \<noteq> [] \<longrightarrow> length (kfifo_bytes fi) = kfifo_cap fi"
    using recv_loop_result [OF chip(1) c(2) n2, of st2] by blast
  define d' where "d' = d\<lparr>cm_out := fo, cm_in := fi, cm_read_queue := wake_up_interruptible (cm_read_queue d),
    cm_write_queue := wake_up_interruptible (cm_write_queue d)\<rparr>"
  have "interrupt_handler P ul irq data (u, w) = Some (IRQ_HANDLED, put_com ul ?p d' u, w3)"
    using dev(1) w1(1) w2(1) w3(1) by (simp add: interrupt_handler_def d'_def Let_def)
  moreover have "com_ok d'" using dev(2) w2(2,3) w3(2,3) by (simp add: com_ok_def d'_def)
  moreover have "\<not> wq_locked (cm_read_queue d')" "\<not> wq_locked (cm_write_queue d')"
    by (simp_all add: d'_def wake_up_interruptible_def wake_up_def)
  moreover have "lost \<noteq> [] \<longrightarrow> length (kfifo_bytes (cm_in d')) = 4096" using w3(3,7) dev(2) by (simp add: d'_def com_ok_def)
  ultimately show ?thesis
    using w2(4,5) w3(4,5,6) w1(2) by (intro exI [of _ d'] exI [of _ w3] exI [of _ sent] exI [of _ stored] exI [of _ lost])
      (simp add: d'_def)
qed

section \<open>The driver as a character device\<close>

text \<open>Whatever they return, the operations give back what they allocate.\<close>

lemma uart_keeps_blocks:
  assumes "heap_ok L blocks"
  shows "uart16550_open ul dev fp s = Some (r, s') \<Longrightarrow> blocks (dv_mem s') = blocks (dv_mem s)"
    and "uart16550_read L ul fp b n s = Some (rb, s') \<Longrightarrow> blocks (dv_mem s') = blocks (dv_mem s)"
    and "uart16550_write L P ul fp b n s = Some (r, s') \<Longrightarrow> blocks (dv_mem s') = blocks (dv_mem s)"
proof -
  show "blocks (dv_mem s') = blocks (dv_mem s)" if "uart16550_open ul dev fp s = Some (r, s')"
    using that by (auto simp: uart16550_open_def Let_def split: bind_splits if_splits)
  have k: "blocks m = blocks (dv_mem s)" if "kmalloc L False n GFP_KERNEL (dv_mem s) = (None, m)" for m
    using kmalloc_law [OF assms, of n "dv_mem s" False GFP_KERNEL] that by (simp add: alloc_law_None)
  show "blocks (dv_mem s') = blocks (dv_mem s)" if "uart16550_read L ul fp b n s = Some (rb, s')"
    using that k kmalloc_kfree_blocks(1) [OF assms]
    by (auto simp: uart16550_read_def Let_def split: bind_splits if_splits prod.splits option.splits)
  show "blocks (dv_mem s') = blocks (dv_mem s)" if "uart16550_write L P ul fp b n s = Some (r, s')"
    using that k kmalloc_kfree_blocks(1) [OF assms]
    by (auto simp: uart16550_write_def Let_def split: bind_splits if_splits prod.splits option.splits)
qed

sublocale libc_heap \<subseteq> uart_drv: char_driver "fops L P ul" blocks for P ul
  by unfold_locales (auto simp: fops_def dest: uart_keeps_blocks [OF heap])

context libc_heap
begin

lemmas uart_write_call = uart_drv.write_call

lemmas uart_read_call = uart_drv.read_call

end

section \<open>Initialisation of a device\<close>

lemma init_fifo_ok:
  assumes "length (snd buf) = 4096"
  shows "byte_fifo (INIT_KFIFO byte_kfifo FIFO_SIZE buf f)" "kfifo_bytes (INIT_KFIFO byte_kfifo FIFO_SIZE buf f) = []"
    "kfifo_cap (INIT_KFIFO byte_kfifo FIFO_SIZE buf f) = 4096"
  using INIT_KFIFO_wf [of byte_kfifo FIFO_SIZE 12 "snd buf" "fst buf" f] assms
  by (simp_all add: byte_kfifo_def FIFO_SIZE_def byte_fifo_def) (simp add: INIT_KFIFO_def)

lemma init_struct_ok:
  assumes "length (snd (cm_inbuf d)) = 4096" "length (snd (cm_outbuf d)) = 4096"
  obtains d' where "init_struct d = Some d'" "com_ok d'" "kfifo_bytes (cm_in d') = []" "kfifo_bytes (cm_out d') = []"
    "cm_base_port d' = cm_base_port d" "cm_minor d' = cm_minor d" "cm_irq d' = cm_irq d"
    "wq_locked (cm_read_queue d') = wq_locked (cm_read_queue d)"
proof -
  define d' where "d' = d\<lparr>cm_input_lock := spin_lock_init, cm_output_lock := spin_lock_init,
    cm_in := INIT_KFIFO byte_kfifo FIFO_SIZE (cm_inbuf d) (cm_in d),
    cm_out := INIT_KFIFO byte_kfifo FIFO_SIZE (cm_outbuf d) (cm_out d),
    cm_read_queue := (cm_read_queue d)\<lparr>wq_lock := Q_LOCKED_VAL, wq_tasks := []\<rparr>,
    cm_write_queue := (cm_write_queue d)\<lparr>wq_lock := Q_LOCKED_VAL, wq_tasks := []\<rparr>\<rparr>"
  have "init_struct d = Some d'" by (simp add: init_struct_def init_waitqueue_head_locked d'_def)
  moreover have "com_ok d'"
    using init_fifo_ok [OF assms(1)] init_fifo_ok [OF assms(2)] qlock.fresh_free by (simp add: com_ok_def d'_def)
  ultimately show thesis
    by (rule that) (use init_fifo_ok [OF assms(1)] init_fifo_ok [OF assms(2)] in \<open>simp_all add: d'_def\<close>)
qed

section \<open>A sample device\<close>

definition sample_com :: "u32 \<Rightarrow> com_dev" where
  "sample_com port = \<lparr>cm_in = DEFINE_KFIFO byte_kfifo FIFO_SIZE (0x5000, replicate 4096 0),
     cm_out = DEFINE_KFIFO byte_kfifo FIFO_SIZE (0x6000, replicate 4096 0),
     cm_inbuf = (0x5000, replicate 4096 0), cm_outbuf = (0x6000, replicate 4096 0), cm_input_lock = 0, cm_output_lock = 0,
     cm_read_queue = \<lparr>wq_lock = 0, wq_tasks = [], wq_locked = False\<rparr>,
     cm_write_queue = \<lparr>wq_lock = 0, wq_tasks = [], wq_locked = False\<rparr>,
     cm_base_port = port, cm_minor = 1, cm_irq = COM2_IRQ\<rparr>"

lemma sample_com_ok:
  "com_ok (sample_com port)" "kfifo_bytes (cm_in (sample_com port)) = []" "kfifo_bytes (cm_out (sample_com port)) = []"
proof -
  have e: "DEFINE_KFIFO byte_kfifo FIFO_SIZE buf = INIT_KFIFO byte_kfifo FIFO_SIZE buf (DEFINE_KFIFO byte_kfifo FIFO_SIZE buf)" for buf
    by (simp add: DEFINE_KFIFO_def INIT_KFIFO_def)
  have i: "byte_fifo (DEFINE_KFIFO byte_kfifo FIFO_SIZE (a, replicate 4096 0))"
    "kfifo_bytes (DEFINE_KFIFO byte_kfifo FIFO_SIZE (a, replicate 4096 0)) = []"
    "kfifo_cap (DEFINE_KFIFO byte_kfifo FIFO_SIZE (a, replicate 4096 0)) = 4096" for a
    using init_fifo_ok [of "(a, replicate 4096 0)" "DEFINE_KFIFO byte_kfifo FIFO_SIZE (a, replicate 4096 0)"]
    by (simp_all only: e [symmetric]) simp_all
  show "com_ok (sample_com port)"
    using i qlock.fresh_free by (simp add: com_ok_def sample_com_def spin_lock_init_def)
  show "kfifo_bytes (cm_in (sample_com port)) = []" "kfifo_bytes (cm_out (sample_com port)) = []"
    using i by (simp_all add: sample_com_def)
qed

lemma sample_com_port [simp]: "cm_base_port (sample_com port) = port"
  by (simp add: sample_com_def)

definition sample_ul :: uart_layout where
  "sample_ul = \<lparr>com1_dev = 0x3000, com2_dev = 0x4000, cdev_off = 0x20, fops_at = 0x10, ioport_at = 0x40, ul_dev = sample_layout\<rparr>"

definition sample_uart :: uart where
  "sample_uart = \<lparr>ua_com1 = sample_com COM1_BASEPORT, ua_com2 = sample_com COM2_BASEPORT, ua_class = 0, ua_major = 42, ua_behavior = 2\<rparr>"

section \<open>Properties\<close>



text \<open>
  C36. The line settings of \<open>ioctl\<close>: an unknown command and a line with any invalid field are refused
  with \<open>EINVAL\<close> and change nothing; a valid line is programmed into the controller of the
  file's device, with the divisor latch closed again; a null argument or one shorter than
  the structure is read out of bounds.
\<close>

theorem uart_ioctl_result:
  assumes "dv_filps s fp = Some f" "private_data f = Some p" "com_at ul p (fst (dv_priv s)) = Some d"
    and "chip_ok P (cm_base_port d) regs" "\<not> dlab (regs (snd (dv_priv s)))"
    and line: "line = \<lparr>li_baud = bs ! 0, li_len = bs ! 1, li_par = bs ! 2, li_stop = bs ! 3\<rparr>"
  shows "(cmd \<noteq> UART16550_IOCTL_SET_LINE \<longrightarrow> uart16550_ioctl P ul fp cmd arg s = Some (- EINVAL, s)) \<and>
    uart16550_ioctl P ul fp UART16550_IOCTL_SET_LINE None s = None \<and>
    (length bs < 4 \<longrightarrow> uart16550_ioctl P ul fp UART16550_IOCTL_SET_LINE (Some bs) s = None) \<and>
    (4 \<le> length bs \<and> \<not> valid_line line \<longrightarrow>
       uart16550_ioctl P ul fp UART16550_IOCTL_SET_LINE (Some bs) s = Some (- EINVAL, s)) \<and>
    (4 \<le> length bs \<and> valid_line line \<longrightarrow>
       (\<exists>w'. uart16550_ioctl P ul fp UART16550_IOCTL_SET_LINE (Some bs) s = Some (0, s\<lparr>dv_priv := (fst (dv_priv s), w')\<rparr>) \<and>
          r_dll (regs w') = bs ! 0 \<and> r_dlm (regs w') = 0 \<and> r_lcr (regs w') = bs ! 1 OR bs ! 3 OR bs ! 2 \<and> \<not> dlab (regs w')))"
proof (intro conjI impI)
  have c: "copy_from_user 4 [0, 0, 0, 0] 0 bs 0 4 = Some (take 4 bs, 0)" if "4 \<le> length bs"
    using that by (simp add: copy_from_user_def copy_from_user_mem_complete)
  show "uart16550_ioctl P ul fp cmd arg s = Some (- EINVAL, s)" if "cmd \<noteq> UART16550_IOCTL_SET_LINE"
    using that assms(1-3) by (simp add: uart16550_ioctl_def Let_def)
  show "uart16550_ioctl P ul fp UART16550_IOCTL_SET_LINE None s = None"
    using assms(1-3) by (simp add: uart16550_ioctl_def Let_def)
  show "uart16550_ioctl P ul fp UART16550_IOCTL_SET_LINE (Some bs) s = None" if "length bs < 4"
    using that assms(1-3) by (simp add: uart16550_ioctl_def Let_def copy_from_user_def copy_from_user_mem_def mem_load_def)
  show "uart16550_ioctl P ul fp UART16550_IOCTL_SET_LINE (Some bs) s = Some (- EINVAL, s)"
    if "4 \<le> length bs \<and> \<not> valid_line line"
    using that assms(1-3) c by (auto simp: uart16550_ioctl_def Let_def valid_line_def line)
  assume v: "4 \<le> length bs \<and> valid_line line"
  obtain w' where w': "uart16550_hw_set_line_parameters P (cm_base_port d) line (snd (dv_priv s)) = Some w'"
    "regs w' = (regs (snd (dv_priv s)))\<lparr>r_dll := li_baud line, r_dlm := 0, r_lcr := li_len line OR li_stop line OR li_par line,
       r_fcr := 0xc7, r_mcr := 0x08, r_ier := 0x03\<rparr>" "\<not> dlab (regs w')"
    using v set_line_result [OF assms(4,5)] by metis
  have "uart16550_ioctl P ul fp UART16550_IOCTL_SET_LINE (Some bs) s = Some (0, s\<lparr>dv_priv := (fst (dv_priv s), w')\<rparr>)"
    using v w'(1) assms(1-3) c by (simp add: uart16550_ioctl_def Let_def valid_line_def line)
  then show "\<exists>w'. uart16550_ioctl P ul fp UART16550_IOCTL_SET_LINE (Some bs) s = Some (0, s\<lparr>dv_priv := (fst (dv_priv s), w')\<rparr>) \<and>
      r_dll (regs w') = bs ! 0 \<and> r_dlm (regs w') = 0 \<and> r_lcr (regs w') = bs ! 1 OR bs ! 3 OR bs ! 2 \<and> \<not> dlab (regs w')"
    using w'(2,3) by (intro exI [of _ w']) (simp add: line)
qed

theorem uart_ioctl_result_witness:
  "uart16550_ioctl (sim_ports COM2_BASEPORT) sample_ul 0x900 1 (Some [96, 2, 0x18, 1])
      \<lparr>dv_mem = (), dv_filps = [0x900 \<mapsto> \<lparr>private_data = Some 0x4000\<rparr>], dv_priv = (sample_uart, fresh_chip [])\<rparr> =
      Some (- EINVAL, \<lparr>dv_mem = (), dv_filps = [0x900 \<mapsto> \<lparr>private_data = Some 0x4000\<rparr>], dv_priv = (sample_uart, fresh_chip [])\<rparr>) \<and>
    (\<exists>w'. uart16550_ioctl (sim_ports COM2_BASEPORT) sample_ul 0x900 1 (Some [96, 2, 0x18, 4])
      \<lparr>dv_mem = (), dv_filps = [0x900 \<mapsto> \<lparr>private_data = Some 0x4000\<rparr>], dv_priv = (sample_uart, fresh_chip [])\<rparr> =
      Some (0, \<lparr>dv_mem = (), dv_filps = [0x900 \<mapsto> \<lparr>private_data = Some 0x4000\<rparr>], dv_priv = (sample_uart, w')\<rparr>) \<and>
      r_dll (sim_regs w') = 96 \<and> r_lcr (sim_regs w') = 0x1E)"
proof -
  have a: "com_at sample_ul 0x4000 sample_uart = Some (sample_com COM2_BASEPORT)"
    by (simp add: sample_ul_def sample_uart_def com_at_def)
  have c: "chip_ok (sim_ports COM2_BASEPORT) (cm_base_port (sample_com COM2_BASEPORT)) sim_regs" by (simp add: sim_chip_ok)
  note r = uart_ioctl_result [where s = "\<lparr>dv_mem = (), dv_filps = [0x900 \<mapsto> \<lparr>private_data = Some 0x4000\<rparr>],
      dv_priv = (sample_uart, fresh_chip [])\<rparr>" and fp = "0x900" and f = "\<lparr>private_data = Some 0x4000\<rparr>" and p = "0x4000",
      OF _ _ _ c _ refl, where ul = sample_ul]
  show ?thesis
    using r [where bs = "[96, 2, 0x18, 1]"] r [where bs = "[96, 2, 0x18, 4]"] a fresh_chip_no_dlab [of "[]"]
    by (simp add: valid_line_def uart_bauds_def uart_lens_def uart_pars_def uart_stops_def UART16550_IOCTL_SET_LINE_def) blast
qed

end
