(* ===== verification/Uart_Run.thy ===== *)
theory Uart_Run
  imports Uart
begin

text \<open>
  Runs of the serial driver: writes, reads and interrupts on an open device in any order, and
  what becomes of the bytes in flight. The invariant \<open>uart_inv\<close> is kept by every step, and
  \<open>uart_flow\<close> relates the bytes before and after it; a run adds up the flows of its steps.
\<close>

section \<open>Sequences of operations\<close>

text \<open>
  What happens to one open device: writes, reads and interrupts in any order, each as a whole.
  A call that waits forever or faults is not a step. The events record the bytes a write
  accepted and the bytes a read handed out.
\<close>

datatype uart_event = Wrote "u8 list" | Got "u8 list" | Interrupted

inductive uart_step :: "'h libc \<Rightarrow> 'w ports \<Rightarrow> uart_layout \<Rightarrow> addr \<Rightarrow> u32 \<Rightarrow>
    ('h, 'w) uart_drv \<Rightarrow> uart_event \<Rightarrow> ('h, 'w) uart_drv \<Rightarrow> bool" for L P ul fp irq where
  step_write: "uart16550_write L P ul fp user sz s = Some (n, s') \<Longrightarrow>
     uart_step L P ul fp irq s (Wrote (take (nat n) user)) s'"
| step_read: "uart16550_read L ul fp user sz s = Some ((n, user'), s') \<Longrightarrow> unat sz \<le> length user \<Longrightarrow>
     uart_step L P ul fp irq s (Got (take (nat n) user')) s'"
| step_irq: "interrupt_handler P ul irq data (dv_priv s) = Some (r, priv) \<Longrightarrow>
     uart_step L P ul fp irq s Interrupted (s\<lparr>dv_priv := priv\<rparr>)"

inductive uart_run :: "'h libc \<Rightarrow> 'w ports \<Rightarrow> uart_layout \<Rightarrow> addr \<Rightarrow> u32 \<Rightarrow>
    ('h, 'w) uart_drv \<Rightarrow> uart_event list \<Rightarrow> ('h, 'w) uart_drv \<Rightarrow> bool" for L P ul fp irq s0 where
  run_start: "uart_run L P ul fp irq s0 [] s0"
| run_step: "uart_run L P ul fp irq s0 es s \<Longrightarrow> uart_step L P ul fp irq s e s' \<Longrightarrow>
     uart_run L P ul fp irq s0 (es @ [e]) s'"

fun written :: "uart_event \<Rightarrow> u8 list" where
  "written (Wrote bs) = bs" | "written _ = []"

fun gotten :: "uart_event \<Rightarrow> u8 list" where
  "gotten (Got bs) = bs" | "gotten _ = []"

fun interrupts :: "uart_event \<Rightarrow> nat" where
  "interrupts Interrupted = 1" | "interrupts _ = 0"

text \<open>The device at \<open>p\<close> is open through the file \<open>fp\<close>, initialised, and set up on its controller.\<close>

definition uart_inv :: "uart_layout \<Rightarrow> ('w \<Rightarrow> uart_regs) \<Rightarrow> addr \<Rightarrow> addr \<Rightarrow> com_dev \<Rightarrow> ('h, 'w) uart_drv \<Rightarrow> bool" where
  "uart_inv ul regs p fp d s \<longleftrightarrow>
     (\<exists>f. dv_filps s fp = Some f \<and> private_data f = Some p) \<and> com_at ul p (fst (dv_priv s)) = Some d \<and> com_ok d \<and>
     cm_base_port d = (if com1_dev ul = p then COM1_BASEPORT else COM2_BASEPORT) \<and> \<not> dlab (regs (snd (dv_priv s)))"

text \<open>What a step does to the bytes in flight.\<close>

definition uart_flow :: "('w \<Rightarrow> uart_regs) \<Rightarrow> com_dev \<Rightarrow> ('h, 'w) uart_drv \<Rightarrow> uart_event \<Rightarrow> com_dev \<Rightarrow> ('h, 'w) uart_drv \<Rightarrow> bool" where
  "uart_flow regs d s e d' s' \<longleftrightarrow>
     r_sent (regs (snd (dv_priv s'))) @ kfifo_bytes (cm_out d') =
       r_sent (regs (snd (dv_priv s))) @ kfifo_bytes (cm_out d) @ written e \<and>
     (\<exists>stored lost. gotten e @ kfifo_bytes (cm_in d') = kfifo_bytes (cm_in d) @ stored \<and>
        r_taken (regs (snd (dv_priv s'))) = r_taken (regs (snd (dv_priv s))) @ stored @ lost \<and> length lost \<le> interrupts e)"

lemma write_step_flow:
  assumes heap: "heap_ok L blocks" and inv: "uart_inv ul regs p fp d s"
    and chip: "chip_ok P (if com1_dev ul = p then COM1_BASEPORT else COM2_BASEPORT) regs"
    and w: "uart16550_write L P ul fp user sz s = Some (n, s')"
  shows "\<exists>d'. uart_inv ul regs p fp d' s' \<and> uart_flow regs d s (Wrote (take (nat n) user)) d' s'"
proof -
  obtain f where f: "dv_filps s fp = Some f" "private_data f = Some p" using inv by (auto simp: uart_inv_def)
  have d: "com_at ul p (fst (dv_priv s)) = Some d" "com_ok d" "\<not> dlab (regs (snd (dv_priv s)))"
    using inv by (simp_all add: uart_inv_def)
  show ?thesis
  proof (cases "kmalloc L False sz GFP_KERNEL (dv_mem s)")
    case (Pair r m)
    show ?thesis
    proof (cases r)
      case None
      then have "n = - ENOMEM" "s' = s\<lparr>dv_mem := m\<rparr>" using w Pair f d(1) by (simp_all add: uart16550_write_def Let_def)
      then show ?thesis using inv by (intro exI [of _ d]) (auto simp: uart_inv_def uart_flow_def ENOMEM_def)
    next
      case (Some x)
      then obtain b bs where mem: "kmalloc L False sz GFP_KERNEL (dv_mem s) = (Some (b, bs), m)" using Pair by (cases x) simp
      have user: "unat sz \<le> length user"
        using w mem f d(1) by (auto simp: uart16550_write_def Let_def copy_from_user_unknown copy_from_user_mem_def mem_load_def
            split: if_splits bind_splits)
      have "\<not> kfifo_is_full (cm_out d)"
      proof
        assume "kfifo_is_full (cm_out d)"
        then show False using w mem f d(1)
          by (auto simp: uart16550_write_def Let_def uart_acquire_waits copy_from_user_unknown copy_from_user_mem_def
              split: if_splits bind_splits)
      qed
      then have room: "length (kfifo_bytes (cm_out d)) < 4096"
        using kq.is_full_iff [of "cm_out d"] kq.length_items [of "cm_out d"] d(2) by (simp add: com_ok_def)
      from uart_write_result [OF heap f d(1,2) chip d(3) room mem user refl] w inv show ?thesis
        by (auto simp: uart_inv_def uart_flow_def com_at_put dlab_def)
    qed
  qed
qed

lemma read_step_flow:
  assumes heap: "heap_ok L blocks" and inv: "uart_inv ul regs p fp d s"
    and r: "uart16550_read L ul fp user sz s = Some ((n, user'), s')" and user: "unat sz \<le> length user"
  shows "\<exists>d'. uart_inv ul regs p fp d' s' \<and> uart_flow regs d s (Got (take (nat n) user')) d' s'"
proof -
  obtain f where f: "dv_filps s fp = Some f" "private_data f = Some p" using inv by (auto simp: uart_inv_def)
  have d: "com_at ul p (fst (dv_priv s)) = Some d" "com_ok d" using inv by (simp_all add: uart_inv_def)
  show ?thesis
  proof (cases "kmalloc L False sz GFP_KERNEL (dv_mem s)")
    case (Pair x m)
    show ?thesis
    proof (cases x)
      case None
      then have "n = - ENOMEM" "s' = s\<lparr>dv_mem := m\<rparr>" using r Pair f d(1) by (simp_all add: uart16550_read_def)
      then show ?thesis using inv by (intro exI [of _ d]) (auto simp: uart_inv_def uart_flow_def ENOMEM_def)
    next
      case (Some y)
      then obtain b bs where mem: "kmalloc L False sz GFP_KERNEL (dv_mem s) = (Some (b, bs), m)" using Pair by (cases y) simp
      have "\<not> kfifo_is_empty (cm_in d)"
      proof
        assume "kfifo_is_empty (cm_in d)"
        then show False using r mem f d(1) by (simp add: uart16550_read_def uart_acquire_waits)
      qed
      then have data: "kfifo_bytes (cm_in d) \<noteq> []" using kq.is_empty_iff [of "cm_in d"] d(2) by (simp add: com_ok_def)
      have k: "min (unat sz) (length (kfifo_bytes (cm_in d))) \<le> length user" using user by simp
      from uart_read_result [OF heap f d data mem refl k] r inv show ?thesis
        by (auto simp: uart_inv_def uart_flow_def com_at_put)
    qed
  qed
qed

lemma irq_step_flow:
  assumes inv: "uart_inv ul regs p fp d s" and p: "p = (if irq = COM1_IRQ then com1_dev ul else com2_dev ul)"
    and chip: "chip_ok P (if com1_dev ul = p then COM1_BASEPORT else COM2_BASEPORT) regs"
    and r: "interrupt_handler P ul irq data (dv_priv s) = Some (rc, priv)"
  shows "\<exists>d'. uart_inv ul regs p fp d' (s\<lparr>dv_priv := priv\<rparr>) \<and> uart_flow regs d s Interrupted d' (s\<lparr>dv_priv := priv\<rparr>)"
proof -
  obtain u w where uw: "dv_priv s = (u, w)" by fastforce
  have d: "com_at ul (if irq = COM1_IRQ then com1_dev ul else com2_dev ul) u = Some d" "com_ok d" "\<not> dlab (regs w)"
    "cm_base_port d = (if com1_dev ul = p then COM1_BASEPORT else COM2_BASEPORT)"
    using inv p by (simp_all add: uart_inv_def uw)
  have c: "chip_ok P (cm_base_port d) regs" using chip d(4) by simp
  obtain d' w' sent stored lost where h: "interrupt_handler P ul irq data (u, w) = Some (IRQ_HANDLED, put_com ul p d' u, w')"
    "com_ok d'" "cm_base_port d' = cm_base_port d"
    "kfifo_bytes (cm_out d) = sent @ kfifo_bytes (cm_out d')" "kfifo_bytes (cm_in d') = kfifo_bytes (cm_in d) @ stored"
    "regs w' = (regs w)\<lparr>r_sent := r_sent (regs w) @ sent, r_taken := r_taken (regs w) @ stored @ lost\<rparr>" "length lost \<le> 1"
    using interrupt_result [OF c d(3,1,2), of data] unfolding p by blast
  have "com_at ul p (put_com ul p d' u) = Some d'" by (rule com_at_put [OF d(1) [folded p]])
  then have "uart_inv ul regs p fp d' (s\<lparr>dv_priv := (put_com ul p d' u, w')\<rparr>)"
    using inv h(2,3,6) d(3) by (simp add: uart_inv_def dlab_def)
  moreover have "uart_flow regs d s Interrupted d' (s\<lparr>dv_priv := (put_com ul p d' u, w')\<rparr>)"
    using h(4-7) by (auto simp: uart_flow_def uw)
  ultimately show ?thesis using h(1) r uw by auto
qed

lemma step_flow:
  assumes "heap_ok L blocks" "chip_ok P (if com1_dev ul = p then COM1_BASEPORT else COM2_BASEPORT) regs"
    and "p = (if irq = COM1_IRQ then com1_dev ul else com2_dev ul)"
    and "uart_inv ul regs p fp d s" "uart_step L P ul fp irq s e s'"
  shows "\<exists>d'. uart_inv ul regs p fp d' s' \<and> uart_flow regs d s e d' s'"
  using assms(5)
proof cases
  case (step_write user sz n)
  then show ?thesis using write_step_flow [OF assms(1,4,2)] by simp
next
  case (step_read user sz n user')
  then show ?thesis using read_step_flow [OF assms(1,4)] by simp
next
  case (step_irq data r priv)
  then show ?thesis using irq_step_flow [OF assms(4,3,2)] by simp
qed

text \<open>The steps of a run add up.\<close>

lemma run_flow:
  assumes "heap_ok L blocks" "chip_ok P (if com1_dev ul = p then COM1_BASEPORT else COM2_BASEPORT) regs"
    and "p = (if irq = COM1_IRQ then com1_dev ul else com2_dev ul)" "uart_inv ul regs p fp d0 s0"
    and "uart_run L P ul fp irq s0 es s"
  shows "\<exists>d. uart_inv ul regs p fp d s \<and>
    r_sent (regs (snd (dv_priv s))) @ kfifo_bytes (cm_out d) =
      r_sent (regs (snd (dv_priv s0))) @ kfifo_bytes (cm_out d0) @ concat (map written es) \<and>
    (\<exists>stored taken. concat (map gotten es) @ kfifo_bytes (cm_in d) = kfifo_bytes (cm_in d0) @ stored \<and>
      r_taken (regs (snd (dv_priv s))) = r_taken (regs (snd (dv_priv s0))) @ taken \<and>
      subseq stored taken \<and> length taken \<le> length stored + sum_list (map interrupts es))"
  using assms(5)
proof induction
  case run_start
  show ?case using assms(4) by (intro exI [of _ d0]) auto
next
  case (run_step es s e s')
  then obtain d stored taken where d: "uart_inv ul regs p fp d s"
    "r_sent (regs (snd (dv_priv s))) @ kfifo_bytes (cm_out d) =
      r_sent (regs (snd (dv_priv s0))) @ kfifo_bytes (cm_out d0) @ concat (map written es)"
    "concat (map gotten es) @ kfifo_bytes (cm_in d) = kfifo_bytes (cm_in d0) @ stored"
    "r_taken (regs (snd (dv_priv s))) = r_taken (regs (snd (dv_priv s0))) @ taken"
    "subseq stored taken" "length taken \<le> length stored + sum_list (map interrupts es)" by blast
  obtain d' where d': "uart_inv ul regs p fp d' s'" "uart_flow regs d s e d' s'"
    using step_flow [OF assms(1-3) d(1) run_step.hyps(2)] by blast
  then obtain st lost where f: "r_sent (regs (snd (dv_priv s'))) @ kfifo_bytes (cm_out d') =
       r_sent (regs (snd (dv_priv s))) @ kfifo_bytes (cm_out d) @ written e"
    "gotten e @ kfifo_bytes (cm_in d') = kfifo_bytes (cm_in d) @ st"
    "r_taken (regs (snd (dv_priv s'))) = r_taken (regs (snd (dv_priv s))) @ st @ lost" "length lost \<le> interrupts e"
    by (auto simp: uart_flow_def)
  have "subseq (stored @ st) (taken @ st @ lost)"
    using d(5) by (intro list_emb_append_mono) (auto intro: list_emb_append2 simp: subseq_append_le_same_iff)
  moreover have "length (taken @ st @ lost) \<le> length (stored @ st) + sum_list (map interrupts (es @ [e]))"
    using d(6) f(4) by simp
  moreover have "concat (map gotten (es @ [e])) @ kfifo_bytes (cm_in d') = kfifo_bytes (cm_in d0) @ (stored @ st)"
    using f(2) d(3) by (metis append.assoc concat.simps concat_append list.simps(8,9) map_append append_Nil2)
  moreover have "r_sent (regs (snd (dv_priv s'))) @ kfifo_bytes (cm_out d') =
      r_sent (regs (snd (dv_priv s0))) @ kfifo_bytes (cm_out d0) @ concat (map written (es @ [e]))"
    using f(1) d(2) by simp
  moreover have "r_taken (regs (snd (dv_priv s'))) = r_taken (regs (snd (dv_priv s0))) @ (taken @ st @ lost)"
    using f(3) d(4) by simp
  ultimately show ?case using d'(1) by blast
qed

section \<open>A sample run\<close>

definition sample_drv :: "u8 list \<Rightarrow> ((addr \<times> nat) list, sim_chip) uart_drv" where
  "sample_drv rx = \<lparr>dv_mem = [], dv_filps = [0x900 \<mapsto> \<lparr>private_data = Some 0x4000\<rparr>], dv_priv = (sample_uart, fresh_chip rx)\<rparr>"

lemma sample_drv_inv: "uart_inv sample_ul sim_regs 0x4000 0x900 (sample_com COM2_BASEPORT) (sample_drv rx)"
  using sample_com_ok [of COM2_BASEPORT] fresh_chip_no_dlab [of rx]
  by (simp add: uart_inv_def sample_drv_def sample_ul_def sample_uart_def com_at_def)

lemma sample_run:
  obtains s where "uart_run log_libc (sim_ports COM2_BASEPORT) sample_ul 0x900 COM2_IRQ (sample_drv [7]) [Wrote [104, 105], Interrupted] s"
proof -
  let ?P = "sim_ports COM2_BASEPORT" and ?s = "sample_drv [7]" and ?d = "sample_com COM2_BASEPORT"
  have port: "(if com1_dev sample_ul = 0x4000 then COM1_BASEPORT else COM2_BASEPORT) = COM2_BASEPORT"
    "(if COM2_IRQ = COM1_IRQ then com1_dev sample_ul else com2_dev sample_ul) = 0x4000"
    by (simp_all add: sample_ul_def COM2_IRQ_def COM1_IRQ_def)
  obtain bs m where mem: "kmalloc log_libc False 2 GFP_KERNEL (dv_mem ?s) = (Some (0x1000, bs), m)"
    by (simp add: kmalloc_def kmalloc_rt_def log_libc_def log_alloc_def sample_drv_def GFP_KERNEL_def GFP_ZERO_def)
  have at: "com_at sample_ul 0x4000 (fst (dv_priv ?s)) = Some ?d" by (simp add: sample_ul_def sample_drv_def sample_uart_def com_at_def)
  obtain s1 d1 where s1: "uart16550_write log_libc ?P sample_ul 0x900 [104, 105] 2 ?s = Some (int 2, s1)"
    "fst (dv_priv s1) = put_com sample_ul 0x4000 d1 (fst (dv_priv ?s))" "com_ok d1" "cm_base_port d1 = cm_base_port ?d"
    "sim_regs (snd (dv_priv s1)) = (sim_regs (snd (dv_priv ?s)))\<lparr>r_ier := 0x03\<rparr>"
  proof -
    have f: "dv_filps ?s 0x900 = Some \<lparr>private_data = Some 0x4000\<rparr>" "private_data \<lparr>private_data = Some (0x4000 :: addr)\<rparr> = Some 0x4000"
      by (simp_all add: sample_drv_def)
    have c: "chip_ok ?P (if com1_dev sample_ul = 0x4000 then COM1_BASEPORT else COM2_BASEPORT) sim_regs"
      unfolding port(1) by (rule sim_chip_ok)
    have nd: "\<not> dlab (sim_regs (snd (dv_priv ?s)))" using fresh_chip_no_dlab [of "[7]"] by (simp add: sample_drv_def)
    have room: "length (kfifo_bytes (cm_out ?d)) < 4096" by (simp add: sample_com_ok)
    have k: "(2 :: nat) = min (unat (2 :: u32)) (4096 - length (kfifo_bytes (cm_out ?d)))" by (simp add: sample_com_ok)
    have u: "unat (2 :: u32) \<le> length [104, 105 :: u8]" by simp
    show thesis using uart_write_result [OF log_libc_ok f at sample_com_ok(1) c nd room mem u k] that by blast
  qed
  have at1: "com_at sample_ul 0x4000 (fst (dv_priv s1)) = Some d1" unfolding s1(2) by (rule com_at_put [OF at])
  have nd: "\<not> dlab (sim_regs (snd (dv_priv s1)))"
    using fresh_chip_no_dlab [of "[7]"] by (simp add: s1(5) dlab_def sample_drv_def)
  obtain r priv where i: "interrupt_handler ?P sample_ul COM2_IRQ 0 (dv_priv s1) = Some (r, priv)"
  proof -
    have c: "chip_ok ?P (cm_base_port d1) sim_regs" using sim_chip_ok [of COM2_BASEPORT] s1(4) by simp
    have a: "com_at sample_ul (if COM2_IRQ = COM1_IRQ then com1_dev sample_ul else com2_dev sample_ul) (fst (dv_priv s1)) = Some d1"
      unfolding port(2) by (rule at1)
    show thesis using interrupt_result [OF c nd a s1(3), of 0] that by auto
  qed
  have "uart_step log_libc ?P sample_ul 0x900 COM2_IRQ ?s (Wrote [104, 105]) s1" using step_write [OF s1(1)] by simp
  from run_step [OF run_start this] have "uart_run log_libc ?P sample_ul 0x900 COM2_IRQ ?s [Wrote [104, 105]] s1" by simp
  from run_step [OF this step_irq [OF i]] show thesis by (intro that) simp
qed

section \<open>Properties\<close>



end
