(* ===== verification/Uart_Init.thy ===== *)
theory Uart_Init
  imports Uart
begin

text \<open>
  Loading and unloading of the serial driver: when the allocator and the interrupt server grant
  what it asks for, \<open>uart16550_init\<close> registers \<open>/dev/com2\<close> with its operations, sets up the
  device and the controller and requests the interrupt; unloading never succeeds.
\<close>

section \<open>Registration of a device\<close>

lemma init_com_dev_ok:
  assumes ok: "dev_ok (ul_dev ul) blocks (kn_dev s) (cl # cs) ds"
    and new: "ds_regs (kn_dev s) cl = Some \<lparr>sc_cdev = 0, sc_name = nm, sc_dev = dev\<rparr>"
    and dev: "dev = MKDEV (word_of_int (ua_major (kn_uart s))) minor"
    and others: "\<forall>c \<in> set (registry (kn_dev s) cs). sc_dev c \<noteq> dev"
    and cd: "ds_cdevs (kn_dev s) (device + cdev_off ul) = Some cd"
  shows "\<exists>R. init_com_dev ul device minor s = Some (0, s\<lparr>kn_dev := (kn_dev s)\<lparr>
        ds_cdevs := (ds_cdevs (kn_dev s))(device + cdev_off ul \<mapsto> cd\<lparr>cd_ops := Some (fops_at ul)\<rparr>), ds_regs := R\<rparr>\<rparr>) \<and>
    R cl = Some \<lparr>sc_cdev = device + cdev_off ul, sc_name = nm, sc_dev = dev\<rparr> \<and>
    (\<forall>p \<in> set cs. R p = ds_regs (kn_dev s) p) \<and>
    dev_ok (ul_dev ul) blocks ((kn_dev s)\<lparr>ds_cdevs := (ds_cdevs (kn_dev s))(device + cdev_off ul \<mapsto> cd\<lparr>cd_ops := Some (fops_at ul)\<rparr>),
      ds_regs := R\<rparr>) (cl # cs) ds"
proof -
  define d where "d = (kn_dev s)\<lparr>ds_cdevs := (ds_cdevs (kn_dev s))(device + cdev_off ul \<mapsto> cd\<lparr>cd_ops := Some (fops_at ul)\<rparr>)\<rparr>"
  have i: "cdev_init (device + cdev_off ul) (fops_at ul) (kn_dev s) = Some d" "cdev_init (device + cdev_off ul) (fops_at ul) d = Some d"
    using cd by (simp_all add: cdev_init_def d_def)
  have okd: "dev_ok (ul_dev ul) blocks d (cl # cs) ds" using ok by (simp add: d_def)
  have r: "registry d (cl # cs) = \<lparr>sc_cdev = 0, sc_name = nm, sc_dev = dev\<rparr> # registry (kn_dev s) cs"
    using new by (simp add: d_def registry_def)
  have a: "attach (device + cdev_off ul) dev (registry d (cl # cs)) =
      (0, \<lparr>sc_cdev = device + cdev_off ul, sc_name = nm, sc_dev = dev\<rparr> # registry (kn_dev s) cs)"
  proof -
    have "map (\<lambda>c. if sc_dev c = dev then c\<lparr>sc_cdev := device + cdev_off ul\<rparr> else c) (registry (kn_dev s) cs) = registry (kn_dev s) cs"
      using others by (intro map_idI) simp
    then show ?thesis using others unfolding r by (subst attach_free) auto
  qed
  obtain R where R: "cdev_add (ul_dev ul) (device + cdev_off ul) dev 1 d = Some (0, d\<lparr>ds_regs := R\<rparr>)"
    "registry (d\<lparr>ds_regs := R\<rparr>) (cl # cs) = \<lparr>sc_cdev = device + cdev_off ul, sc_name = nm, sc_dev = dev\<rparr> # registry (kn_dev s) cs"
    "dev_ok (ul_dev ul) blocks (d\<lparr>ds_regs := R\<rparr>) (cl # cs) ds"
    using cdev_add_ok [OF okd, of "device + cdev_off ul" dev 1] unfolding a by auto
  have e: "R p = Some (the (R p))" if "p \<in> set (cl # cs)" for p using dev_okD(4) [OF R(3)] that by fastforce
  have "R cl = Some \<lparr>sc_cdev = device + cdev_off ul, sc_name = nm, sc_dev = dev\<rparr>" using e [of cl] R(2) by (simp add: registry_def)
  moreover have "R p = ds_regs (kn_dev s) p" if "p \<in> set cs" for p
    using e [of p] dev_okD(4) [OF ok, of p] R(2) that by (simp add: registry_def)
  moreover have "init_com_dev ul device minor s = Some (0, s\<lparr>kn_dev := d\<lparr>ds_regs := R\<rparr>\<rparr>)"
    using i R(1) by (simp add: init_com_dev_def dev)
  ultimately show ?thesis using R(3) unfolding d_def by blast
qed

section \<open>Initialisation of one device\<close>

text \<open>An interrupt server that accepts every registration.\<close>

definition srv_ok :: "'i irq_server \<Rightarrow> bool" where
  "srv_ok S \<longleftrightarrow> (\<forall>irq token i. \<exists>h i'. srv_register S irq token i = (Some h, i'))"

text \<open>What one device asks the allocator for: the token of its interrupt, the device, its name and its
  class, and the region with its name.\<close>

definition device_requests :: "uart_layout \<Rightarrow> string \<Rightarrow> string \<Rightarrow> request list" where
  "device_requests ul name nm = [Malloc sz_IRQData, Malloc (sz_device (ul_dev ul)), Calloc 1 (strlen name), Malloc sz_seL4_Class,
     Malloc sz_resource, Calloc 1 (strlen nm)]"

text \<open>The state of a loaded device: registered as the first class, with the driver's operations, its
  interrupt token in place, its fifos empty and its controller set up.\<close>

definition device_ready :: "uart_layout \<Rightarrow> ('w \<Rightarrow> uart_regs) \<Rightarrow> addr \<Rightarrow> string \<Rightarrow> dev_t \<Rightarrow> u32 \<Rightarrow> addr \<Rightarrow> addr \<Rightarrow> com_dev \<Rightarrow> ('h, 'w, 'i) kern \<Rightarrow> bool" where
  "device_ready ul regs device name dev port cl token d s \<longleftrightarrow> cl \<noteq> 0 \<and>
     ds_regs (kn_dev s) cl = Some \<lparr>sc_cdev = device + cdev_off ul, sc_name = take 255 (''/dev/'' @ name), sc_dev = dev\<rparr> \<and>
     (\<exists>c. ds_cdevs (kn_dev s) (device + cdev_off ul) = Some c \<and> cd_ops c = Some (fops_at ul)) \<and>
     (\<exists>h. kn_tokens s token = Some \<lparr>real_handler = Some Uart_Interrupt_Handler, tk_irq = Some h, tk_dev = Some device\<rparr>) \<and>
     com_at ul device (kn_uart s) = Some d \<and> com_ok d \<and> kfifo_bytes (cm_in d) = [] \<and> kfifo_bytes (cm_out d) = [] \<and>
     cm_base_port d = port \<and> \<not> dlab (regs (kn_hw s))"

lemma device_requestsE:
  assumes "grants L (device_requests ul name nm) m0"
  obtains tok tb m1 dv db m2 b bb m3 cl cb m4 out ob m5 q qb m6
  where "ext_malloc L sz_IRQData m0 = (Some (tok, tb), m1)" "ext_malloc L (sz_device (ul_dev ul)) m1 = (Some (dv, db), m2)"
    "ext_calloc L 1 (strlen name) m2 = (Some (b, bb), m3)" "ext_malloc L sz_seL4_Class m3 = (Some (cl, cb), m4)"
    "ext_malloc L sz_resource m4 = (Some (out, ob), m5)" "ext_calloc L 1 (strlen nm) m5 = (Some (q, qb), m6)"
    "granted L (device_requests ul name nm) m0 = m6"
    "grants L [Calloc 1 (strlen name), Malloc sz_seL4_Class, Malloc sz_resource, Calloc 1 (strlen nm)] m2"
    "granted L [Calloc 1 (strlen name), Malloc sz_seL4_Class, Malloc sz_resource, Calloc 1 (strlen nm)] m2 = m6"
proof -
  obtain tok tb m1 where 1: "serve L (Malloc sz_IRQData) m0 = (Some (tok, tb), m1)"
    "grants L [Malloc (sz_device (ul_dev ul)), Calloc 1 (strlen name), Malloc sz_seL4_Class, Malloc sz_resource, Calloc 1 (strlen nm)] m1"
    by (rule grantsE [OF assms [unfolded device_requests_def]])
  obtain dv db m2 where 2: "serve L (Malloc (sz_device (ul_dev ul))) m1 = (Some (dv, db), m2)"
    "grants L [Calloc 1 (strlen name), Malloc sz_seL4_Class, Malloc sz_resource, Calloc 1 (strlen nm)] m2"
    by (rule grantsE [OF 1(2)])
  obtain b bb m3 where 3: "serve L (Calloc 1 (strlen name)) m2 = (Some (b, bb), m3)"
    "grants L [Malloc sz_seL4_Class, Malloc sz_resource, Calloc 1 (strlen nm)] m3" by (rule grantsE [OF 2(2)])
  obtain cl cb m4 where 4: "serve L (Malloc sz_seL4_Class) m3 = (Some (cl, cb), m4)"
    "grants L [Malloc sz_resource, Calloc 1 (strlen nm)] m4" by (rule grantsE [OF 3(2)])
  obtain out ob m5 where 5: "serve L (Malloc sz_resource) m4 = (Some (out, ob), m5)"
    "grants L [Calloc 1 (strlen nm)] m5" by (rule grantsE [OF 4(2)])
  obtain q qb m6 where 6: "serve L (Calloc 1 (strlen nm)) m5 = (Some (q, qb), m6)" by (rule grantsE [OF 5(2)])
  have g: "granted L (device_requests ul name nm) m0 = m6"
    "granted L [Calloc 1 (strlen name), Malloc sz_seL4_Class, Malloc sz_resource, Calloc 1 (strlen nm)] m2 = m6"
    by (simp_all only: device_requests_def granted.simps 1(1) 2(1) 3(1) 4(1) 5(1) 6(1) snd_conv)
  show thesis
    by (rule that [OF 1(1) [unfolded serve.simps] 2(1) [unfolded serve.simps] 3(1) [unfolded serve.simps]
          4(1) [unfolded serve.simps] 5(1) [unfolded serve.simps] 6 [unfolded serve.simps] g(1) 2(2) g(2)])
qed

lemma uart_register_ok:
  assumes heap: "heap_ok L blocks" and ok: "dev_ok (ul_dev ul) blocks (kn_dev s) cs ds" and srv: "srv_ok S"
    and cls: "ds_classes (kn_dev s) (ua_class (kn_uart s)) \<noteq> None"
    and com: "com_at ul device (kn_uart s) = Some c" "length (snd (cm_inbuf c)) = 4096" "length (snd (cm_outbuf c)) = 4096"
    and nm: "kn_module s = Some nm" "length nm < 2 ^ 32" and name: "length name < 2 ^ 32"
    and chip: "chip_ok P port regs" "\<not> dlab (regs (kn_hw s))"
    and dev: "dev = MKDEV (word_of_int (ua_major (kn_uart s))) minor"
    and mem: "grants L (device_requests ul name nm) (ds_mem (kn_dev s))"
    and low: "\<forall>p. blocks (granted L (device_requests ul name nm) (ds_mem (kn_dev s))) p \<noteq> None \<longrightarrow> \<not> IS_ERR p"
  shows "\<exists>s4 d cl tok h. uart16550_init_device L P S ul device (ua_major (kn_uart s)) minor name port irq s =
      do { (rc, s) \<leftarrow> init_com_dev ul device minor s4;
           if rc \<noteq> 0 then fail_init_com_dev P ul port irq device dev rc s else Some (0, s) } \<and>
    dev_ok (ul_dev ul) blocks (kn_dev s4) (cl # cs) ds \<and> cl \<noteq> 0 \<and>
    ds_regs (kn_dev s4) = (ds_regs (kn_dev s))(cl \<mapsto> \<lparr>sc_cdev = 0, sc_name = take 255 (''/dev/'' @ name), sc_dev = dev\<rparr>) \<and>
    ds_cdevs (kn_dev s4) = ds_cdevs (kn_dev s) \<and> ds_ops (kn_dev s4) = ds_ops (kn_dev s) \<and> ds_classes (kn_dev s4) = ds_classes (kn_dev s) \<and>
    ds_mem (kn_dev s4) = granted L (device_requests ul name nm) (ds_mem (kn_dev s)) \<and>
    kn_uart s4 = put_com ul device d (kn_uart s) \<and> kn_module s4 = kn_module s \<and>
    kn_tokens s4 tok = Some \<lparr>real_handler = Some Uart_Interrupt_Handler, tk_irq = Some h, tk_dev = Some device\<rparr> \<and>
    com_ok d \<and> kfifo_bytes (cm_in d) = [] \<and> kfifo_bytes (cm_out d) = [] \<and> cm_base_port d = port \<and>
    \<not> dlab (regs (kn_hw s4)) \<and> r_sent (regs (kn_hw s4)) = r_sent (regs (kn_hw s)) \<and> lists_kept blocks (kn_dev s) (kn_dev s4)"
proof -
  obtain tok tb m1 dv db m2 b bb m3 cl cb m4 out ob m5 q qb m6
  where m1: "ext_malloc L sz_IRQData (ds_mem (kn_dev s)) = (Some (tok, tb), m1)" and m2: "ext_malloc L (sz_device (ul_dev ul)) m1 = (Some (dv, db), m2)"
    and m3: "ext_calloc L 1 (strlen name) m2 = (Some (b, bb), m3)" and m4: "ext_malloc L sz_seL4_Class m3 = (Some (cl, cb), m4)"
    and m5: "ext_malloc L sz_resource m4 = (Some (out, ob), m5)" and m6: "ext_calloc L 1 (strlen nm) m5 = (Some (q, qb), m6)"
    and g: "granted L (device_requests ul name nm) (ds_mem (kn_dev s)) = m6"
      "grants L [Calloc 1 (strlen name), Malloc sz_seL4_Class, Malloc sz_resource, Calloc 1 (strlen nm)] m2"
      "granted L [Calloc 1 (strlen name), Malloc sz_seL4_Class, Malloc sz_resource, Calloc 1 (strlen nm)] m2 = m6"
    by (rule device_requestsE [OF mem])
  have "new_block (blocks m1) (blocks m2) dv (unat (sz_device (ul_dev ul)))"
    using heap_ok_malloc [OF heap, of "sz_device (ul_dev ul)" m1] m2 by (simp add: alloc_law_Some)
  then have "blocks m6 dv \<noteq> None" using granted_keeps [OF heap g(2)] unfolding g(3) by (fastforce simp: new_block_def)
  then have noerr: "\<not> IS_ERR dv" using low unfolding g(1) by blast
  have cl: "cl \<noteq> 0" using heap_ok_malloc [OF heap, of sz_seL4_Class m3] m4 by (simp add: alloc_law_Some new_block_def)
  define c1 where "c1 = c\<lparr>cm_minor := minor, cm_irq := irq, cm_base_port := port\<rparr>"
  obtain d where d: "init_struct c1 = Some d" "com_ok d" "kfifo_bytes (cm_in d) = []" "kfifo_bytes (cm_out d) = []" "cm_base_port d = port"
    using init_struct_ok [of c1] com(2,3) by (auto simp: c1_def)
  obtain h i where hi: "srv_register S irq tok (kn_srv s) = (Some h, i)" using srv unfolding srv_ok_def by blast
  define toks where "toks = (kn_tokens s)(tok \<mapsto> \<lparr>real_handler = Some Uart_Interrupt_Handler, tk_irq = Some h, tk_dev = Some device\<rparr>)"
  define s1 where "s1 = s\<lparr>kn_uart := put_com ul device d (kn_uart s)\<rparr>"
  define s2 where "s2 = s1\<lparr>kn_dev := (kn_dev s)\<lparr>ds_mem := m1\<rparr>, kn_srv := i, kn_tokens := toks\<rparr>"
  have irq: "request_irq L S irq Uart_Interrupt_Handler IRQF_SHARED device (irq_view s1) =
      Some (0, (irq_view s1)\<lparr>is_mem := m1, is_srv := i, is_tokens := toks\<rparr>)"
    "new_block (blocks (ds_mem (kn_dev s))) (blocks m1) tok 12"
    using request_irq_result [OF heap, of "irq_view s1" tok tb m1 S irq h i] m1 hi by (simp_all add: irq_view_def s1_def toks_def)
  have s2: "put_irq ((irq_view s1)\<lparr>is_mem := m1, is_srv := i, is_tokens := toks\<rparr>) s1 = s2"
    by (simp add: put_irq_def irq_view_def s1_def s2_def)
  have ok2: "dev_ok (ul_dev ul) blocks (kn_dev s2) cs ds" using dev_ok_new [OF ok irq(2)] by (simp add: s2_def)
  have u: "ua_class (put_com ul device d (kn_uart s)) = ua_class (kn_uart s)" by (simp add: put_com_def)
  have cls2: "ds_classes (kn_dev s2) (ua_class (kn_uart s2)) \<noteq> None" using cls u by (simp add: s2_def s1_def)
  have m2': "ext_malloc L (sz_device (ul_dev ul)) (ds_mem (kn_dev s2)) = (Some (dv, db), m2)" using m2 by (simp add: s2_def)
  obtain d3 where d3: "device_create L (ul_dev ul) (ua_class (kn_uart s2)) 0 dev 0 name (kn_dev s2) = Some (dv, d3)"
    "dev_ok (ul_dev ul) blocks d3 (cl # cs) ds"
    "ds_regs d3 = (ds_regs (kn_dev s2))(cl \<mapsto> \<lparr>sc_cdev = 0, sc_name = take 255 (''/dev/'' @ name), sc_dev = dev\<rparr>)"
    "ds_mem d3 = m4" "ds_cdevs d3 = ds_cdevs (kn_dev s2)" "ds_ops d3 = ds_ops (kn_dev s2)" "ds_classes d3 = ds_classes (kn_dev s2)"
    "lists_kept blocks (kn_dev s2) d3"
    using device_create_ok [OF heap ok2 cls2 name m2' m3 m4, of 0 dev 0] by blast
  have m5': "ext_malloc L sz_resource (ds_mem d3) = (Some (out, ob), m5)" using m5 d3(4) by simp
  obtain rs d4 where d4: "request_region L (ioport_at ul) port NR_IO_PORTS (Some nm) (kn_res s2, d3) = Some (out, rs, d4)" "out \<noteq> 0"
    "dev_ok (ul_dev ul) blocks d4 (cl # cs) ds" "ds_mem d4 = m6" "ds_regs d4 = ds_regs d3" "ds_cdevs d4 = ds_cdevs d3"
    "ds_ops d4 = ds_ops d3" "ds_classes d4 = ds_classes d3" "lists_kept blocks d3 d4"
    using request_region_result [OF heap d3(2) nm(2) m5' m6, of "ioport_at ul" port NR_IO_PORTS "kn_res s2"] by blast
  obtain w where w: "uart16550_hw_setup_device L P (ioport_at ul) port (Some nm) (kn_res s2, d3) (kn_hw s) = Some (0, (rs, d4), w)"
    "\<not> dlab (regs w)" "r_sent (regs w) = r_sent (regs (kn_hw s))"
    by (rule setup_device_result [OF chip d4(1,2)])
  define s4 where "s4 = s2\<lparr>kn_res := rs, kn_dev := d4, kn_hw := w\<rparr>"
  have s4: "kn_dev s4 = d4" "kn_uart s4 = put_com ul device d (kn_uart s)" by (simp_all add: s4_def s2_def s1_def)
  have reg4: "ds_regs d4 = (ds_regs (kn_dev s))(cl \<mapsto> \<lparr>sc_cdev = 0, sc_name = take 255 (''/dev/'' @ name), sc_dev = dev\<rparr>)"
    using d3(3) d4(5) by (simp add: s2_def)
  have e: "s\<lparr>kn_uart := put_com ul device d (kn_uart s), kn_dev := kn_dev s\<rparr> = s1"
    "s2\<lparr>kn_dev := d3, kn_res := rs, kn_dev := d4, kn_hw := w\<rparr> = s4" by (simp_all add: s1_def s4_def)
  have f: "kn_module (s2\<lparr>kn_dev := d3\<rparr>) = Some nm" "kn_res (s2\<lparr>kn_dev := d3\<rparr>) = kn_res s2" "kn_dev (s2\<lparr>kn_dev := d3\<rparr>) = d3"
    "kn_hw (s2\<lparr>kn_dev := d3\<rparr>) = kn_hw s" using nm(1) by (simp_all add: s2_def s1_def)
  have "uart16550_init_device L P S ul device (ua_major (kn_uart s)) minor name port irq s =
      do { (rc, s) \<leftarrow> init_com_dev ul device minor s4;
           if rc \<noteq> 0 then fail_init_com_dev P ul port irq device dev rc s else Some (0, s) }"
    unfolding uart16550_init_device_def Let_def register_chrdev_region_def split_conv com(1) bind.bind_lunit dev [symmetric]
      c1_def [symmetric] d(1) e(1) irq(1) s2 d3(1) f w(1) e(2) by (simp add: noerr)
  moreover have "lists_kept blocks (kn_dev s) (kn_dev s2)" by (rule lists_kept_new [of _ _ _ tok 12]) (use irq(2) in \<open>simp_all add: s2_def\<close>)
  then have "lists_kept blocks (kn_dev s) (kn_dev s4)" unfolding s4(1) using d3(8) d4(9) lists_kept_trans by blast
  ultimately show ?thesis
    using d(2-5) d3(5-7) d4(3-8) reg4 w(2,3) g(1) cl
    by (intro exI [of _ s4] exI [of _ d] exI [of _ cl] exI [of _ tok] exI [of _ h])
      (simp add: s4_def s2_def s1_def toks_def)
qed

lemma uart_init_device_ok:
  assumes heap: "heap_ok L blocks" and ok: "dev_ok (ul_dev ul) blocks (kn_dev s) cs ds" and srv: "srv_ok S"
    and cls: "ds_classes (kn_dev s) (ua_class (kn_uart s)) \<noteq> None"
    and com: "com_at ul device (kn_uart s) = Some c" "length (snd (cm_inbuf c)) = 4096" "length (snd (cm_outbuf c)) = 4096"
    and nm: "kn_module s = Some nm" "length nm < 2 ^ 32" and name: "length name < 2 ^ 32"
    and chip: "chip_ok P port regs" "\<not> dlab (regs (kn_hw s))"
    and cd: "ds_cdevs (kn_dev s) (device + cdev_off ul) = Some cd"
    and dev: "dev = MKDEV (word_of_int (ua_major (kn_uart s))) minor"
    and others: "\<forall>c \<in> set (registry (kn_dev s) cs). sc_dev c \<noteq> dev"
    and mem: "grants L (device_requests ul name nm) (ds_mem (kn_dev s))"
    and low: "\<forall>p. blocks (granted L (device_requests ul name nm) (ds_mem (kn_dev s))) p \<noteq> None \<longrightarrow> \<not> IS_ERR p"
  shows "\<exists>s' d cl token. uart16550_init_device L P S ul device (ua_major (kn_uart s)) minor name port irq s = Some (0, s') \<and>
    dev_ok (ul_dev ul) blocks (kn_dev s') (cl # cs) ds \<and> device_ready ul regs device name dev port cl token d s' \<and>
    (\<forall>p \<in> set cs. ds_regs (kn_dev s') p = ds_regs (kn_dev s) p) \<and>
    ds_ops (kn_dev s') = ds_ops (kn_dev s) \<and> ds_classes (kn_dev s') = ds_classes (kn_dev s) \<and>
    ds_mem (kn_dev s') = granted L (device_requests ul name nm) (ds_mem (kn_dev s)) \<and>
    kn_uart s' = put_com ul device d (kn_uart s) \<and> kn_module s' = kn_module s \<and>
    r_sent (regs (kn_hw s')) = r_sent (regs (kn_hw s)) \<and> lists_kept blocks (kn_dev s) (kn_dev s')"
proof -
  obtain s4 d cl tok h where A: "uart16550_init_device L P S ul device (ua_major (kn_uart s)) minor name port irq s =
      do { (rc, s) \<leftarrow> init_com_dev ul device minor s4;
           if rc \<noteq> 0 then fail_init_com_dev P ul port irq device dev rc s else Some (0, s) }"
    and ok4: "dev_ok (ul_dev ul) blocks (kn_dev s4) (cl # cs) ds" and cl: "cl \<noteq> 0"
    and reg4: "ds_regs (kn_dev s4) = (ds_regs (kn_dev s))(cl \<mapsto> \<lparr>sc_cdev = 0, sc_name = take 255 (''/dev/'' @ name), sc_dev = dev\<rparr>)"
    and cd4: "ds_cdevs (kn_dev s4) = ds_cdevs (kn_dev s)" and u4: "kn_uart s4 = put_com ul device d (kn_uart s)"
    and tok: "kn_tokens s4 tok = Some \<lparr>real_handler = Some Uart_Interrupt_Handler, tk_irq = Some h, tk_dev = Some device\<rparr>"
    and d: "com_ok d" "kfifo_bytes (cm_in d) = []" "kfifo_bytes (cm_out d) = []" "cm_base_port d = port" "\<not> dlab (regs (kn_hw s4))"
    and rest: "ds_ops (kn_dev s4) = ds_ops (kn_dev s)" "ds_classes (kn_dev s4) = ds_classes (kn_dev s)" "kn_module s4 = kn_module s"
      "ds_mem (kn_dev s4) = granted L (device_requests ul name nm) (ds_mem (kn_dev s))" "r_sent (regs (kn_hw s4)) = r_sent (regs (kn_hw s))"
      "lists_kept blocks (kn_dev s) (kn_dev s4)"
    using uart_register_ok [OF heap ok srv cls com nm name chip dev mem low] by blast
  have clcs: "cl \<notin> set cs" using objs_distinct [OF dev_okD(2) [OF ok4]] by simp
  have new4: "ds_regs (kn_dev s4) cl = Some \<lparr>sc_cdev = 0, sc_name = take 255 (''/dev/'' @ name), sc_dev = dev\<rparr>" using reg4 by simp
  have dev4: "dev = MKDEV (word_of_int (ua_major (kn_uart s4))) minor" using dev by (simp add: u4 put_com_def)
  have others4: "\<forall>c \<in> set (registry (kn_dev s4) cs). sc_dev c \<noteq> dev" using others clcs reg4 by (auto simp: registry_def)
  have cd4': "ds_cdevs (kn_dev s4) (device + cdev_off ul) = Some cd" using cd cd4 by simp
  obtain R where R: "init_com_dev ul device minor s4 = Some (0, s4\<lparr>kn_dev := (kn_dev s4)\<lparr>
        ds_cdevs := (ds_cdevs (kn_dev s4))(device + cdev_off ul \<mapsto> cd\<lparr>cd_ops := Some (fops_at ul)\<rparr>), ds_regs := R\<rparr>\<rparr>)"
    "R cl = Some \<lparr>sc_cdev = device + cdev_off ul, sc_name = take 255 (''/dev/'' @ name), sc_dev = dev\<rparr>"
    "\<forall>p \<in> set cs. R p = ds_regs (kn_dev s4) p"
    "dev_ok (ul_dev ul) blocks ((kn_dev s4)\<lparr>ds_cdevs := (ds_cdevs (kn_dev s4))(device + cdev_off ul \<mapsto> cd\<lparr>cd_ops := Some (fops_at ul)\<rparr>),
      ds_regs := R\<rparr>) (cl # cs) ds"
    using init_com_dev_ok [OF ok4 new4 dev4 others4 cd4'] by blast
  define s5 where "s5 = s4\<lparr>kn_dev := (kn_dev s4)\<lparr>
        ds_cdevs := (ds_cdevs (kn_dev s4))(device + cdev_off ul \<mapsto> cd\<lparr>cd_ops := Some (fops_at ul)\<rparr>), ds_regs := R\<rparr>\<rparr>"
  have "uart16550_init_device L P S ul device (ua_major (kn_uart s)) minor name port irq s = Some (0, s5)"
    unfolding A R(1) by (simp add: s5_def)
  moreover have "dev_ok (ul_dev ul) blocks (kn_dev s5) (cl # cs) ds" using R(4) by (simp add: s5_def)
  moreover have "device_ready ul regs device name dev port cl tok d s5"
    using R(2) tok d cl com_at_put [OF com(1)] by (simp add: device_ready_def s5_def u4)
  moreover have "\<forall>p \<in> set cs. ds_regs (kn_dev s5) p = ds_regs (kn_dev s) p" using R(3) reg4 clcs by (auto simp: s5_def)
  moreover have "ds_ops (kn_dev s5) = ds_ops (kn_dev s4)" "ds_classes (kn_dev s5) = ds_classes (kn_dev s4)" "ds_mem (kn_dev s5) = ds_mem (kn_dev s4)"
    "kn_uart s5 = kn_uart s4" "kn_module s5 = kn_module s4" "kn_hw s5 = kn_hw s4" by (simp_all add: s5_def)
  moreover have "lists_kept blocks (kn_dev s) (kn_dev s5)"
    by (rule lists_kept_trans [OF rest(6) lists_kept_same]) (simp_all add: s5_def)
  ultimately show ?thesis using rest u4 by metis
qed

section \<open>Loading\<close>

definition init_requests :: "uart_layout \<Rightarrow> string \<Rightarrow> request list" where
  "init_requests ul nm = [Malloc (sz_class (ul_dev ul)), Calloc 1 (strlen ''uart16550'')] @ device_requests ul ''com2'' nm"

lemma class_create_ok:
  assumes "heap_ok L blocks" "dev_ok ly blocks s cs ds" "length name < 2 ^ 32"
    and "ext_malloc L (sz_class ly) (ds_mem s) = (Some (cls, cb), m1)" "ext_calloc L 1 (strlen name) m1 = (Some (p, bs), m2)"
  shows "\<exists>s'. class_create L ly owner name k s = Some (cls, s') \<and> dev_ok ly blocks s' cs ds \<and> ds_mem s' = m2 \<and>
    ds_regs s' = ds_regs s \<and> ds_cdevs s' = ds_cdevs s \<and> ds_ops s' = ds_ops s \<and> ds_classes s' = (ds_classes s)(cls \<mapsto> p) \<and> lists_kept blocks s s'"
proof -
  have n: "new_block (blocks (ds_mem s)) (blocks m1) cls (unat (sz_class ly))"
    using heap_ok_malloc [OF assms(1), of "sz_class ly" "ds_mem s"] assms(4) by (simp add: alloc_law_Some)
  then have ok: "dev_ok ly blocks (s\<lparr>ds_mem := m1\<rparr>) cs ds" by (rule dev_ok_new [OF assms(2)])
  have m: "ext_calloc L 1 (strlen name) (ds_mem (s\<lparr>ds_mem := m1\<rparr>)) = (Some (p, bs), m2)" using assms(5) by simp
  define t where "t = s\<lparr>ds_mem := m2, ds_bufs := (ds_bufs s)(p \<mapsto> bytes_of name), ds_classes := (ds_classes s)(cls \<mapsto> p)\<rparr>"
  have "lists_kept blocks s t"
    by (rule lists_kept_trans [OF lists_kept_new [of blocks s "s\<lparr>ds_mem := m1\<rparr>" cls "unat (sz_class ly)"]
          lists_kept_trans [OF dup_name_result(4) [OF assms(1) ok assms(3) m] lists_kept_same]]) (use n in \<open>simp_all add: t_def\<close>)
  with dup_name_result(1,2) [OF assms(1) ok assms(3) m] assms(4) show ?thesis
    by (intro exI [of _ t]) (simp add: class_create_def t_def)
qed

lemma uart_init_com2_ok:
  assumes heap: "heap_ok L blocks" and ok: "dev_ok (ul_dev ul) blocks (kn_dev s) cs ds" and srv: "srv_ok S"
    and opts: "ua_behavior (kn_uart s) = OPTION_COM2" "0 \<le> ua_major (kn_uart s)" "ua_major (kn_uart s) < 2 ^ 13"
    and com: "com1_dev ul \<noteq> com2_dev ul" "length (snd (cm_inbuf (ua_com2 (kn_uart s)))) = 4096" "length (snd (cm_outbuf (ua_com2 (kn_uart s)))) = 4096"
    and nm: "kn_module s = Some nm" "length nm < 2 ^ 32"
    and chip: "chip_ok P COM2_BASEPORT regs" "\<not> dlab (regs (kn_hw s))"
    and cd: "ds_cdevs (kn_dev s) (com2_dev ul + cdev_off ul) = Some cd"
    and dev: "dev = MKDEV (word_of_int (ua_major (kn_uart s))) 1"
    and others: "\<forall>c \<in> set (registry (kn_dev s) cs). sc_dev c \<noteq> dev"
    and mem: "grants L (init_requests ul nm) (ds_mem (kn_dev s))"
    and low: "\<forall>p. blocks (granted L (init_requests ul nm) (ds_mem (kn_dev s))) p \<noteq> None \<longrightarrow> \<not> IS_ERR p"
  shows "\<exists>s' d cl token. uart16550_init L P S ul s = Some (0, s') \<and> dev_ok (ul_dev ul) blocks (kn_dev s') (cl # cs) ds \<and>
    device_ready ul regs (com2_dev ul) ''com2'' dev COM2_BASEPORT cl token d s' \<and>
    (\<forall>p \<in> set cs. ds_regs (kn_dev s') p = ds_regs (kn_dev s) p) \<and> ds_ops (kn_dev s') = ds_ops (kn_dev s) \<and>
    ds_mem (kn_dev s') = granted L (init_requests ul nm) (ds_mem (kn_dev s)) \<and> r_sent (regs (kn_hw s')) = r_sent (regs (kn_hw s)) \<and>
    lists_kept blocks (kn_dev s) (kn_dev s')"
proof -
  obtain cls cb m1 where m1: "serve L (Malloc (sz_class (ul_dev ul))) (ds_mem (kn_dev s)) = (Some (cls, cb), m1)"
    "grants L (Calloc 1 (strlen ''uart16550'') # device_requests ul ''com2'' nm) m1"
    by (rule grantsE [OF mem [unfolded init_requests_def append.simps]])
  obtain p pb m2 where m2: "serve L (Calloc 1 (strlen ''uart16550'')) m1 = (Some (p, pb), m2)" "grants L (device_requests ul ''com2'' nm) m2"
    by (rule grantsE [OF m1(2)])
  have g: "granted L (init_requests ul nm) (ds_mem (kn_dev s)) = granted L (device_requests ul ''com2'' nm) m2"
    by (simp only: init_requests_def append.simps granted.simps m1(1) m2(1) snd_conv)
  obtain d1 where d1: "class_create L (ul_dev ul) 0 ''uart16550'' 0 (kn_dev s) = Some (cls, d1)" "dev_ok (ul_dev ul) blocks d1 cs ds" "ds_mem d1 = m2"
    "ds_regs d1 = ds_regs (kn_dev s)" "ds_cdevs d1 = ds_cdevs (kn_dev s)" "ds_ops d1 = ds_ops (kn_dev s)" "ds_classes d1 = (ds_classes (kn_dev s))(cls \<mapsto> p)"
    "lists_kept blocks (kn_dev s) d1"
    using class_create_ok [OF heap ok, of "''uart16550''" cls cb m1 p pb m2 0 0] m1(1) m2(1) by auto
  define s1 where "s1 = s\<lparr>kn_dev := d1, kn_uart := (kn_uart s)\<lparr>ua_class := cls\<rparr>\<rparr>"
  have s1: "kn_dev s1 = d1" "kn_uart s1 = (kn_uart s)\<lparr>ua_class := cls\<rparr>" "kn_module s1 = Some nm" "kn_hw s1 = kn_hw s"
    using nm(1) by (simp_all add: s1_def)
  have a: "com_at ul (com2_dev ul) (kn_uart s1) = Some (ua_com2 (kn_uart s))" using com(1) by (simp add: com_at_def s1)
  have r: "\<forall>c \<in> set (registry (kn_dev s1) cs). sc_dev c \<noteq> dev" using others d1(4) by (simp add: s1 registry_def)
  obtain s' d cl tok where i: "uart16550_init_device L P S ul (com2_dev ul) (ua_major (kn_uart s1)) 1 ''com2'' COM2_BASEPORT COM2_IRQ s1 = Some (0, s')"
    "dev_ok (ul_dev ul) blocks (kn_dev s') (cl # cs) ds" "device_ready ul regs (com2_dev ul) ''com2'' dev COM2_BASEPORT cl tok d s'"
    "\<forall>p \<in> set cs. ds_regs (kn_dev s') p = ds_regs (kn_dev s1) p" "ds_ops (kn_dev s') = ds_ops (kn_dev s1)"
    "ds_mem (kn_dev s') = granted L (device_requests ul ''com2'' nm) (ds_mem (kn_dev s1))" "r_sent (regs (kn_hw s')) = r_sent (regs (kn_hw s1))"
    "lists_kept blocks (kn_dev s1) (kn_dev s')"
    using uart_init_device_ok [where s = s1 and name = "''com2''" and device = "com2_dev ul" and minor = 1 and irq = COM2_IRQ and ul = ul
        and cs = cs and ds = ds, OF heap _ srv _ a com(2,3) s1(3) nm(2) _ chip(1) _ _ _ r] chip(2) cd dev m2(2) low d1
    unfolding g s1 by auto
  have b: "ua_behavior (kn_uart s) AND OPTION_COM1 = 0" "ua_behavior (kn_uart s) AND OPTION_COM2 \<noteq> 0"
    using opts(1) by (simp_all add: OPTION_COM1_def OPTION_COM2_def)
  have "uart16550_init L P S ul s = Some (0, s')"
    using opts d1(1) i(1) b by (simp add: uart16550_init_def Let_def s1_def)
  moreover have "lists_kept blocks (kn_dev s) (kn_dev s')" using lists_kept_trans [OF d1(8)] i(8) s1(1) by simp
  ultimately show ?thesis using i(2-7) d1(3,4,6) g s1 by (metis (no_types))
qed

section \<open>Unloading\<close>

lemma cleanup_device_keeps:
  assumes "uart16550_cleanup_device L P ul device s = Some s'"
  shows "ds_classes (kn_dev s') = ds_classes (kn_dev s)" "kn_uart s' = kn_uart s"
  using assms
  by (auto simp: uart16550_cleanup_device_def uart16550_hw_cleanup_device_def release_port_region_def release_region_def Let_def
      free_irq_def put_irq_def irq_view_def device_destroy_def unregister_chrdev_region_def cdev_del_def split: bind_splits if_splits sum.splits)

section \<open>A sample system\<close>

definition sample_kern :: "((addr \<times> nat) list, sim_chip, nat) kern" where
  "sample_kern = \<lparr>
     kn_dev = \<lparr>ds_mem = [(0x100, 12), (0x200, 272), (0x600, 24), (0x4020, 64)],
       ds_links = \<lparr>l_next = [0x104 \<mapsto> 0x104, 0x308 \<mapsto> 0x308, 0x60c \<mapsto> 0x60c], l_prev = [0x104 \<mapsto> 0x104, 0x308 \<mapsto> 0x308, 0x60c \<mapsto> 0x60c]\<rparr>,
       ds_ops = [0x10 \<mapsto> fops log_libc (sim_ports COM2_BASEPORT) sample_ul], ds_cdevs = [0x4020 \<mapsto> \<lparr>cd_dev = None, cd_ops = None\<rparr>],
       ds_cur = 0, ds_nodes = Map.empty, ds_regs = Map.empty, ds_classes = Map.empty, ds_devices = Map.empty, ds_bufs = Map.empty\<rparr>,
     kn_res = Map.empty, kn_srv = 0, kn_tokens = Map.empty, kn_uart = sample_uart, kn_hw = fresh_chip [], kn_module = Some ''asd''\<rparr>"

lemma sample_kern_ok: "dev_ok sample_layout map_of (kn_dev sample_kern) [] []"
proof -
  have "blocks_apart (map_of [(0x100, 12), (0x200, 272), (0x600, 24), (0x4020, 64)])" by (rule stacked_apart [of 0]) simp
  then show ?thesis
    by (simp add: dev_ok_def sample_kern_def sample_layout_def objs_def dlist_def others_off_def siblings_off_def)
qed

lemma sample_buffers:
  "length (snd (cm_inbuf (ua_com2 sample_uart))) = 4096" "length (snd (cm_outbuf (ua_com2 sample_uart))) = 4096"
  by (simp_all add: sample_uart_def sample_com_def)

lemma count_server_ok: "srv_ok count_server"
  by (simp add: srv_ok_def count_server_def)

lemma log_granted:
  "grants log_libc (init_requests sample_ul ''asd'') (ds_mem (kn_dev sample_kern))"
  "granted log_libc (init_requests sample_ul ''asd'') (ds_mem (kn_dev sample_kern)) =
     [(0x42f1, 3), (0x42d0, 32), (0x41bf, 272), (0x41ba, 4), (0x40b9, 256), (0x40ac, 12), (0x40a2, 9), (0x4061, 64)] @ ds_mem (kn_dev sample_kern)"
  by (simp_all add: init_requests_def device_requests_def log_libc_def log_alloc_def sample_kern_def sample_ul_def sample_layout_def
      strlen_def sz_IRQData_def sz_seL4_Class_def sz_resource_def)

section \<open>Properties\<close>





end
