(* ===== verification/Loader.thy ===== *)
theory Loader
  imports Cdev
begin

text \<open>
  The module loader (\<open>loader.c\<close>, \<open>loader.h\<close>). The dynamic linker belongs to the C library: looking
  up a library and a symbol, and what the found functions do, are parameters. The list of
  modules is a chain of nodes in a map from addresses; \<open>mod_chain\<close> reads it as a sequence, and
  walks over it are related to the walk over that sequence, \<open>run_modules\<close>. The rest of the
  system is the component \<open>ld_sys\<close> of the state, which only the functions of modules change.
  What is printed is not modelled.
\<close>

section \<open>Definitions\<close>

subsection \<open>State\<close>

text \<open>The fields of \<open>struct seL4_Module\<close> in use; \<open>None\<close> is a null pointer or a field that was never
  written.\<close>

record 'f seL4_Module =
  sm_init :: "'f option"
  sm_exit :: "'f option"
  sm_dlhandle :: "addr option"

record module_list =
  ml_mod :: addr
  ml_next :: addr

record ('h, 'f, 'x) loader =
  ld_mem :: 'h
  ld_mods :: "addr \<rightharpoonup> 'f seL4_Module"
  ld_lists :: "addr \<rightharpoonup> module_list"
  ld_bufs :: "addr \<rightharpoonup> u8 list"
  ld_errno :: int
  ld_sys :: 'x

definition sz_seL4_Module :: u32 where "sz_seL4_Module = 28"
definition sz_module_list :: u32 where "sz_module_list = 8"

text \<open>The static list of all modules.\<close>

definition all_modules :: module_list where "all_modules = \<lparr>ml_mod = 0, ml_next = 0\<rparr>"

text \<open>The dynamic linker: the handle of a library and the address of a symbol, 0 when there is none.\<close>

record dl =
  dl_open :: "string \<Rightarrow> addr"
  dl_sym :: "addr \<Rightarrow> u8 list \<Rightarrow> addr"

subsection \<open>The list of modules\<close>

definition append_module :: "'h libc \<Rightarrow> addr \<Rightarrow> addr \<Rightarrow> ('h, 'f, 'x) loader \<Rightarrow> (int \<times> ('h, 'f, 'x) loader) option" where
  "append_module L list elem s =
     (if elem = 0 then None
      else if list = 0 then None
      else case ext_malloc L sz_module_list (ld_mem s) of
             (None, m) \<Rightarrow> Some (- ENOMEM, s\<lparr>ld_mem := m\<rparr>)
           | (Some (n, bs), m) \<Rightarrow>
               do { l \<leftarrow> ld_lists s list;
                    Some (0, s\<lparr>ld_mem := m,
                      ld_lists := (ld_lists s)(list \<mapsto> l\<lparr>ml_next := n\<rparr>, n \<mapsto> \<lparr>ml_mod = elem, ml_next = 0\<rparr>)\<rparr>) })"

text \<open>\<open>load_metadata\<close>, with the pointer it stores through \<open>dest\<close> as a further result.\<close>

definition load_metadata :: "'h libc \<Rightarrow> addr \<Rightarrow> (addr \<Rightarrow> string option) \<Rightarrow> ('h, 'f, 'x) loader \<Rightarrow>
    ((int \<times> addr) \<times> ('h, 'f, 'x) loader) option" where
  "load_metadata L dlhandle fetcher s =
     (case fetcher dlhandle of
        None \<Rightarrow> Some ((- ENOENT, 0), s)
      | Some ptr \<Rightarrow>
          let len = strlen ptr + 1
          in case ext_calloc L len 1 (ld_mem s) of
               (None, m) \<Rightarrow> if len = 0 then Some ((0, 0), s\<lparr>ld_mem := m\<rparr>) else None
             | (Some (p, bs), m) \<Rightarrow>
                 do { bs \<leftarrow> strncpy bs ptr len;
                      Some ((0, p), s\<lparr>ld_mem := m, ld_bufs := (ld_bufs s)(p \<mapsto> bs)\<rparr>) })"

text \<open>The loop of \<open>traverse_list\<close>, from \<open>cur\<close> on.\<close>

partial_function (option) traverse_from :: "(addr \<Rightarrow> ('h, 'f, 'x) loader \<Rightarrow> (int \<times> ('h, 'f, 'x) loader) option) \<Rightarrow>
    addr \<Rightarrow> ('h, 'f, 'x) loader \<Rightarrow> (int \<times> ('h, 'f, 'x) loader) option" where
  "traverse_from func cur s =
     (if cur = 0 then Some (0, s)
      else do { l \<leftarrow> ld_lists s cur;
                (res, s) \<leftarrow> func (ml_mod l) s;
                if res < 0 then Some (res, s)
                else do { l \<leftarrow> ld_lists s cur; traverse_from func (ml_next l) s } })"

definition traverse_list :: "addr \<Rightarrow> (addr \<Rightarrow> ('h, 'f, 'x) loader \<Rightarrow> (int \<times> ('h, 'f, 'x) loader) option) \<Rightarrow>
    ('h, 'f, 'x) loader \<Rightarrow> (int \<times> ('h, 'f, 'x) loader) option" where
  "traverse_list list func s = (if list = 0 then None else traverse_from func list s)"

subsection \<open>Loading and unloading\<close>

text \<open>\<open>call\<close> runs a function of a module on the rest of the system.\<close>

definition load_module :: "('f \<Rightarrow> 'x \<Rightarrow> (int \<times> 'x) option) \<Rightarrow> addr \<Rightarrow> ('h, 'f, 'x) loader \<Rightarrow> (int \<times> ('h, 'f, 'x) loader) option" where
  "load_module call md s =
     do { m \<leftarrow> ld_mods s md;
          f \<leftarrow> sm_init m;
          (r, x) \<leftarrow> call f (ld_sys s);
          Some (r, s\<lparr>ld_sys := x\<rparr>) }"

definition unload_module :: "('f \<Rightarrow> 'x \<Rightarrow> (int \<times> 'x) option) \<Rightarrow> addr \<Rightarrow> ('h, 'f, 'x) loader \<Rightarrow> (int \<times> ('h, 'f, 'x) loader) option" where
  "unload_module call md s =
     do { m \<leftarrow> ld_mods s md;
          f \<leftarrow> sm_exit m;
          (r, x) \<leftarrow> call f (ld_sys s);
          Some (r, s\<lparr>ld_sys := x\<rparr>) }"

definition init_modules :: "('f \<Rightarrow> 'x \<Rightarrow> (int \<times> 'x) option) \<Rightarrow> addr \<Rightarrow> ('h, 'f, 'x) loader \<Rightarrow> (int \<times> ('h, 'f, 'x) loader) option" where
  "init_modules call modules s = traverse_list modules (load_module call) s"

definition unload_modules :: "('f \<Rightarrow> 'x \<Rightarrow> (int \<times> 'x) option) \<Rightarrow> addr \<Rightarrow> ('h, 'f, 'x) loader \<Rightarrow> (int \<times> ('h, 'f, 'x) loader) option" where
  "unload_modules call list s = traverse_list list (unload_module call) s"

subsection \<open>Parameters and symbols\<close>

text \<open>\<open>strncat\<close> appends at the terminating null byte of its destination.\<close>

definition strncat :: "u8 list \<Rightarrow> string \<Rightarrow> u32 \<Rightarrow> u8 list option" where
  "strncat dst src n =
     do { d \<leftarrow> c_string dst; mem_store dst (length d) (take (unat n) (bytes_of src) @ [0]) }"

text \<open>\<open>modulectl_set_param\<close>; \<open>call_setter\<close> is the call of the setter at an address.\<close>

definition modulectl_set_param :: "'h libc \<Rightarrow> dl \<Rightarrow> (addr \<Rightarrow> addr \<Rightarrow> 'x \<Rightarrow> 'x option) \<Rightarrow> string \<Rightarrow> addr \<Rightarrow> addr \<Rightarrow>
    ('h, 'f, 'x) loader \<Rightarrow> (int \<times> ('h, 'f, 'x) loader) option" where
  "modulectl_set_param L D call_setter name val mhandle s =
     (let len = strlen ''PARAM_SETTER_PREFIX'' + strlen name
      in case kmalloc L False (len + 1) 0 (ld_mem s) of
           (None, m) \<Rightarrow> None
         | (Some (p, bs), m) \<Rightarrow>
             do { bs \<leftarrow> strncpy bs ''PARAM_SETTER_PREFIX'' len;
                  setter \<leftarrow> strncat bs name len;
                  sym \<leftarrow> c_string setter;
                  let s = s\<lparr>ld_mem := m, ld_bufs := (ld_bufs s)(p \<mapsto> setter)\<rparr>;
                  let set_func = dl_sym D mhandle sym;
                  if set_func = 0 then Some (- ENOENT, s)
                  else do { x \<leftarrow> call_setter set_func val (ld_sys s); Some (0, s\<lparr>ld_sys := x\<rparr>) } })"

text \<open>\<open>call_handler\<close> is the call of the function at an address with a module.\<close>

definition find_sym_and_apply :: "dl \<Rightarrow> (addr \<Rightarrow> addr \<Rightarrow> ('h, 'f, 'x) loader \<Rightarrow> (int \<times> ('h, 'f, 'x) loader) option) \<Rightarrow>
    addr \<Rightarrow> string \<Rightarrow> addr \<Rightarrow> ('h, 'f, 'x) loader \<Rightarrow> (int \<times> ('h, 'f, 'x) loader) option" where
  "find_sym_and_apply D call_handler dlhandle symbol md s =
     (let handler = dl_sym D dlhandle (bytes_of symbol)
      in if handler = 0 then Some (- 1, s) else call_handler handler md s)"

definition free_module :: "'h libc \<Rightarrow> addr \<Rightarrow> ('h, 'f, 'x) loader \<Rightarrow> ('h, 'f, 'x) loader" where
  "free_module L out s = s\<lparr>ld_mem := ext_free L out (ld_mem s), ld_mods := (ld_mods s)(out := None)\<rparr>"

definition module_by_name :: "'h libc \<Rightarrow> dl \<Rightarrow> (addr \<Rightarrow> addr \<Rightarrow> ('h, 'f, 'x) loader \<Rightarrow> (int \<times> ('h, 'f, 'x) loader) option) \<Rightarrow>
    string \<Rightarrow> ('h, 'f, 'x) loader \<Rightarrow> (addr \<times> ('h, 'f, 'x) loader) option" where
  "module_by_name L D call_handler obj s =
     (let (b, m) = ext_malloc L sz_seL4_Module (ld_mem s);
          out = (case b of None \<Rightarrow> 0 | Some (p, _) \<Rightarrow> p);
          s = s\<lparr>ld_mem := m, ld_mods := (case b of None \<Rightarrow> ld_mods s
                 | Some (p, _) \<Rightarrow> (ld_mods s)(p \<mapsto> \<lparr>sm_init = None, sm_exit = None, sm_dlhandle = None\<rparr>))\<rparr>;
          dlhandle = dl_open D obj
      in if dlhandle = 0 then Some (0, s\<lparr>ld_errno := ENOENT\<rparr>)
         else if b = None then None
         else do {
           r \<leftarrow> ld_mods s out;
           let s = s\<lparr>ld_mods := (ld_mods s)(out \<mapsto> r\<lparr>sm_dlhandle := Some dlhandle\<rparr>)\<rparr>;
           (res, s) \<leftarrow> find_sym_and_apply D call_handler dlhandle ''MODULE_LOAD_FCN'' out s;
           if res < 0 then Some (0, free_module L out s)
           else do {
             (res, s) \<leftarrow> find_sym_and_apply D call_handler dlhandle ''MODULE_UNLOAD_FCN'' out s;
             if res < 0 then Some (0, free_module L out s)
             else Some (out, s) } })"

text \<open>
  What the macros of \<open>loader.h\<close> put into a module: the functions that register \<open>init\<close> and
  \<open>exit\<close>, under the names \<open>MODULE_LOAD_FCN\<close> and \<open>MODULE_UNLOAD_FCN\<close> expand to, and the setter of
  a parameter. The operator \<open>##\<close> joins the parameter's name to the text \<open>PARAM_SETTER_PREFIX_\<close>.
\<close>

definition MODULE_LOAD_FCN :: string where "MODULE_LOAD_FCN = ''fetch_module_init''"
definition MODULE_UNLOAD_FCN :: string where "MODULE_UNLOAD_FCN = ''fetch_module_exit''"

definition param_setter :: "string \<Rightarrow> string" where "param_setter name = ''PARAM_SETTER_PREFIX_'' @ name"

definition module_init :: "'f \<Rightarrow> 'f seL4_Module \<Rightarrow> 'f seL4_Module" where
  "module_init x md = md\<lparr>sm_init := Some x\<rparr>"

definition module_exit :: "'f \<Rightarrow> 'f seL4_Module \<Rightarrow> 'f seL4_Module" where
  "module_exit x md = md\<lparr>sm_exit := Some x\<rparr>"

section \<open>Walks\<close>

text \<open>The modules of a list, the module of its head included.\<close>

fun mod_chain :: "(addr \<rightharpoonup> module_list) \<Rightarrow> addr \<Rightarrow> addr list \<Rightarrow> bool" where
  "mod_chain ls p [] \<longleftrightarrow> p = 0"
| "mod_chain ls p (m # ms) \<longleftrightarrow> p \<noteq> 0 \<and> (\<exists>l. ls p = Some l \<and> ml_mod l = m \<and> mod_chain ls (ml_next l) ms)"

text \<open>The walk over a sequence of modules, which stops at the first failure.\<close>

fun run_modules :: "(addr \<Rightarrow> 's \<Rightarrow> (int \<times> 's) option) \<Rightarrow> addr list \<Rightarrow> 's \<Rightarrow> (int \<times> 's) option" where
  "run_modules func [] s = Some (0, s)"
| "run_modules func (m # ms) s =
     do { (res, s) \<leftarrow> func m s; if res < 0 then Some (res, s) else run_modules func ms s }"

lemma traverse_from_run:
  assumes keep: "\<And>m s r s'. func m s = Some (r, s') \<Longrightarrow> ld_lists s' = ld_lists s"
    and "mod_chain (ld_lists s) p ms"
  shows "traverse_from func p s = run_modules func ms s"
  using assms(2)
proof (induction ms arbitrary: p s)
  case Nil
  then show ?case by (subst traverse_from.simps) simp
next
  case (Cons m ms)
  then obtain l where l: "ld_lists s p = Some l" "ml_mod l = m" "mod_chain (ld_lists s) (ml_next l) ms" "p \<noteq> 0" by auto
  show ?case
  proof (cases "func m s")
    case None
    then show ?thesis using l by (subst traverse_from.simps) simp
  next
    case (Some x)
    obtain r s' where x: "x = (r, s')" by fastforce
    with Some keep have "ld_lists s' = ld_lists s" by blast
    then show ?thesis using l Some x Cons.IH [of s' "ml_next l"] by (subst traverse_from.simps) simp
  qed
qed

lemma module_calls_keep:
  "load_module call m s = Some (r, s') \<Longrightarrow> ld_lists s' = ld_lists s"
  "unload_module call m s = Some (r, s') \<Longrightarrow> ld_lists s' = ld_lists s"
  by (auto simp: load_module_def unload_module_def split: bind_splits)

section \<open>Names\<close>

lemma byte_of_char_inj: "(of_nat (of_char c) :: u8) = of_nat (of_char d) \<Longrightarrow> c = d"
proof -
  assume "(of_nat (of_char c) :: u8) = of_nat (of_char d)"
  then have "unat (of_nat (of_char c) :: u8) = unat (of_nat (of_char d) :: u8)" by simp
  moreover have "(of_char e :: nat) < 256" for e by simp
  ultimately have "(of_char c :: nat) = of_char d" by (simp add: unat_of_nat)
  then show ?thesis by simp
qed

lemma bytes_of_inj: "bytes_of a = bytes_of b \<longleftrightarrow> a = b"
  unfolding bytes_of_def by (auto dest!: map_injective intro: injI byte_of_char_inj)

lemma bytes_of_append: "bytes_of (a @ b) = bytes_of a @ bytes_of b"
  by (simp add: bytes_of_def)

lemma length_bytes_of: "length (bytes_of a) = length a"
  by (simp add: bytes_of_def)

lemma bytes_of_nonzero: "CHR 0x00 \<notin> set a \<Longrightarrow> 0 \<notin> set (bytes_of a)"
  using of_char_nonzero by (fastforce simp: bytes_of_def)

lemma c_string_bytes: "0 \<notin> set a \<Longrightarrow> c_string (a @ 0 # r) = Some a"
  by (simp add: c_string_def takeWhile_append2 takeWhile_tail) (auto simp: takeWhile_append)

text \<open>The symbol \<open>modulectl_set_param\<close> looks up.\<close>

lemma setter_buffer:
  assumes "length bs = length a + length b + 1" "b \<noteq> []" "CHR 0x00 \<notin> set a" "CHR 0x00 \<notin> set b"
    and "unat n = length a + length b"
  shows "\<exists>t. strncpy bs a n = Some t \<and> strncat t b n = Some (bytes_of (a @ b) @ [0])"
proof -
  define t where "t = bytes_of a @ replicate (length b) 0 @ drop (unat n) bs"
  have "strncpy bs a n = Some t"
    using assms(1,5) by (simp add: strncpy_def mem_store_def t_def length_bytes_of)
  moreover have "c_string t = Some (bytes_of a)"
    using assms(2) bytes_of_nonzero [OF assms(3)] by (cases b) (simp_all add: t_def c_string_bytes)
  moreover have "length t = length a + length b + 1" using assms(1,5) by (simp add: t_def length_bytes_of)
  ultimately show ?thesis
    using assms(5) by (simp add: strncat_def mem_store_def bytes_of_append length_bytes_of) (simp add: t_def length_bytes_of)
qed

definition setter_prefix :: string where "setter_prefix = ''PARAM_SETTER_PREFIX''"

lemma setter_prefix_facts: "length setter_prefix = 19" "CHR 0x00 \<notin> set setter_prefix" "param_setter n = setter_prefix @ ''_'' @ n"
  by (simp_all add: setter_prefix_def param_setter_def)

lemma set_param_symbol:
  assumes heap: "heap_ok L blocks" and name: "name \<noteq> []" "CHR 0x00 \<notin> set name" "length name < 2 ^ 31"
    and mem: "kmalloc L False (strlen setter_prefix + strlen name + 1) 0 (ld_mem s) = (Some (p, bs), m)"
    and symbol: "q = bytes_of (setter_prefix @ name)"
    and s': "s' = s\<lparr>ld_mem := m, ld_bufs := (ld_bufs s)(p \<mapsto> q @ [0])\<rparr>"
  shows "modulectl_set_param L D call_setter name val h s =
    (if dl_sym D h q = 0 then Some (- ENOENT, s')
     else map_option (\<lambda>x. (0, s'\<lparr>ld_sys := x\<rparr>)) (call_setter (dl_sym D h q) val (ld_sys s)))"
proof -
  define n where "n = strlen setter_prefix + strlen name"
  have n: "unat n = length setter_prefix + length name" "unat (n + 1) = length setter_prefix + length name + 1"
    using name(3) by (simp_all add: n_def strlen_def unat_word_ariths unat_of_nat setter_prefix_facts(1))
  have l: "length bs = length setter_prefix + length name + 1"
    using kmalloc_law [OF heap, of "n + 1" "ld_mem s" False 0] mem n(2) by (simp add: alloc_law_Some n_def)
  obtain t where t: "strncpy bs setter_prefix n = Some t" "strncat t name n = Some (q @ [0])"
    using setter_buffer [OF l name(1) setter_prefix_facts(2) name(2) n(1)] unfolding symbol by blast
  have "CHR 0x00 \<notin> set (setter_prefix @ name)" using name(2) setter_prefix_facts(2) by simp
  then have "c_string (q @ [0]) = Some q" unfolding symbol by (intro c_string_bytes bytes_of_nonzero)
  with t mem show ?thesis
    unfolding modulectl_set_param_def setter_prefix_def [symmetric] n_def [symmetric]
    by (cases "call_setter (dl_sym D h q) val (ld_sys s)") (simp_all add: Let_def s')
qed

text \<open>A copied metadata string is terminated: read as a string it gives the original back.\<close>

lemma load_metadata_copies:
  assumes heap: "heap_ok L blocks" and ptr: "fetcher h = Some ptr" "CHR 0x00 \<notin> set ptr" "length ptr < 2 ^ 31"
    and mem: "ext_calloc L (strlen ptr + 1) 1 (ld_mem s) = (Some (p, bs), m)"
  shows "\<exists>s' buf. load_metadata L h fetcher s = Some ((0, p), s') \<and> ld_bufs s' p = Some buf \<and> c_string buf = Some (bytes_of ptr)"
proof -
  have n: "unat (strlen ptr + 1) = length ptr + 1" using ptr(3) by (simp add: strlen_def unat_word_ariths unat_of_nat)
  then have l: "length bs = length ptr + 1" using heap_ok_calloc [OF heap, of "strlen ptr + 1" 1 "ld_mem s"] mem by (simp add: alloc_law_Some)
  have "strncpy bs ptr (strlen ptr + 1) = Some (bytes_of ptr @ [0])"
    using n l by (simp add: strncpy_def mem_store_def length_bytes_of)
  moreover have "c_string (bytes_of ptr @ [0]) = Some (bytes_of ptr)" using c_string_bytes [OF bytes_of_nonzero [OF ptr(2)], of "[]"] .
  ultimately show ?thesis using ptr(1) mem by (simp add: load_metadata_def)
qed

section \<open>Properties\<close>

text \<open>
  C38. \<open>init_modules\<close> and \<open>unload_modules\<close> end on every well-formed list: they run the functions of
  its modules in order and stop at the first failure, whose code they return. On a list like
  \<open>all_modules\<close>, whose head carries no module, they use the null pointer and never return.
\<close>

theorem module_walks:
  assumes "mod_chain (ld_lists s) p ms" "p \<noteq> 0"
  shows "init_modules call p s = run_modules (load_module call) ms s \<and>
    unload_modules call p s = run_modules (unload_module call) ms s \<and>
    (ms \<noteq> [] \<and> hd ms = ml_mod all_modules \<and> ld_mods s 0 = None \<longrightarrow> init_modules call p s = None \<and> unload_modules call p s = None)"
proof -
  have e: "init_modules call p s = run_modules (load_module call) ms s" "unload_modules call p s = run_modules (unload_module call) ms s"
    using assms(2) traverse_from_run [OF module_calls_keep(1) assms(1)] traverse_from_run [OF module_calls_keep(2) assms(1)]
    by (simp_all add: init_modules_def unload_modules_def traverse_list_def)
  moreover have "run_modules (load_module call) ms s = None \<and> run_modules (unload_module call) ms s = None"
    if "ms \<noteq> []" "hd ms = 0" "ld_mods s 0 = None"
    using that by (cases ms) (simp_all add: load_module_def unload_module_def)
  ultimately show ?thesis by (simp add: all_modules_def)
qed

definition sample_loader :: "((addr \<times> nat) list, nat, nat list) loader" where
  "sample_loader = \<lparr>ld_mem = [(0x100, 8)], ld_mods = [0x300 \<mapsto> \<lparr>sm_init = Some 3, sm_exit = None, sm_dlhandle = None\<rparr>,
       0x400 \<mapsto> \<lparr>sm_init = Some 4, sm_exit = None, sm_dlhandle = None\<rparr>],
     ld_lists = [0x100 \<mapsto> \<lparr>ml_mod = 0x300, ml_next = 0x200\<rparr>, 0x200 \<mapsto> \<lparr>ml_mod = 0x400, ml_next = 0\<rparr>, 0x500 \<mapsto> all_modules],
     ld_bufs = Map.empty, ld_errno = 0, ld_sys = []\<rparr>"

theorem module_walks_witness:
  "init_modules (\<lambda>f x. Some (0, x @ [f])) 0x100 sample_loader = Some (0, sample_loader\<lparr>ld_sys := [3, 4]\<rparr>) \<and>
   init_modules (\<lambda>f x. Some (0, x @ [f])) 0x500 sample_loader = None"
  using module_walks [of sample_loader "0x100" "[0x300, 0x400]" "\<lambda>f x. Some (0, x @ [f])"]
    module_walks [of sample_loader "0x500" "[0]" "\<lambda>f x. Some (0, x @ [f])"]
  by (simp add: sample_loader_def load_module_def all_modules_def)

text \<open>
  \<open>append_module\<close> replaces: whatever followed the head, afterwards the list is the head's module
  and the new one, so of two appended modules only the second is left. When memory runs out
  it returns \<open>ENOMEM\<close> and leaves the list alone.
\<close>

theorem append_module_replaces:
  assumes "heap_ok L blocks" "list \<noteq> 0" "ld_lists s list = Some l" "blocks (ld_mem s) list \<noteq> None" "a \<noteq> 0" "b \<noteq> 0"
    and "ext_malloc L sz_module_list (ld_mem s) = (Some (n, bs), m)" "ext_malloc L sz_module_list m = (Some (n', bs'), m')"
  shows "\<exists>s1 s2. append_module L list a s = Some (0, s1) \<and> mod_chain (ld_lists s1) list [ml_mod l, a] \<and>
    append_module L list b s1 = Some (0, s2) \<and> mod_chain (ld_lists s2) list [ml_mod l, b] \<and>
    blocks (ld_mem s2) = (blocks (ld_mem s))(n \<mapsto> 8, n' \<mapsto> 8) \<and>
    (ext_malloc L sz_module_list (ld_mem s2) = (None, m2) \<longrightarrow> append_module L list a s2 = Some (- ENOMEM, s2\<lparr>ld_mem := m2\<rparr>))"
proof -
  have n: "new_block (blocks (ld_mem s)) (blocks m) n 8" "new_block (blocks m) (blocks m') n' 8"
    using heap_ok_malloc [OF assms(1), of sz_module_list "ld_mem s"] heap_ok_malloc [OF assms(1), of sz_module_list m] assms(7,8)
    by (simp_all add: alloc_law_Some sz_module_list_def)
  then have "n \<noteq> 0" "n' \<noteq> 0" "n \<noteq> list" "n' \<noteq> list" "blocks m' = (blocks (ld_mem s))(n \<mapsto> 8, n' \<mapsto> 8)"
    using assms(4) by (auto simp: new_block_def split: if_splits)
  then show ?thesis using assms(2,3,5-8) by (simp add: append_module_def)
qed

theorem append_module_replaces_witness:
  "\<exists>s1 s2. append_module log_libc 0x100 0x700 sample_loader = Some (0, s1) \<and>
    append_module log_libc 0x100 0x800 s1 = Some (0, s2) \<and> mod_chain (ld_lists s2) 0x100 [0x300, 0x800]"
proof -
  have m: "ext_malloc log_libc sz_module_list (ld_mem sample_loader) = (Some (0x1000, replicate 8 0xAA), [(0x1000, 8), (0x100, 8)])"
    "ext_malloc log_libc sz_module_list [(0x1000, 8), (0x100, 8)] = (Some (0x1009, replicate 8 0xAA), [(0x1009, 8), (0x1000, 8), (0x100, 8)])"
    by (simp_all add: sample_loader_def log_libc_def log_alloc_def sz_module_list_def)
  have l: "ld_lists sample_loader 0x100 = Some \<lparr>ml_mod = 0x300, ml_next = 0x200\<rparr>" "map_of (ld_mem sample_loader) 0x100 \<noteq> None"
    by (simp_all add: sample_loader_def)
  show ?thesis
    using append_module_replaces [OF log_libc_ok _ l(1,2) _ _ m, of "0x700" "0x800"] by (simp del: mod_chain.simps) blast
qed





end
