(* ===== verification/Boot.thy ===== *)
theory Boot
  imports Uart_Run Uart_Init Loader
begin

text \<open>
  The module loader program (\<open>main.c\<close>, \<open>module_start.c\<close>): it starts the system, loads the serial
  driver, opens its device, waits for input and writes it back. The kernel calls and the
  libraries around them are the parameter \<open>sel4\<close>; an error they report ends the program
  (\<open>ZF_LOGF_IF\<close>). The state is that of the library with the driver, the open files, and the
  program's own variables. Between two statements of the program interrupts may be delivered,
  \<open>deliver_irq\<close>.
\<close>

section \<open>Definitions\<close>

subsection \<open>State\<close>

type_synonym cap = u32

text \<open>The calls into the kernel and its libraries that the program tests the results of. A new
  object comes with an error code and its capability.\<close>

record 'b sel4 =
  GetBootInfo :: "'b \<Rightarrow> addr \<times> 'b"
  bootstrap_use_current_simple :: "'b \<Rightarrow> addr \<times> 'b"
  bootstrap_vspace :: "'b \<Rightarrow> int \<times> 'b"
  irq_server_new :: "'b \<Rightarrow> (int \<times> addr) \<times> 'b"
  vka_alloc_endpoint :: "'b \<Rightarrow> (int \<times> cap) \<times> 'b"
  vka_alloc_tcb :: "'b \<Rightarrow> (int \<times> cap) \<times> 'b"
  vka_alloc_frame :: "u32 \<Rightarrow> 'b \<Rightarrow> (int \<times> cap) \<times> 'b"
  vka_alloc_page_table :: "'b \<Rightarrow> (int \<times> cap) \<times> 'b"
  Page_Map :: "cap \<Rightarrow> cap \<Rightarrow> addr \<Rightarrow> 'b \<Rightarrow> int \<times> 'b"
  PageTable_Map :: "cap \<Rightarrow> cap \<Rightarrow> addr \<Rightarrow> 'b \<Rightarrow> int \<times> 'b"
  write_user_data :: "addr \<Rightarrow> u32 \<Rightarrow> 'b \<Rightarrow> 'b option"
  TCB_Configure :: "cap \<Rightarrow> cap \<Rightarrow> cap \<Rightarrow> addr \<Rightarrow> cap \<Rightarrow> 'b \<Rightarrow> int \<times> 'b"
  TCB_WriteRegisters :: "cap \<Rightarrow> addr \<Rightarrow> addr \<Rightarrow> 'b \<Rightarrow> int \<times> 'b"
  TCB_Resume :: "cap \<Rightarrow> 'b \<Rightarrow> int \<times> 'b"
  configure_thread :: "cap \<Rightarrow> 'b \<Rightarrow> int \<times> 'b"
  start_thread :: "addr \<Rightarrow> 'b \<Rightarrow> int \<times> 'b"

datatype mod_fn = Uart16550_Init | Uart16550_Cleanup

record ('h, 'w, 'i, 'b) root =
  rt_kern :: "('h, 'w, 'i) kern"
  rt_filps :: "addr \<rightharpoonup> kfile"
  rt_lfd :: int
  rt_files :: "addr \<rightharpoonup> opened_file"
  rt_errno :: int
  rt_module :: "mod_fn seL4_Module"
  rt_srv :: addr
  rt_sys :: 'b

text \<open>Sizes and addresses: the layouts of the components, the size of \<open>struct module\<close>, the stack of
  the second thread, and the entry points of the driver and of \<open>module_handler\<close>.\<close>

record boot_layout =
  bl_fd :: fd_layout
  bl_uart :: uart_layout
  sz_module :: u32
  thread_2_stack :: addr
  entry_of :: "mod_fn \<Rightarrow> addr"
  module_handler_at :: addr

text \<open>The part of the state \<open>fd.c\<close> works on.\<close>

definition fd_view :: "('h, 'w, 'i, 'b) root \<Rightarrow> ('h, uart \<times> 'w) fd_state" where
  "fd_view s = \<lparr>fs_dev = kn_dev (rt_kern s), fs_filps = rt_filps s, fs_priv = (kn_uart (rt_kern s), kn_hw (rt_kern s)),
     fs_lfd = rt_lfd s, fs_files = rt_files s, fs_errno = rt_errno s\<rparr>"

definition put_fd :: "('h, uart \<times> 'w) fd_state \<Rightarrow> ('h, 'w, 'i, 'b) root \<Rightarrow> ('h, 'w, 'i, 'b) root" where
  "put_fd f s = s\<lparr>rt_kern := (rt_kern s)\<lparr>kn_dev := fs_dev f, kn_uart := fst (fs_priv f), kn_hw := snd (fs_priv f)\<rparr>,
     rt_filps := fs_filps f, rt_lfd := fs_lfd f, rt_files := fs_files f, rt_errno := fs_errno f\<rparr>"

text \<open>An interrupt, delivered through the common handler; it uses the driver and the hardware.\<close>

definition call_irq_fn :: "'w ports \<Rightarrow> uart_layout \<Rightarrow> irq_fn \<Rightarrow> u32 \<Rightarrow> addr \<Rightarrow> uart \<times> 'w \<Rightarrow> (int \<times> uart \<times> 'w) option" where
  "call_irq_fn P ul f irq dev = (case f of Uart_Interrupt_Handler \<Rightarrow> interrupt_handler P ul irq dev)"

definition deliver_irq :: "'w ports \<Rightarrow> 'i irq_server \<Rightarrow> uart_layout \<Rightarrow> irq_data \<Rightarrow> ('h, 'w, 'i, 'b) root \<Rightarrow>
    ('h, 'w, 'i, 'b) root option" where
  "deliver_irq P S ul data s =
     do { (i, (u, w)) \<leftarrow> lmseL4_InterruptHandler S (call_irq_fn P ul) data (irq_view (rt_kern s)) (kn_uart (rt_kern s), kn_hw (rt_kern s));
          Some (s\<lparr>rt_kern := (put_irq i (rt_kern s))\<lparr>kn_uart := u, kn_hw := w\<rparr>\<rparr>) }"

subsection \<open>Loading the driver\<close>

definition GFP_USER :: u32 where "GFP_USER = 0x24200c0"

text \<open>\<open>priv_module\<close> gets a new structure whose name is set.\<close>

definition init_module_struct :: "'h libc \<Rightarrow> boot_layout \<Rightarrow> ('h, 'w, 'i, 'b) root \<Rightarrow> ('h, 'w, 'i, 'b) root option" where
  "init_module_struct L bl s =
     (case kmalloc L True (sz_module bl) GFP_USER (ds_mem (kn_dev (rt_kern s))) of
        (None, m) \<Rightarrow> None
      | (Some (p, bs), m) \<Rightarrow>
          Some (s\<lparr>rt_kern := (rt_kern s)\<lparr>kn_dev := (kn_dev (rt_kern s))\<lparr>ds_mem := m\<rparr>, kn_module := Some ''asd''\<rparr>\<rparr>))"

text \<open>\<open>MODULE_LOAD_FCN (&module)\<close>, as \<open>module_init (uart16550_init)\<close> defines it, and calls through
  the fields of \<open>module\<close>.\<close>

definition fetch_module_init :: "('h, 'w, 'i, 'b) root \<Rightarrow> ('h, 'w, 'i, 'b) root" where
  "fetch_module_init s = s\<lparr>rt_module := module_init Uart16550_Init (rt_module s)\<rparr>"

definition call_module :: "'h libc \<Rightarrow> 'w ports \<Rightarrow> 'i irq_server \<Rightarrow> uart_layout \<Rightarrow> mod_fn \<Rightarrow> ('h, 'w, 'i) kern \<Rightarrow>
    (int \<times> ('h, 'w, 'i) kern) option" where
  "call_module L P S ul f k =
     (case f of Uart16550_Init \<Rightarrow> uart16550_init L P S ul k
      | Uart16550_Cleanup \<Rightarrow> do { k \<leftarrow> uart16550_cleanup L P ul k; Some (0, k) })"

definition module_handler :: "'h libc \<Rightarrow> 'w ports \<Rightarrow> 'i irq_server \<Rightarrow> boot_layout \<Rightarrow> ('h, 'w, 'i, 'b) root \<Rightarrow>
    (int \<times> ('h, 'w, 'i, 'b) root) option" where
  "module_handler L P S bl s =
     do { let s = fetch_module_init s;
          s \<leftarrow> init_module_struct L bl s;
          f \<leftarrow> sm_init (rt_module s);
          (_, k) \<leftarrow> call_module L P S (bl_uart bl) f (rt_kern s);
          Some (0, s\<lparr>rt_kern := k\<rparr>) }"

subsection \<open>Threads\<close>

definition make_irq_server :: "'b sel4 \<Rightarrow> 'b \<Rightarrow> (addr \<times> 'b) option" where
  "make_irq_server E b =
     (let (aep, b) = vka_alloc_endpoint E b;
          ((err, srv), b) = irq_server_new E b
      in if err \<noteq> 0 then None else Some (srv, b))"

definition IPCBUF_FRAME_SIZE_BITS :: u32 where "IPCBUF_FRAME_SIZE_BITS = 12"
definition IPCBUF_VADDR :: addr where "IPCBUF_VADDR = 0x7000000"
definition THREAD_2_STACK_SIZE :: u32 where "THREAD_2_STACK_SIZE = 512"

text \<open>\<open>ZF_LOGF_IFERR\<close> on the result of a call.\<close>

definition check_err :: "int \<times> 'b \<Rightarrow> 'b option" where
  "check_err r = (if fst r \<noteq> 0 then None else Some (snd r))"

definition check_new :: "(int \<times> cap) \<times> 'b \<Rightarrow> (cap \<times> 'b) option" where
  "check_new r = (if fst (fst r) \<noteq> 0 then None else Some (snd (fst r), snd r))"

text \<open>\<open>spawn_new_module\<close>. The first mapping of the buffer frame may fail, since its page table is not
  there yet; its error is not looked at. The stack consists of 64-bit elements.\<close>

definition spawn_new_module :: "'h libc \<Rightarrow> 'b sel4 \<Rightarrow> boot_layout \<Rightarrow> cap \<Rightarrow> cap \<Rightarrow> ('h, 'w, 'i, 'b) root \<Rightarrow>
    (int \<times> ('h, 'w, 'i, 'b) root) option" where
  "spawn_new_module L E bl cspace pd s =
     do { let s = fetch_module_init s;
          s \<leftarrow> init_module_struct L bl s;
          (tcb, b) \<leftarrow> check_new (vka_alloc_tcb E (rt_sys s));
          (frame, b) \<leftarrow> check_new (vka_alloc_frame E IPCBUF_FRAME_SIZE_BITS b);
          let (_, b) = Page_Map E frame pd IPCBUF_VADDR b;
          (pt, b) \<leftarrow> check_new (vka_alloc_page_table E b);
          b \<leftarrow> check_err (PageTable_Map E pt pd IPCBUF_VADDR b);
          b \<leftarrow> check_err (Page_Map E frame pd IPCBUF_VADDR b);
          b \<leftarrow> write_user_data E IPCBUF_VADDR IPCBUF_VADDR b;
          b \<leftarrow> check_err (TCB_Configure E tcb cspace pd IPCBUF_VADDR frame b);
          let top = thread_2_stack bl + 8 * THREAD_2_STACK_SIZE;
          if top mod 8 \<noteq> 0 then None
          else do {
            b \<leftarrow> check_err (TCB_WriteRegisters E tcb (case sm_init (rt_module s) of None \<Rightarrow> 0 | Some f \<Rightarrow> entry_of bl f) top b);
            b \<leftarrow> check_err (TCB_Resume E tcb b);
            Some (0, s\<lparr>rt_sys := b\<rparr>) } }"

definition test_spawn :: "'b sel4 \<Rightarrow> boot_layout \<Rightarrow> cap \<Rightarrow> 'b \<Rightarrow> 'b option" where
  "test_spawn E bl cspace b =
     do { b \<leftarrow> check_err (configure_thread E cspace b);
          check_err (start_thread E (module_handler_at bl) b) }"

subsection \<open>The program\<close>

text \<open>\<open>main\<close> in parts: up to the interrupt server, the end of the initialisation, the opening of the
  device, and the rest.\<close>

definition boot_system :: "'b sel4 \<Rightarrow> 'b \<Rightarrow> (addr \<times> 'b) option" where
  "boot_system E b =
     (let (info, b) = GetBootInfo E b
      in if info = 0 then None
         else let (allocman, b) = bootstrap_use_current_simple E b
              in if allocman = 0 then None
                 else do {
                   b \<leftarrow> check_err (bootstrap_vspace E b);
                   (srv, b) \<leftarrow> make_irq_server E b;
                   if srv = 0 then None else Some (srv, b) })"

definition main_init :: "'h libc \<Rightarrow> 'w ports \<Rightarrow> 'i irq_server \<Rightarrow> 'b sel4 \<Rightarrow> boot_layout \<Rightarrow> ('h, 'w, 'i, 'b) root \<Rightarrow>
    ('h, 'w, 'i, 'b) root option" where
  "main_init L P S E bl s =
     do { (srv, b) \<leftarrow> boot_system E (rt_sys s);
          (_, s) \<leftarrow> module_handler L P S bl (s\<lparr>rt_sys := b, rt_srv := srv\<rparr>);
          _ \<leftarrow> debug_device_status (fl_dev (bl_fd bl)) (kn_dev (rt_kern s));
          Some s }"

definition main_open :: "'h libc \<Rightarrow> boot_layout \<Rightarrow> ('h, 'w, 'i, 'b) root \<Rightarrow> ((int \<times> block) \<times> ('h, 'w, 'i, 'b) root) option" where
  "main_open L bl s =
     do { (fd, f) \<leftarrow> fd_open L (bl_fd bl) (Some ''/dev/com2'') (fd_view s);
          let s = put_fd f s;
          case ext_calloc L 1 256 (ds_mem (kn_dev (rt_kern s))) of
            (None, m) \<Rightarrow> None
          | (Some buf, m) \<Rightarrow>
              if \<not> fd > 0 then None
              else Some ((fd, buf), s\<lparr>rt_kern := (rt_kern s)\<lparr>kn_dev := (kn_dev (rt_kern s))\<lparr>ds_mem := m\<rparr>\<rparr>\<rparr>) }"

text \<open>The loop that reads until something arrives or fails, with nothing else running.\<close>

partial_function (option) read_loop :: "boot_layout \<Rightarrow> int \<Rightarrow> u8 list \<Rightarrow> ('h, 'w, 'i, 'b) root \<Rightarrow>
    ((int \<times> u8 list) \<times> ('h, 'w, 'i, 'b) root) option" where
  "read_loop bl fd buf s =
     do { ((r, b), f) \<leftarrow> fd_read (bl_fd bl) fd (Some buf) 256 (fd_view s);
          buf \<leftarrow> b;
          if r = 0 then read_loop bl fd buf (put_fd f s) else Some ((r, buf), put_fd f s) }"

text \<open>How \<open>main\<close> ends: it returns 0 or stays in its last loop.\<close>

datatype main_end = Main_Returns int | Main_Loops

definition main_echo :: "boot_layout \<Rightarrow> int \<Rightarrow> u8 list \<Rightarrow> ('h, 'w, 'i, 'b) root \<Rightarrow> (main_end \<times> ('h, 'w, 'i, 'b) root) option" where
  "main_echo bl fd buf s =
     do { ((r, buf), s) \<leftarrow> read_loop bl fd buf s;
          if r < 0 then Some (Main_Returns 0, s)
          else do {
            _ \<leftarrow> c_string buf;
            (_, f) \<leftarrow> fd_write (bl_fd bl) fd (Some buf) (word_of_int r) (fd_view s);
            Some (Main_Loops, put_fd f s) } }"

section \<open>Start\<close>

lemma debug_status_one:
  assumes "dev_ok ly blocks s [cl] ds" "ds_regs s cl = Some c" "ds_cdevs s (sc_cdev c) = Some d" "cd_ops d = Some p" "ds_ops s p = Some ops"
  shows "debug_device_status ly s = Some [(sc_name c, sc_dev c, ops)]"
  unfolding debug_device_status_def using assms(2-) by (simp add: objs_loop [OF dev_okD(2) [OF assms(1)]])

definition boot_requests :: "boot_layout \<Rightarrow> request list" where
  "boot_requests bl = Kmalloc True (sz_module bl) GFP_USER # init_requests (bl_uart bl) ''asd''"

text \<open>The program as it is started: no device and no file, the driver's variables as initialised.\<close>

definition boot_state :: "boot_layout \<Rightarrow> ('h \<Rightarrow> addr \<rightharpoonup> nat) \<Rightarrow> ('w \<Rightarrow> uart_regs) \<Rightarrow> ('h, 'w, 'i, 'b) root \<Rightarrow> bool" where
  "boot_state bl blocks regs s \<longleftrightarrow>
     fl_dev (bl_fd bl) = ul_dev (bl_uart bl) \<and> com1_dev (bl_uart bl) \<noteq> com2_dev (bl_uart bl) \<and>
     fd_ok (bl_fd bl) blocks (fd_view s) [] [] [] \<and>
     ua_behavior (kn_uart (rt_kern s)) = OPTION_COM2 \<and> ua_major (kn_uart (rt_kern s)) = 42 \<and>
     length (snd (cm_inbuf (ua_com2 (kn_uart (rt_kern s))))) = 4096 \<and> length (snd (cm_outbuf (ua_com2 (kn_uart (rt_kern s))))) = 4096 \<and>
     ds_cdevs (kn_dev (rt_kern s)) (com2_dev (bl_uart bl) + cdev_off (bl_uart bl)) \<noteq> None \<and>
     blocks (ds_mem (kn_dev (rt_kern s))) (com2_dev (bl_uart bl) + cdev_off (bl_uart bl)) \<noteq> None \<and>
     \<not> dlab (regs (kn_hw (rt_kern s)))"

text \<open>The operations of the driver are in their static table.\<close>

definition ops_table :: "'h libc \<Rightarrow> 'w ports \<Rightarrow> boot_layout \<Rightarrow> ('h, 'w, 'i, 'b) root \<Rightarrow> bool" where
  "ops_table L P bl s \<longleftrightarrow> ds_ops (kn_dev (rt_kern s)) (fops_at (bl_uart bl)) = Some (fops L P (bl_uart bl))"

lemma main_init_ok:
  assumes heap: "heap_ok L blocks" and srv: "srv_ok S" and chip: "chip_ok P COM2_BASEPORT regs"
    and st: "boot_state bl blocks regs s" and ops: "ops_table L P bl s" and sys: "boot_system E (rt_sys s) = Some (sv, b)"
    and mem: "grants L (boot_requests bl) (ds_mem (kn_dev (rt_kern s)))"
    and low: "\<forall>p. blocks (granted L (boot_requests bl) (ds_mem (kn_dev (rt_kern s)))) p \<noteq> None \<longrightarrow> \<not> IS_ERR p"
  shows "\<exists>s' d cl token. main_init L P S E bl s = Some s' \<and> fd_ok (bl_fd bl) blocks (fd_view s') [cl] [] [] \<and>
    device_ready (bl_uart bl) regs (com2_dev (bl_uart bl)) ''com2'' (MKDEV 42 1) COM2_BASEPORT cl token d (rt_kern s') \<and>
    ops_table L P bl s' \<and> ds_mem (kn_dev (rt_kern s')) = granted L (boot_requests bl) (ds_mem (kn_dev (rt_kern s))) \<and>
    rt_lfd s' = rt_lfd s \<and> rt_filps s' = rt_filps s \<and> r_sent (regs (kn_hw (rt_kern s'))) = r_sent (regs (kn_hw (rt_kern s)))"
proof -
  let ?ul = "bl_uart bl" and ?k = "rt_kern s"
  obtain pm pb m1 where m1: "serve L (Kmalloc True (sz_module bl) GFP_USER) (ds_mem (kn_dev ?k)) = (Some (pm, pb), m1)"
    "grants L (init_requests ?ul ''asd'') m1" "granted L (boot_requests bl) (ds_mem (kn_dev ?k)) = granted L (init_requests ?ul ''asd'') m1"
    by (rule grantsE [OF mem [unfolded boot_requests_def]]) (simp add: boot_requests_def)
  obtain n where n: "new_block (blocks (ds_mem (kn_dev ?k))) (blocks m1) pm n" using serve_law [OF heap m1(1)] by blast
  define k2 where "k2 = ?k\<lparr>kn_dev := (kn_dev ?k)\<lparr>ds_mem := m1\<rparr>, kn_module := Some ''asd''\<rparr>"
  have dok: "dev_ok (ul_dev ?ul) blocks (kn_dev ?k) [] []" using fd_okD(1) st by (fastforce simp: boot_state_def fd_view_def)
  have ok2: "dev_ok (ul_dev ?ul) blocks (kn_dev k2) [] []" using dev_ok_new [OF dok n] by (simp add: k2_def)
  have f2: "kn_uart k2 = kn_uart ?k" "kn_hw k2 = kn_hw ?k" "kn_module k2 = Some ''asd''" "kn_dev k2 = (kn_dev ?k)\<lparr>ds_mem := m1\<rparr>"
    by (simp_all add: k2_def)
  obtain cd where cd: "ds_cdevs (kn_dev ?k) (com2_dev ?ul + cdev_off ?ul) = Some cd" using st by (auto simp: boot_state_def)
  obtain k3 d cl tok where k3: "uart16550_init L P S ?ul k2 = Some (0, k3)" "dev_ok (ul_dev ?ul) blocks (kn_dev k3) [cl] []"
    "device_ready ?ul regs (com2_dev ?ul) ''com2'' (MKDEV 42 1) COM2_BASEPORT cl tok d k3" "ds_ops (kn_dev k3) = ds_ops (kn_dev k2)"
    "ds_mem (kn_dev k3) = granted L (init_requests ?ul ''asd'') (ds_mem (kn_dev k2))" "r_sent (regs (kn_hw k3)) = r_sent (regs (kn_hw k2))"
    "lists_kept blocks (kn_dev k2) (kn_dev k3)"
  proof -
    have o2: "ua_behavior (kn_uart k2) = OPTION_COM2" "0 \<le> ua_major (kn_uart k2)" "ua_major (kn_uart k2) < 2 ^ 13"
      and c2: "com1_dev ?ul \<noteq> com2_dev ?ul" "length (snd (cm_inbuf (ua_com2 (kn_uart k2)))) = 4096" "length (snd (cm_outbuf (ua_com2 (kn_uart k2)))) = 4096"
      and n2: "length ''asd'' < 2 ^ 32" and h2: "\<not> dlab (regs (kn_hw k2))"
      and cd2: "ds_cdevs (kn_dev k2) (com2_dev ?ul + cdev_off ?ul) = Some cd"
      and dev2: "MKDEV 42 1 = MKDEV (word_of_int (ua_major (kn_uart k2))) 1"
      and r2: "\<forall>c \<in> set (registry (kn_dev k2) []). sc_dev c \<noteq> MKDEV 42 1"
      and m2: "grants L (init_requests ?ul ''asd'') (ds_mem (kn_dev k2))"
      and l2: "\<forall>p. blocks (granted L (init_requests ?ul ''asd'') (ds_mem (kn_dev k2))) p \<noteq> None \<longrightarrow> \<not> IS_ERR p"
      using st cd m1(2) low unfolding m1(3) by (simp_all add: boot_state_def f2 registry_def)
    from uart_init_com2_ok [OF heap ok2 srv o2 c2 f2(3) n2 chip h2 cd2 dev2 r2 m2 l2] that show thesis by blast
  qed
  define s' where "s' = (fetch_module_init (s\<lparr>rt_sys := b, rt_srv := sv\<rparr>))\<lparr>rt_kern := k3\<rparr>"
  have kd: "lists_kept blocks (kn_dev ?k) (kn_dev k3)"
    by (rule lists_kept_trans [OF lists_kept_new k3(7)]) (use n in \<open>simp_all add: f2\<close>)
  have fl: "fl_dev (bl_fd bl) = ul_dev ?ul" using st by (simp add: boot_state_def)
  have "module_handler L P S bl (s\<lparr>rt_sys := b, rt_srv := sv\<rparr>) = Some (0, s')"
    using m1(1) k3(1) by (simp add: module_handler_def fetch_module_init_def init_module_struct_def module_init_def call_module_def k2_def s'_def)
  moreover have "debug_device_status (fl_dev (bl_fd bl)) (kn_dev k3) \<noteq> None"
    using k3(2-4) ops debug_status_one [OF k3(2)] unfolding fl by (fastforce simp: device_ready_def ops_table_def f2)
  ultimately have "main_init L P S E bl s = Some s'"
    using sys by (auto simp: main_init_def s'_def)
  moreover have "fd_ok (bl_fd bl) blocks (fd_view s') [cl] [] []"
    using st k3(2) kd fl by (auto simp: boot_state_def fd_ok_def fd_view_def s'_def lists_kept_def fetch_module_init_def files_of_def)
  moreover have "ops_table L P bl s'" using ops k3(4) by (simp add: ops_table_def s'_def f2)
  ultimately show ?thesis
    using k3(3,5,6) m1(3) f2 by (intro exI [of _ s'] exI [of _ d] exI [of _ cl] exI [of _ tok]) (simp add: s'_def fetch_module_init_def)
qed

section \<open>The open device\<close>

lemma fd_view_put [simp]: "fd_view (put_fd f s) = f"
  by (simp add: fd_view_def put_fd_def)

text \<open>The device \<open>com2\<close> is open under \<open>fd\<close>, its driver state is \<open>d\<close> and its interrupt token is in place.\<close>

definition com2_open :: "'h libc \<Rightarrow> 'w ports \<Rightarrow> boot_layout \<Rightarrow> ('h \<Rightarrow> addr \<rightharpoonup> nat) \<Rightarrow> ('w \<Rightarrow> uart_regs) \<Rightarrow> int \<Rightarrow> addr \<Rightarrow>
    com_dev \<Rightarrow> ('h, 'w, 'i, 'b) root \<Rightarrow> bool" where
  "com2_open L P bl blocks regs fd token d s \<longleftrightarrow>
     (\<exists>cl f r kf. fd_ok (bl_fd bl) blocks (fd_view s) [cl] [] [f] \<and> rt_files s f = Some r \<and> of_fd r = fd \<and>
        rt_filps s (of_file r) = Some kf \<and> private_data kf = Some (com2_dev (bl_uart bl)) \<and>
        device_ops (of_device r) (fd_view s) = Some (fops L P (bl_uart bl))) \<and>
     com_at (bl_uart bl) (com2_dev (bl_uart bl)) (kn_uart (rt_kern s)) = Some d \<and> com_ok d \<and> cm_base_port d = COM2_BASEPORT \<and>
     \<not> dlab (regs (kn_hw (rt_kern s))) \<and> com1_dev (bl_uart bl) \<noteq> com2_dev (bl_uart bl) \<and>
     (\<exists>h. kn_tokens (rt_kern s) token = Some \<lparr>real_handler = Some Uart_Interrupt_Handler, tk_irq = Some h, tk_dev = Some (com2_dev (bl_uart bl))\<rparr>)"

definition open_requests :: "boot_layout \<Rightarrow> request list" where
  "open_requests bl = [Kmalloc True sz_opened_file GFP_KERNEL, Kmalloc True (sz_cdev (fl_dev (bl_fd bl))) GFP_KERNEL,
     Kcalloc False 1 (strlen ''/dev/com2'') GFP_KERNEL, Kmalloc True (sz_file (bl_fd bl)) GFP_KERNEL, Calloc 1 256]"

lemma open_requestsE:
  assumes "grants L (open_requests bl) m0"
  obtains f d n p m4 b bs where "file_mem L (bl_fd bl) ''/dev/com2'' m0 f d n p m4"
    "ext_calloc L 1 256 m4 = (Some (b, bs), granted L (open_requests bl) m0)"
proof -
  obtain f fb m1 where 1: "serve L (Kmalloc True sz_opened_file GFP_KERNEL) m0 = (Some (f, fb), m1)"
    "grants L [Kmalloc True (sz_cdev (fl_dev (bl_fd bl))) GFP_KERNEL, Kcalloc False 1 (strlen ''/dev/com2'') GFP_KERNEL,
      Kmalloc True (sz_file (bl_fd bl)) GFP_KERNEL, Calloc 1 256] m1"
    by (rule grantsE [OF assms [unfolded open_requests_def]])
  obtain d db m2 where 2: "serve L (Kmalloc True (sz_cdev (fl_dev (bl_fd bl))) GFP_KERNEL) m1 = (Some (d, db), m2)"
    "grants L [Kcalloc False 1 (strlen ''/dev/com2'') GFP_KERNEL, Kmalloc True (sz_file (bl_fd bl)) GFP_KERNEL, Calloc 1 256] m2"
    by (rule grantsE [OF 1(2)])
  obtain n nb m3 where 3: "serve L (Kcalloc False 1 (strlen ''/dev/com2'') GFP_KERNEL) m2 = (Some (n, nb), m3)"
    "grants L [Kmalloc True (sz_file (bl_fd bl)) GFP_KERNEL, Calloc 1 256] m3" by (rule grantsE [OF 2(2)])
  obtain p pb m4 where 4: "serve L (Kmalloc True (sz_file (bl_fd bl)) GFP_KERNEL) m3 = (Some (p, pb), m4)" "grants L [Calloc 1 256] m4"
    by (rule grantsE [OF 3(2)])
  obtain b bs m5 where 5: "serve L (Calloc 1 256) m4 = (Some (b, bs), m5)" by (rule grantsE [OF 4(2)])
  have "granted L (open_requests bl) m0 = m5"
    by (simp only: open_requests_def granted.simps 1(1) 2(1) 3(1) 4(1) 5(1) snd_conv)
  moreover have "file_mem L (bl_fd bl) ''/dev/com2'' m0 f d n p m4"
    unfolding file_mem_def using 1(1) 2(1) 3(1) 4(1) unfolding serve.simps by blast
  ultimately show thesis using that 5 by simp
qed

lemma minor_42_1: "iminor (MKDEV 42 1) = 1"
  by (simp add: iminor_def MINOR_def MKDEV_def MINORMASK_def MINORBITS_def push_bit_eq_mult)

lemma open_com2:
  assumes heap: "heap_ok L blocks" and ok: "fd_ok (bl_fd bl) blocks (fd_view s) [cl] [] []"
    and fl: "fl_dev (bl_fd bl) = ul_dev (bl_uart bl)" and com: "com1_dev (bl_uart bl) \<noteq> com2_dev (bl_uart bl)"
    and rdy: "device_ready (bl_uart bl) regs (com2_dev (bl_uart bl)) ''com2'' (MKDEV 42 1) COM2_BASEPORT cl token d (rt_kern s)"
    and ops: "ops_table L P bl s" and lfd: "rt_lfd s < INT_MAX"
    and live: "blocks (ds_mem (kn_dev (rt_kern s))) (com2_dev (bl_uart bl) + cdev_off (bl_uart bl)) \<noteq> None"
    and mem: "grants L (open_requests bl) (ds_mem (kn_dev (rt_kern s)))"
  shows "\<exists>v f r b bs m4. fd_open L (bl_fd bl) (Some ''/dev/com2'') (fd_view s) = Some (rt_lfd s, v) \<and> fd_ok (bl_fd bl) blocks v [cl] [] [f] \<and>
    fs_files v f = Some r \<and> of_fd r = rt_lfd s \<and> fs_filps v (of_file r) = Some \<lparr>private_data = Some (com2_dev (bl_uart bl))\<rparr> \<and>
    device_ops (of_device r) v = Some (fops L P (bl_uart bl)) \<and> fs_priv v = (kn_uart (rt_kern s), kn_hw (rt_kern s)) \<and> ds_mem (fs_dev v) = m4 \<and>
    ext_calloc L 1 256 m4 = (Some (b, bs), granted L (open_requests bl) (ds_mem (kn_dev (rt_kern s))))"
proof -
  let ?ul = "bl_uart bl" and ?v = "fd_view s"
  obtain f dd n p m4 b bs where m: "file_mem L (bl_fd bl) ''/dev/com2'' (ds_mem (fs_dev ?v)) f dd n p m4"
    "ext_calloc L 1 256 m4 = (Some (b, bs), granted L (open_requests bl) (ds_mem (kn_dev (rt_kern s))))"
    by (rule open_requestsE [OF mem]) (simp add: fd_view_def)
  define c where "c = \<lparr>sc_cdev = com2_dev ?ul + cdev_off ?ul, sc_name = take 255 (''/dev/'' @ ''com2''), sc_dev = MKDEV 42 1\<rparr>"
  have reg: "ds_regs (fs_dev ?v) cl = Some c" using rdy by (simp add: device_ready_def c_def fd_view_def)
  have name: "device_by_name (fl_dev (bl_fd bl)) ''/dev/com2'' (fs_dev ?v) = Some cl" "cl \<noteq> 0"
    using reg rdy by (simp_all add: device_by_name_find [OF fd_okD(1) [OF ok]] strncmp_eq_def c_def device_ready_def)
  have ne: "sc_cdev c \<noteq> dd"
    using file_mem_blocks [OF heap m(1)] new_blocks_distinct(6) live by (fastforce simp: c_def fd_view_def)
  have dops: "device_ops (sc_cdev c) ?v = Some (fops L P ?ul)" "fop_open (fops L P ?ul) = Some (uart16550_open ?ul)"
    using rdy ops by (auto simp: device_ops_def device_ready_def ops_table_def c_def fd_view_def fops_def)
  define dv where "dv = \<lparr>dv_mem = m4, dv_filps = (fs_filps ?v)(p \<mapsto> \<lparr>private_data = Some (com2_dev ?ul)\<rparr>), dv_priv = fs_priv ?v\<rparr>"
  have call: "uart16550_open ?ul (sc_dev c) p \<lparr>dv_mem = m4, dv_filps = (fs_filps ?v)(p \<mapsto> \<lparr>private_data = None\<rparr>), dv_priv = fs_priv ?v\<rparr> = Some (0, dv)"
    by (simp add: uart16550_open_def c_def dv_def minor_42_1)
  have bm: "blocks (dv_mem dv) = blocks m4" by (simp add: dv_def)
  have lf: "length ''/dev/com2'' < 2 ^ 32" "fs_lfd ?v < INT_MAX" using lfd by (simp_all add: fd_view_def)
  obtain v where v: "fd_open L (bl_fd bl) (Some ''/dev/com2'') ?v = Some (fs_lfd ?v, v)" "fd_ok (bl_fd bl) blocks v [cl] [] [f]"
    "fs_files v = (fs_files ?v)(f \<mapsto> \<lparr>of_fd = fs_lfd ?v, of_name = n, of_device = sc_cdev c, of_file = p\<rparr>)"
    "fs_filps v = dv_filps dv" "fs_priv v = dv_priv dv" "ds_mem (fs_dev v) = dv_mem dv" "ds_ops (fs_dev v) = ds_ops (fs_dev ?v)"
    "ds_cdevs (fs_dev v) = (ds_cdevs (fs_dev ?v))(dd \<mapsto> \<lparr>cd_dev = None, cd_ops = None\<rparr>)"
    using fd_open_ok [OF heap ok lf m(1) name reg ne dops call bm] by blast
  have "device_ops (sc_cdev c) v = Some (fops L P ?ul)" using dops(1) v(7,8) ne by (simp add: device_ops_def)
  then show ?thesis
    using v m(2) by (intro exI [of _ v] exI [of _ f] exI [of _ "\<lparr>of_fd = fs_lfd ?v, of_name = n, of_device = sc_cdev c, of_file = p\<rparr>"]
        exI [of _ b] exI [of _ bs] exI [of _ m4]) (simp add: dv_def fd_view_def)
qed

lemma main_open_ok:
  assumes heap: "heap_ok L blocks" and ok: "fd_ok (bl_fd bl) blocks (fd_view s) [cl] [] []"
    and fl: "fl_dev (bl_fd bl) = ul_dev (bl_uart bl)" and com: "com1_dev (bl_uart bl) \<noteq> com2_dev (bl_uart bl)"
    and rdy: "device_ready (bl_uart bl) regs (com2_dev (bl_uart bl)) ''com2'' (MKDEV 42 1) COM2_BASEPORT cl token d (rt_kern s)"
    and ops: "ops_table L P bl s" and lfd: "rt_lfd s < INT_MAX"
    and live: "blocks (ds_mem (kn_dev (rt_kern s))) (com2_dev (bl_uart bl) + cdev_off (bl_uart bl)) \<noteq> None"
    and mem: "grants L (open_requests bl) (ds_mem (kn_dev (rt_kern s)))"
  shows "\<exists>s' b bs m. main_open L bl s = Some ((rt_lfd s, (b, bs)), s') \<and> com2_open L P bl blocks regs (rt_lfd s) token d s' \<and>
    ext_calloc L 1 256 m = (Some (b, bs), granted L (open_requests bl) (ds_mem (kn_dev (rt_kern s)))) \<and>
    ds_mem (kn_dev (rt_kern s')) = granted L (open_requests bl) (ds_mem (kn_dev (rt_kern s))) \<and> kn_hw (rt_kern s') = kn_hw (rt_kern s)"
proof -
  obtain v f r b bs m4 where v: "fd_open L (bl_fd bl) (Some ''/dev/com2'') (fd_view s) = Some (rt_lfd s, v)" "fd_ok (bl_fd bl) blocks v [cl] [] [f]"
    "fs_files v f = Some r" "of_fd r = rt_lfd s" "fs_filps v (of_file r) = Some \<lparr>private_data = Some (com2_dev (bl_uart bl))\<rparr>"
    "device_ops (of_device r) v = Some (fops L P (bl_uart bl))" "fs_priv v = (kn_uart (rt_kern s), kn_hw (rt_kern s))" "ds_mem (fs_dev v) = m4"
    "ext_calloc L 1 256 m4 = (Some (b, bs), granted L (open_requests bl) (ds_mem (kn_dev (rt_kern s))))"
    using open_com2 [OF assms] by blast
  let ?m = "granted L (open_requests bl) (ds_mem (kn_dev (rt_kern s)))"
  define s' where "s' = (put_fd v s)\<lparr>rt_kern := (rt_kern (put_fd v s))\<lparr>kn_dev := (fs_dev v)\<lparr>ds_mem := ?m\<rparr>\<rparr>\<rparr>"
  have pos: "0 < rt_lfd s" using fd_ok_owned(5) [OF ok] by (simp add: fd_view_def)
  have o': "main_open L bl s = Some ((rt_lfd s, (b, bs)), s')"
    using v(1,8,9) pos by (simp add: main_open_def put_fd_def s'_def)
  have v': "fd_view s' = v\<lparr>fs_dev := (fs_dev v)\<lparr>ds_mem := ?m\<rparr>\<rparr>" by (simp add: s'_def fd_view_def put_fd_def)
  have "new_block (blocks (ds_mem (fs_dev v))) (blocks ?m) b 256"
    using heap_ok_calloc [OF heap, of 1 256 m4] v(8,9) by (simp add: alloc_law_Some)
  then have "fd_ok (bl_fd bl) blocks (fd_view s') [cl] [] [f]"
    by (intro fd_ok_alloc [OF v(2), of _ b 256]) (simp_all add: v')
  moreover have "device_ops (of_device r) (fd_view s') = Some (fops L P (bl_uart bl))" using v(6) by (simp add: v' device_ops_def)
  moreover have "rt_files s' f = Some r" "rt_filps s' (of_file r) = Some \<lparr>private_data = Some (com2_dev (bl_uart bl))\<rparr>"
    "kn_uart (rt_kern s') = kn_uart (rt_kern s)" "kn_hw (rt_kern s') = kn_hw (rt_kern s)" "kn_tokens (rt_kern s') = kn_tokens (rt_kern s)"
    using v(3,5,7) by (simp_all add: s'_def put_fd_def)
  ultimately have "com2_open L P bl blocks regs (rt_lfd s) token d s'"
    using rdy com v(4) unfolding com2_open_def device_ready_def by (metis kfile.select_convs(1))
  with o' v(9) show ?thesis
    using v(7) by (intro exI [of _ s'] exI [of _ b] exI [of _ bs] exI [of _ m4]) (simp add: s'_def put_fd_def)
qed

section \<open>Interrupts, reading and writing\<close>

lemma com2_open_step:
  assumes o: "com2_open L P bl blocks regs fd token d s"
    and v: "blocks (ds_mem (kn_dev (rt_kern s'))) = blocks (ds_mem (kn_dev (rt_kern s)))"
      "\<exists>m. kn_dev (rt_kern s') = (kn_dev (rt_kern s))\<lparr>ds_mem := m\<rparr>" "rt_files s' = rt_files s" "rt_filps s' = rt_filps s" "rt_lfd s' = rt_lfd s"
      "kn_tokens (rt_kern s') = kn_tokens (rt_kern s)"
    and u: "kn_uart (rt_kern s') = put_com (bl_uart bl) (com2_dev (bl_uart bl)) d' (kn_uart (rt_kern s))"
    and d': "com_ok d'" "cm_base_port d' = cm_base_port d" "\<not> dlab (regs (kn_hw (rt_kern s')))"
  shows "com2_open L P bl blocks regs fd token d' s'"
proof -
  obtain m where m: "kn_dev (rt_kern s') = (kn_dev (rt_kern s))\<lparr>ds_mem := m\<rparr>" using v(2) by blast
  have f: "fd_ok (bl_fd bl) blocks (fd_view s') cs ds fs" if "fd_ok (bl_fd bl) blocks (fd_view s) cs ds fs" for cs ds fs
    by (rule fd_ok_cong [OF that]) (use m v in \<open>simp_all add: fd_view_def\<close>)
  have "device_ops p (fd_view s') = device_ops p (fd_view s)" for p using m by (simp add: device_ops_def fd_view_def)
  moreover have "com_at (bl_uart bl) (com2_dev (bl_uart bl)) (kn_uart (rt_kern s')) = Some d'"
    using o com_at_put unfolding u com2_open_def by blast
  ultimately show ?thesis using o f v(3,4,6) d' unfolding com2_open_def by metis
qed

lemma deliver_ok:
  assumes chip: "chip_ok P COM2_BASEPORT regs" and o: "com2_open L P bl blocks regs fd token d s"
  shows "\<exists>s' d' sent stored lost. deliver_irq P S (bl_uart bl) \<lparr>id_handle = h, id_irq = COM2_IRQ, id_token = token\<rparr> s = Some s' \<and>
    com2_open L P bl blocks regs fd token d' s' \<and> kfifo_bytes (cm_out d) = sent @ kfifo_bytes (cm_out d') \<and>
    kfifo_bytes (cm_in d') = kfifo_bytes (cm_in d) @ stored \<and>
    regs (kn_hw (rt_kern s')) = (regs (kn_hw (rt_kern s)))\<lparr>r_sent := r_sent (regs (kn_hw (rt_kern s))) @ sent,
      r_taken := r_taken (regs (kn_hw (rt_kern s))) @ stored @ lost\<rparr> \<and>
    length lost \<le> 1 \<and> (lost \<noteq> [] \<longrightarrow> length (kfifo_bytes (cm_in d')) = 4096) \<and>
    ds_mem (kn_dev (rt_kern s')) = ds_mem (kn_dev (rt_kern s))"
proof -
  let ?ul = "bl_uart bl" and ?k = "rt_kern s"
  have irq: "(if COM2_IRQ = COM1_IRQ then com1_dev ?ul else com2_dev ?ul) = com2_dev ?ul" by (simp add: COM1_IRQ_def COM2_IRQ_def)
  have d: "chip_ok P (cm_base_port d) regs" "\<not> dlab (regs (kn_hw ?k))" "com_ok d"
    "com_at ?ul (if COM2_IRQ = COM1_IRQ then com1_dev ?ul else com2_dev ?ul) (kn_uart ?k) = Some d"
    using chip o unfolding irq by (simp_all add: com2_open_def)
  obtain d' w' sent stored lost where i: "interrupt_handler P ?ul COM2_IRQ (com2_dev ?ul) (kn_uart ?k, kn_hw ?k) =
      Some (IRQ_HANDLED, put_com ?ul (com2_dev ?ul) d' (kn_uart ?k), w')" "com_ok d'" "cm_base_port d' = cm_base_port d"
    "kfifo_bytes (cm_out d) = sent @ kfifo_bytes (cm_out d')" "kfifo_bytes (cm_in d') = kfifo_bytes (cm_in d) @ stored"
    "regs w' = (regs (kn_hw ?k))\<lparr>r_sent := r_sent (regs (kn_hw ?k)) @ sent, r_taken := r_taken (regs (kn_hw ?k)) @ stored @ lost\<rparr>"
    "length lost \<le> 1" "lost \<noteq> [] \<longrightarrow> length (kfifo_bytes (cm_in d')) = 4096"
    using interrupt_result [OF d(1,2,4,3), of "com2_dev ?ul"] unfolding irq by blast
  define s' where "s' = s\<lparr>rt_kern := ?k\<lparr>kn_srv := srv_ack S h (kn_srv ?k), kn_uart := put_com ?ul (com2_dev ?ul) d' (kn_uart ?k), kn_hw := w'\<rparr>\<rparr>"
  have e: "deliver_irq P S ?ul \<lparr>id_handle = h, id_irq = COM2_IRQ, id_token = token\<rparr> s = Some s'"
    using o i(1) by (auto simp: com2_open_def deliver_irq_def lmseL4_InterruptHandler_def irq_view_def put_irq_def call_irq_fn_def s'_def)
  have "com2_open L P bl blocks regs fd token d' s'"
    by (rule com2_open_step [OF o]) (use i(2,3,6) d(2) in \<open>simp_all add: s'_def dlab_def\<close>, rule exI [of _ "ds_mem (kn_dev ?k)"], simp)
  with e i(4-8) show ?thesis
    by (intro exI [of _ s'] exI [of _ d'] exI [of _ sent] exI [of _ stored] exI [of _ lost]) (simp add: s'_def)
qed

lemma read_loop_ok:
  assumes heap: "heap_ok L blocks" and o: "com2_open L P bl blocks regs fd token d s"
    and data: "kfifo_bytes (cm_in d) \<noteq> []" and k: "k = min 256 (length (kfifo_bytes (cm_in d)))" and buf: "length buf = 256"
    and mem: "kmalloc L False 256 GFP_KERNEL (ds_mem (kn_dev (rt_kern s))) = (Some (b, bs), m)"
  shows "\<exists>s' d'. read_loop bl fd buf s = Some ((int k, take k (kfifo_bytes (cm_in d)) @ drop k buf), s') \<and>
    com2_open L P bl blocks regs fd token d' s' \<and> kfifo_bytes (cm_in d') = drop k (kfifo_bytes (cm_in d)) \<and> cm_out d' = cm_out d \<and>
    kn_hw (rt_kern s') = kn_hw (rt_kern s) \<and> ds_mem (kn_dev (rt_kern s')) = ext_free L b m"
proof -
  let ?ul = "bl_uart bl" and ?v = "fd_view s"
  define dv where "dv = \<lparr>dv_mem = ds_mem (fs_dev ?v), dv_filps = fs_filps ?v, dv_priv = fs_priv ?v\<rparr>"
  obtain cl f r kf where f: "fd_ok (bl_fd bl) blocks ?v [cl] [] [f]" "rt_files s f = Some r" "of_fd r = fd" "rt_filps s (of_file r) = Some kf"
    "private_data kf = Some (com2_dev ?ul)" "device_ops (of_device r) ?v = Some (fops L P ?ul)" using o by (auto simp: com2_open_def)
  have d: "com_at ?ul (com2_dev ?ul) (fst (dv_priv dv)) = Some d" "com_ok d" "dv_filps dv (of_file r) = Some kf"
    "kmalloc L False 256 GFP_KERNEL (dv_mem dv) = (Some (b, bs), m)"
    using o f(4) mem by (simp_all add: com2_open_def dv_def fd_view_def)
  have kb: "k = min (unat (256 :: u32)) (length (kfifo_bytes (cm_in d)))" "k \<le> length buf" using k buf by simp_all
  obtain dv' d' where r: "uart16550_read L ?ul (of_file r) buf 256 dv = Some ((int k, take k (kfifo_bytes (cm_in d)) @ drop k buf), dv')"
    "dv_filps dv' = dv_filps dv" "blocks (dv_mem dv') = blocks (dv_mem dv)" "dv_mem dv' = ext_free L b m" "snd (dv_priv dv') = snd (dv_priv dv)"
    "fst (dv_priv dv') = put_com ?ul (com2_dev ?ul) d' (fst (dv_priv dv))" "com_ok d'" "cm_base_port d' = cm_base_port d"
    "kfifo_bytes (cm_in d') = drop k (kfifo_bytes (cm_in d))" "cm_out d' = cm_out d"
    using uart_read_result [OF heap d(3) f(5) d(1,2) data d(4) kb] by blast
  define v where "v = ?v\<lparr>fs_dev := (fs_dev ?v)\<lparr>ds_mem := dv_mem dv'\<rparr>, fs_filps := dv_filps dv', fs_priv := dv_priv dv'\<rparr>"
  have "fs_files ?v f = Some r" using f(2) by (simp add: fd_view_def)
  then have "fd_read (bl_fd bl) fd (Some buf) 256 ?v = Some ((int k, Some (take k (kfifo_bytes (cm_in d)) @ drop k buf)), v)"
    using libc_heap.uart_read_call(1) [OF libc_heap.intro [OF heap] f(1) _ _ f(6), of f buf 256] f(3) r(1)
    by (simp add: fops_def call_driver_def v_def dv_def)
  moreover have "int k \<noteq> 0" using k data by simp
  ultimately have "read_loop bl fd buf s = Some ((int k, take k (kfifo_bytes (cm_in d)) @ drop k buf), put_fd v s)"
    by (subst read_loop.simps) simp
  moreover have "com2_open L P bl blocks regs fd token d' (put_fd v s)"
    by (rule com2_open_step [OF o]) (use r o in \<open>simp_all add: put_fd_def v_def dv_def fd_view_def com2_open_def, blast\<close>)
  ultimately show ?thesis
    using r(4,5,9,10) by (intro exI [of _ "put_fd v s"] exI [of _ d']) (simp add: put_fd_def v_def dv_def fd_view_def)
qed

lemma write_back_ok:
  assumes heap: "heap_ok L blocks" and chip: "chip_ok P COM2_BASEPORT regs" and o: "com2_open L P bl blocks regs fd token d s"
    and room: "length (kfifo_bytes (cm_out d)) < 4096" and k: "k = min (unat sz) (4096 - length (kfifo_bytes (cm_out d)))" "unat sz \<le> length buf"
    and mem: "kmalloc L False sz GFP_KERNEL (ds_mem (kn_dev (rt_kern s))) = (Some (b, bs), m)"
  shows "\<exists>v d'. fd_write (bl_fd bl) fd (Some buf) sz (fd_view s) = Some (int k, v) \<and> com2_open L P bl blocks regs fd token d' (put_fd v s) \<and>
    kfifo_bytes (cm_out d') = kfifo_bytes (cm_out d) @ take k buf \<and> cm_in d' = cm_in d \<and>
    r_sent (regs (kn_hw (rt_kern (put_fd v s)))) = r_sent (regs (kn_hw (rt_kern s)))"
proof -
  let ?ul = "bl_uart bl" and ?v = "fd_view s"
  define dv where "dv = \<lparr>dv_mem = ds_mem (fs_dev ?v), dv_filps = fs_filps ?v, dv_priv = fs_priv ?v\<rparr>"
  obtain cl f r kf where f: "fd_ok (bl_fd bl) blocks ?v [cl] [] [f]" "rt_files s f = Some r" "of_fd r = fd" "rt_filps s (of_file r) = Some kf"
    "private_data kf = Some (com2_dev ?ul)" "device_ops (of_device r) ?v = Some (fops L P ?ul)" using o by (auto simp: com2_open_def)
  have d: "com_at ?ul (com2_dev ?ul) (fst (dv_priv dv)) = Some d" "com_ok d" "dv_filps dv (of_file r) = Some kf"
    "kmalloc L False sz GFP_KERNEL (dv_mem dv) = (Some (b, bs), m)" "\<not> dlab (regs (snd (dv_priv dv)))"
    using o f(4) mem by (simp_all add: com2_open_def dv_def fd_view_def)
  have c: "chip_ok P (if com1_dev ?ul = com2_dev ?ul then COM1_BASEPORT else COM2_BASEPORT) regs" using chip o by (simp add: com2_open_def)
  obtain dv' d' where r: "uart16550_write L P ?ul (of_file r) buf sz dv = Some (int k, dv')"
    "dv_filps dv' = dv_filps dv" "blocks (dv_mem dv') = blocks (dv_mem dv)"
    "fst (dv_priv dv') = put_com ?ul (com2_dev ?ul) d' (fst (dv_priv dv))" "com_ok d'" "cm_base_port d' = cm_base_port d"
    "kfifo_bytes (cm_out d') = kfifo_bytes (cm_out d) @ take k buf" "cm_in d' = cm_in d"
    "regs (snd (dv_priv dv')) = (regs (snd (dv_priv dv)))\<lparr>r_ier := 0x03\<rparr>"
    using uart_write_result [OF heap d(3) f(5) d(1,2) c d(5) room d(4) k(2,1)] by blast
  define v where "v = ?v\<lparr>fs_dev := (fs_dev ?v)\<lparr>ds_mem := dv_mem dv'\<rparr>, fs_filps := dv_filps dv', fs_priv := dv_priv dv'\<rparr>"
  have "fs_files ?v f = Some r" using f(2) by (simp add: fd_view_def)
  then have "fd_write (bl_fd bl) fd (Some buf) sz ?v = Some (int k, v)"
    using libc_heap.uart_write_call(1) [OF libc_heap.intro [OF heap] f(1) _ _ f(6), of f buf sz] f(3) r(1)
    by (simp add: fops_def call_driver_def v_def dv_def)
  moreover have "com2_open L P bl blocks regs fd token d' (put_fd v s)"
    by (rule com2_open_step [OF o]) (use r o in \<open>simp_all add: put_fd_def v_def dv_def fd_view_def com2_open_def dlab_def, blast\<close>)
  ultimately show ?thesis
    using r(7-9) by (intro exI [of _ v] exI [of _ d']) (simp add: put_fd_def v_def dv_def fd_view_def)
qed

lemma main_echo_ok:
  assumes heap: "heap_ok L blocks" and chip: "chip_ok P COM2_BASEPORT regs" and o: "com2_open L P bl blocks regs fd token d s"
    and data: "kfifo_bytes (cm_in d) \<noteq> []" "length (kfifo_bytes (cm_in d)) < 256" and room: "kfifo_bytes (cm_out d) = []"
    and rd: "kmalloc L False 256 GFP_KERNEL (ds_mem (kn_dev (rt_kern s))) = (Some (b, bs), m)"
    and wr: "kmalloc L False (of_nat (length (kfifo_bytes (cm_in d)))) GFP_KERNEL (ext_free L b m) = (Some (b', bs'), m')"
  shows "\<exists>s' d'. main_echo bl fd (replicate 256 0) s = Some (Main_Loops, s') \<and> com2_open L P bl blocks regs fd token d' s' \<and>
    kfifo_bytes (cm_in d') = [] \<and> kfifo_bytes (cm_out d') = kfifo_bytes (cm_in d) \<and>
    r_sent (regs (kn_hw (rt_kern s'))) = r_sent (regs (kn_hw (rt_kern s)))"
proof -
  define k where "k = length (kfifo_bytes (cm_in d))"
  have k: "k = min 256 (length (kfifo_bytes (cm_in d)))" "0 < k" "k < 256" using data by (simp_all add: k_def)
  define buf where "buf = kfifo_bytes (cm_in d) @ replicate (256 - k) (0 :: u8)"
  obtain s1 d1 where s1: "read_loop bl fd (replicate 256 0) s = Some ((int k, buf), s1)" "com2_open L P bl blocks regs fd token d1 s1"
    "kfifo_bytes (cm_in d1) = []" "cm_out d1 = cm_out d" "kn_hw (rt_kern s1) = kn_hw (rt_kern s)" "ds_mem (kn_dev (rt_kern s1)) = ext_free L b m"
    using read_loop_ok [OF heap o data(1) k(1) _ rd, of "replicate 256 0"] by (auto simp: k_def buf_def)
  have n: "unat (of_nat k :: u32) = k" using k(3) by (simp add: unat_of_nat)
  have w: "length (kfifo_bytes (cm_out d1)) < 4096" "k = min (unat (of_nat k :: u32)) (4096 - length (kfifo_bytes (cm_out d1)))"
    "unat (of_nat k :: u32) \<le> length buf" "kmalloc L False (of_nat k) GFP_KERNEL (ds_mem (kn_dev (rt_kern s1))) = (Some (b', bs'), m')"
    using room s1(4,6) n k(3) wr by (simp_all add: k_def buf_def)
  obtain v d' where v: "fd_write (bl_fd bl) fd (Some buf) (of_nat k) (fd_view s1) = Some (int k, v)"
    "com2_open L P bl blocks regs fd token d' (put_fd v s1)" "kfifo_bytes (cm_out d') = kfifo_bytes (cm_out d1) @ take k buf" "cm_in d' = cm_in d1"
    "r_sent (regs (kn_hw (rt_kern (put_fd v s1)))) = r_sent (regs (kn_hw (rt_kern s1)))"
    using write_back_ok [OF heap chip s1(2) w] by blast
  have "c_string buf \<noteq> None" using k(3) by (simp add: c_string_def buf_def)
  then have "main_echo bl fd (replicate 256 0) s = Some (Main_Loops, put_fd v s1)"
    using s1(1) v(1) k(2) by (auto simp: main_echo_def)
  then show ?thesis using v(2-5) s1(3-5) room by (intro exI [of _ "put_fd v s1"] exI [of _ d']) (simp add: buf_def k_def)
qed

text \<open>A round of the program: an interrupt, the echo of what it brought, and the next interrupt.\<close>

definition echo_done :: "'w ports \<Rightarrow> 'i irq_server \<Rightarrow> boot_layout \<Rightarrow> ('w \<Rightarrow> uart_regs) \<Rightarrow> int \<Rightarrow> irq_data \<Rightarrow> u8 list \<Rightarrow> u8 list \<Rightarrow>
    ('h, 'w, 'i, 'b) root \<Rightarrow> bool" where
  "echo_done P S bl regs fd irq old bytes s \<longleftrightarrow>
     (\<exists>s4 s5 d5. main_echo bl fd (replicate 256 0) s = Some (Main_Loops, s4) \<and> deliver_irq P S (bl_uart bl) irq s4 = Some s5 \<and>
        com_at (bl_uart bl) (com2_dev (bl_uart bl)) (kn_uart (rt_kern s5)) = Some d5 \<and>
        r_sent (regs (kn_hw (rt_kern s5))) @ kfifo_bytes (cm_out d5) = old @ bytes)"

lemma echo_done_ok:
  assumes heap: "heap_ok L blocks" and chip: "chip_ok P COM2_BASEPORT regs" and o: "com2_open L P bl blocks regs fd token d s"
    and data: "kfifo_bytes (cm_in d) \<noteq> []" "length (kfifo_bytes (cm_in d)) < 256" and room: "kfifo_bytes (cm_out d) = []"
    and rd: "kmalloc L False 256 GFP_KERNEL (ds_mem (kn_dev (rt_kern s))) = (Some (q, qs), m)"
    and wr: "\<forall>n. 0 < n \<and> n < 256 \<longrightarrow> fst (kmalloc L False (of_nat n) GFP_KERNEL (ext_free L q m)) \<noteq> None"
  shows "echo_done P S bl regs fd \<lparr>id_handle = h, id_irq = COM2_IRQ, id_token = token\<rparr> (r_sent (regs (kn_hw (rt_kern s)))) (kfifo_bytes (cm_in d)) s"
proof -
  obtain q' qs' m' where "kmalloc L False (of_nat (length (kfifo_bytes (cm_in d)))) GFP_KERNEL (ext_free L q m) = (Some (q', qs'), m')"
    using wr data by (metis length_greater_0_conv option.exhaust prod.exhaust_sel)
  then obtain s4 d4 where s4: "main_echo bl fd (replicate 256 0) s = Some (Main_Loops, s4)" "com2_open L P bl blocks regs fd token d4 s4"
    "kfifo_bytes (cm_out d4) = kfifo_bytes (cm_in d)" "r_sent (regs (kn_hw (rt_kern s4))) = r_sent (regs (kn_hw (rt_kern s)))"
    using main_echo_ok [OF heap chip o data room rd] by blast
  obtain s5 d5 sent stored lost where "deliver_irq P S (bl_uart bl) \<lparr>id_handle = h, id_irq = COM2_IRQ, id_token = token\<rparr> s4 = Some s5"
    "com2_open L P bl blocks regs fd token d5 s5" "kfifo_bytes (cm_out d4) = sent @ kfifo_bytes (cm_out d5)"
    "regs (kn_hw (rt_kern s5)) = (regs (kn_hw (rt_kern s4)))\<lparr>r_sent := r_sent (regs (kn_hw (rt_kern s4))) @ sent,
      r_taken := r_taken (regs (kn_hw (rt_kern s4))) @ stored @ lost\<rparr>"
    using deliver_ok [OF chip s4(2), of S h] by blast
  with s4 show ?thesis
    unfolding echo_done_def by (intro exI [of _ s4] exI [of _ s5] exI [of _ d5]) (simp add: com2_open_def)
qed

section \<open>Threads\<close>

text \<open>A thread is only started for a module whose entry point is known, on an aligned stack; the
  devices and files are as before, up to the memory of \<open>struct module\<close>.\<close>

lemma spawn_new_module_ok:
  assumes "spawn_new_module L E bl cspace pd s = Some (r, s')"
  shows "r = 0" "sm_init (rt_module s') = Some Uart16550_Init" "kn_module (rt_kern s') = Some ''asd''" "thread_2_stack bl mod 8 = 0"
    "\<exists>m. kn_dev (rt_kern s') = (kn_dev (rt_kern s))\<lparr>ds_mem := m\<rparr>" "rt_files s' = rt_files s"
proof -
  have "(thread_2_stack bl + 8 * THREAD_2_STACK_SIZE) mod 8 = thread_2_stack bl mod 8"
  proof -
    have "(unat (thread_2_stack bl) + 4096) mod 2 ^ 32 mod 8 = (unat (thread_2_stack bl) + 4096) mod 8" by (rule mod_mod_cancel) simp
    moreover have "(unat (thread_2_stack bl) + 4096) mod 8 = unat (thread_2_stack bl) mod 8" by presburger
    ultimately show ?thesis by (simp add: THREAD_2_STACK_SIZE_def word_unat_eq_iff unat_mod unat_word_ariths)
  qed
  moreover obtain s1 b where "init_module_struct L bl (fetch_module_init s) = Some s1" "s' = s1\<lparr>rt_sys := b\<rparr>" "r = 0"
    "(thread_2_stack bl + 8 * THREAD_2_STACK_SIZE) mod 8 = 0"
    using assms unfolding spawn_new_module_def Let_def split_def
    by (clarsimp simp only: bind_eq_Some_conv) (auto simp: bind_eq_Some_conv split: if_splits)
  ultimately show "r = 0" "sm_init (rt_module s') = Some Uart16550_Init" "kn_module (rt_kern s') = Some ''asd''" "thread_2_stack bl mod 8 = 0"
    "\<exists>m. kn_dev (rt_kern s') = (kn_dev (rt_kern s))\<lparr>ds_mem := m\<rparr>" "rt_files s' = rt_files s"
    by (auto simp: init_module_struct_def fetch_module_init_def module_init_def split: option.splits prod.splits)
qed

section \<open>A sample system\<close>

definition sample_bl :: boot_layout where
  "sample_bl = \<lparr>bl_fd = sample_fl, bl_uart = sample_ul, sz_module = 0x180, thread_2_stack = 0x10000,
     entry_of = (\<lambda>_. 0x8000), module_handler_at = 0x9000\<rparr>"

definition sample_root :: "u8 list \<Rightarrow> ((addr \<times> nat) list, sim_chip, nat, unit) root" where
  "sample_root rx = \<lparr>rt_kern = sample_kern\<lparr>kn_module := None, kn_hw := fresh_chip rx\<rparr>, rt_filps = Map.empty, rt_lfd = 1, rt_files = Map.empty,
     rt_errno = 0, rt_module = \<lparr>sm_init = None, sm_exit = None, sm_dlhandle = None\<rparr>, rt_srv = 0, rt_sys = ()\<rparr>"

text \<open>A kernel whose calls all succeed.\<close>

definition sample_sel4 :: "unit sel4" where
  "sample_sel4 = \<lparr>GetBootInfo = (\<lambda>b. (1, b)), bootstrap_use_current_simple = (\<lambda>b. (1, b)), bootstrap_vspace = (\<lambda>b. (0, b)),
     irq_server_new = (\<lambda>b. ((0, 1), b)), vka_alloc_endpoint = (\<lambda>b. ((0, 1), b)), vka_alloc_tcb = (\<lambda>b. ((0, 2), b)),
     vka_alloc_frame = (\<lambda>_ b. ((0, 3), b)), vka_alloc_page_table = (\<lambda>b. ((0, 4), b)), Page_Map = (\<lambda>_ _ _ b. (0, b)),
     PageTable_Map = (\<lambda>_ _ _ b. (0, b)), write_user_data = (\<lambda>_ _ b. Some b), TCB_Configure = (\<lambda>_ _ _ _ _ b. (0, b)),
     TCB_WriteRegisters = (\<lambda>_ _ _ b. (0, b)), TCB_Resume = (\<lambda>_ b. (0, b)), configure_thread = (\<lambda>_ b. (0, b)), start_thread = (\<lambda>_ b. (0, b))\<rparr>"

lemma sample_boot_system: "boot_system sample_sel4 () = Some (1, ())"
  by (simp add: boot_system_def make_irq_server_def check_err_def sample_sel4_def)

lemma sample_root_ok:
  "boot_state sample_bl map_of sim_regs (sample_root rx)" "ops_table log_libc (sim_ports COM2_BASEPORT) sample_bl (sample_root rx)"
proof -
  have "fd_ok sample_fl map_of (fd_view (sample_root rx)) [] [] []"
    using sample_kern_ok
    by (simp add: fd_ok_def fd_view_def sample_root_def sample_fl_def files_of_def objs_def dlist_def list_off_def) (simp add: sample_kern_def)
  then show "boot_state sample_bl map_of sim_regs (sample_root rx)"
    using sample_buffers fresh_chip_no_dlab [of rx]
    by (simp add: boot_state_def sample_bl_def sample_root_def sample_fl_def sample_ul_def) (simp add: sample_kern_def sample_uart_def OPTION_COM2_def)
  show "ops_table log_libc (sim_ports COM2_BASEPORT) sample_bl (sample_root rx)"
    by (simp add: ops_table_def sample_bl_def sample_root_def sample_kern_def) (simp add: sample_ul_def)
qed

lemma sample_boot_memory:
  "grants log_libc (boot_requests sample_bl @ open_requests sample_bl) (ds_mem (kn_dev (rt_kern (sample_root rx))))"
  "granted log_libc (boot_requests sample_bl) (ds_mem (kn_dev (rt_kern (sample_root rx)))) =
     [(0x4472, 3), (0x4451, 32), (0x4340, 272), (0x433b, 4), (0x423a, 256), (0x422d, 12), (0x4223, 9), (0x41e2, 64), (0x4061, 0x180)] @
     ds_mem (kn_dev sample_kern)"
  "granted log_libc (boot_requests sample_bl @ open_requests sample_bl) (ds_mem (kn_dev (rt_kern (sample_root rx)))) =
     [(0x455b, 256), (0x44da, 128), (0x44d0, 9), (0x448f, 64), (0x4476, 24)] @
     [(0x4472, 3), (0x4451, 32), (0x4340, 272), (0x433b, 4), (0x423a, 256), (0x422d, 12), (0x4223, 9), (0x41e2, 64), (0x4061, 0x180)] @
     ds_mem (kn_dev sample_kern)"
  by (simp_all add: boot_requests_def open_requests_def init_requests_def device_requests_def log_libc_def log_alloc_def sample_root_def sample_kern_def
      sample_bl_def sample_fl_def sample_ul_def sample_layout_def strlen_def sz_IRQData_def sz_seL4_Class_def sz_resource_def sz_opened_file_def
      kmalloc_def kmalloc_rt_def kcalloc_def kmalloc_array_def KMALLOC_MAX_CACHE_SIZE_def push_bit_eq_mult GFP_KERNEL_def GFP_ZERO_def GFP_USER_def)

text \<open>The blocks that \<open>read\<close> and \<open>write\<close> then take.\<close>

lemma sample_read_memory:
  "kmalloc log_libc False 256 GFP_KERNEL (granted log_libc (boot_requests sample_bl @ open_requests sample_bl) (ds_mem (kn_dev (rt_kern (sample_root rx))))) =
     (Some (0x465c, replicate 256 0xAA), (0x465c, 256) # granted log_libc (boot_requests sample_bl @ open_requests sample_bl) (ds_mem (kn_dev (rt_kern (sample_root rx)))))"
  unfolding sample_boot_memory(3)
  by (simp add: kmalloc_def kmalloc_rt_def log_libc_def log_alloc_def sample_kern_def KMALLOC_MAX_CACHE_SIZE_def push_bit_eq_mult GFP_KERNEL_def GFP_ZERO_def)

lemma log_kmalloc_small:
  "next_free h < 2 ^ 31 \<Longrightarrow> n < 256 \<Longrightarrow> fst (kmalloc log_libc False (of_nat n) flags h) \<noteq> None"
  by (simp add: kmalloc_def kmalloc_rt_def log_libc_def log_alloc_def unat_of_nat)

lemma sample_write_memory:
  "\<forall>n. 0 < n \<and> n < 256 \<longrightarrow> fst (kmalloc log_libc False (of_nat n) GFP_KERNEL (ext_free log_libc 0x465c ((0x465c, 256) #
     granted log_libc (boot_requests sample_bl @ open_requests sample_bl) (ds_mem (kn_dev (rt_kern (sample_root rx))))))) \<noteq> None"
proof (intro allI impI, rule log_kmalloc_small)
  show "next_free (ext_free log_libc 0x465c ((0x465c, 256) #
      granted log_libc (boot_requests sample_bl @ open_requests sample_bl) (ds_mem (kn_dev (rt_kern (sample_root rx)))))) < 2 ^ 31"
    unfolding sample_boot_memory(3) by (simp add: log_libc_def sample_kern_def)
qed simp

end
